(* ===== verification/JsValue.thy ===== *)
theory JsValue
  imports Prelude
begin

text \<open>
  JavaScript values as the code handles them (\<open>unknown\<close> in the sources): primitives,
  arrays and plain objects. A plain object is the list of its own enumerable string
  properties in JavaScript's enumeration order (array-index keys first, ascending, then the
  other keys in insertion order); \<open>obj_put\<close> is the assignment \<open>o[k] = v\<close> and keeps that
  order. Numbers are the integers a double represents exactly, and the three non-finite
  values; fractional numbers are outside the model.
\<close>

datatype jnum = JInt int | JNaN | JInf | JNegInf

datatype js =
    Undef
  | Null
  | Bool bool
  | Num jnum
  | BigInt int
  | Str string
  | Arr "js list"
  | Obj "(string \<times> js) list"

abbreviation num :: "int \<Rightarrow> js" where
  "num i \<equiv> Num (JInt i)"

subsection \<open>Objects\<close>

text \<open>
  An array index is the canonical decimal rendering of an integer below \<open>2^32 - 1\<close>.
\<close>

definition is_index_key :: "string \<Rightarrow> bool" where
  "is_index_key k \<longleftrightarrow> k \<noteq> [] \<and> list_all is_digit k \<and> (hd k = CHR ''0'' \<longrightarrow> k = ''0'')
     \<and> digits_val k < 2 ^ 32 - 1"

fun insert_index :: "string \<Rightarrow> js \<Rightarrow> (string \<times> js) list \<Rightarrow> (string \<times> js) list" where
  "insert_index k v [] = [(k, v)]"
| "insert_index k v ((k', v') # es) =
     (if is_index_key k' \<and> digits_val k' < digits_val k then (k', v') # insert_index k v es
      else (k, v) # (k', v') # es)"

fun replace_key :: "string \<Rightarrow> js \<Rightarrow> (string \<times> js) list \<Rightarrow> (string \<times> js) list" where
  "replace_key k v [] = []"
| "replace_key k v ((k', v') # es) =
     (if k' = k then (k, v) # es else (k', v') # replace_key k v es)"

text \<open>
  \<open>o[k] = v\<close> on an object that inherits from \<open>Object.prototype\<close>: the key
  \<open>__proto__\<close> is an accessor there, so the assignment runs its setter (which changes the
  prototype or does nothing) and creates no own property.
\<close>

definition obj_put :: "string \<Rightarrow> js \<Rightarrow> (string \<times> js) list \<Rightarrow> (string \<times> js) list" where
  "obj_put k v es =
     (if k = ''__proto__'' then es
      else if k \<in> fst ` set es then replace_key k v es
      else if is_index_key k then insert_index k v es
      else es @ [(k, v)])"

text \<open>
  A property of an object literal or of a spread into one is defined, not assigned: \<open>__proto__\<close> is a
  key as any other. Spreading anything but an object, an array or a string adds nothing.
\<close>

fun own_put :: "(string \<times> js) list \<Rightarrow> string \<times> js \<Rightarrow> (string \<times> js) list" where
  "own_put es (k, v) = (if k \<in> fst ` set es then replace_key k v es
     else if is_index_key k then insert_index k v es else es @ [(k, v)])"

fun spread :: "js \<Rightarrow> (string \<times> js) list" where
  "spread (Obj es) = es"
| "spread (Arr vs) = zip (map show_nat [0..<length vs]) vs"
| "spread (Str s) = zip (map show_nat [0..<length s]) (map (\<lambda>c. Str [c]) s)"
| "spread _ = []"

definition obj_get :: "(string \<times> js) list \<Rightarrow> string \<Rightarrow> js option" where
  "obj_get es k = map_of es k"

lemma map_of_insert_index:
  "k \<notin> fst ` set es \<Longrightarrow> map_of (insert_index k v es) = (map_of es)(k \<mapsto> v)"
  by (induction es) (auto simp: fun_eq_iff)

lemma map_of_replace_key:
  "k \<in> fst ` set es \<Longrightarrow> map_of (replace_key k v es) = (map_of es)(k \<mapsto> v)"
proof (induction es)
  case (Cons e es)
  obtain k' v' where e: "e = (k', v')" by (cases e)
  show ?case
  proof (cases "k' = k")
    case False
    with Cons.prems e have "k \<in> fst ` set es" by auto
    with Cons.IH e False show ?thesis by (auto simp: fun_eq_iff)
  qed (simp add: e fun_eq_iff)
qed simp

lemma map_of_obj_put:
  "k \<noteq> ''__proto__'' \<Longrightarrow> map_of (obj_put k v es) = (map_of es)(k \<mapsto> v)"
  using map_of_eq_None_iff [of es k]
  by (auto simp: obj_put_def map_of_insert_index map_of_replace_key map_add_def fun_eq_iff
        split: option.splits)

lemma set_insert_index: "set (insert_index k v es) = insert (k, v) (set es)"
proof (induction es)
  case (Cons e es)
  then show ?case by (cases e) auto
qed simp

lemma set_replace_key: "set (replace_key k v es) \<subseteq> insert (k, v) (set es)"
proof (induction es)
  case (Cons e es)
  then show ?case by (cases e) auto
qed simp

lemma set_obj_put: "set (obj_put k v es) \<subseteq> insert (k, v) (set es)"
  using set_replace_key [of k v es] by (auto simp: obj_put_def set_insert_index)

subsection \<open>Structural equality (claims/value-equality.ts)\<close>

text \<open>
  \<open>sameValue\<close>: equal primitives are \<open>Object.is\<close>-equal (so NaN equals NaN; the model has one
  zero), arrays are compared elementwise, plain objects key by key on the left object's own
  keys after the key counts agree. Every object of the model is a plain one, which is what
  \<open>isPlainObject\<close> tests.
\<close>

function (sequential) sameValue :: "js \<Rightarrow> js \<Rightarrow> bool" where
  "sameValue (Arr xs) (Arr ys) =
     (length xs = length ys \<and> list_all (\<lambda>(x, y). sameValue x y) (zip xs ys))"
| "sameValue (Obj es) (Obj fs) =
     (length es = length fs \<and>
      list_all (\<lambda>(k, v). case map_of fs k of None \<Rightarrow> False | Some w \<Rightarrow> sameValue v w) es)"
| "sameValue a b = (a = b)"
  by pat_completeness auto
termination
proof (relation "measure (\<lambda>(a, b). size a)", goal_cases)
  case (2 xs ys xy x y)
  then have "x \<in> set xs" by (auto dest: set_zip_leftD)
  then show ?case by (simp add: size_elem)
next
  case (3 es fs e k v w)
  then have "(k, v) \<in> set es" by simp
  then show ?case
    using size_entry [of k v es] by (simp add: case_prod_unfold)
qed simp

subsection \<open>JSON.stringify\<close>

text \<open>
  String literals: the two mandatory escapes, the five short ones, \<open>\u00xx\<close> with lower-case
  hexadecimal digits for the other control characters; everything else is literal.
\<close>

definition hex_digit :: "nat \<Rightarrow> char" where
  "hex_digit n = (if n < 10 then char_of (48 + n) else char_of (87 + n))"

definition short_escape :: "char \<Rightarrow> char option" where
  "short_escape c =
     (if c = CHR 0x22 then Some (CHR 0x22)
      else if c = CHR 0x5C then Some (CHR 0x5C)
      else if c = CHR 0x08 then Some (CHR ''b'')
      else if c = CHR 0x09 then Some (CHR ''t'')
      else if c = CHR 0x0A then Some (CHR ''n'')
      else if c = CHR 0x0C then Some (CHR ''f'')
      else if c = CHR 0x0D then Some (CHR ''r'')
      else None)"

definition escape_char :: "char \<Rightarrow> string" where
  "escape_char c =
     (case short_escape c of
        Some e \<Rightarrow> [CHR 0x5C, e]
      | None \<Rightarrow>
          (if (of_char c :: nat) < 32
           then [CHR 0x5C, CHR ''u'', CHR ''0'', CHR ''0'',
                 hex_digit (of_char c div 16), hex_digit (of_char c mod 16)]
           else [c]))"

definition quote :: "string \<Rightarrow> string" where
  "quote s = CHR 0x22 # concat (map escape_char s) @ [CHR 0x22]"

text \<open>Items between an opening and a closing character, separated by commas.\<close>

fun commas :: "string list \<Rightarrow> string" where
  "commas [] = []"
| "commas (x # xs) = x @ concat (map (\<lambda>y. CHR '','' # y) xs)"

definition bracket :: "char \<Rightarrow> char \<Rightarrow> string list \<Rightarrow> string" where
  "bracket a z xs = a # commas xs @ [z]"

text \<open>
  The text of a value: object properties with value \<open>undefined\<close> are skipped, \<open>undefined\<close> in
  an array and the non-finite numbers are \<open>null\<close>. A BigInt has no text: it throws.
\<close>

fun stringify :: "js \<Rightarrow> string" where
  "stringify Undef = ''null''"
| "stringify Null = ''null''"
| "stringify (Bool b) = (if b then ''true'' else ''false'')"
| "stringify (Num (JInt i)) = show_int i"
| "stringify (Num _) = ''null''"
| "stringify (BigInt i) = show_int i"
| "stringify (Str s) = quote s"
| "stringify (Arr xs) = bracket (CHR ''['') (CHR '']'') (map stringify xs)"
| "stringify (Obj es) = bracket (CHR ''{'') (CHR ''}'')
     (map snd (filter fst (map (\<lambda>(k, v). (v \<noteq> Undef, quote k @ CHR '':'' # stringify v)) es)))"

fun has_bigint :: "js \<Rightarrow> bool" where
  "has_bigint (BigInt i) = True"
| "has_bigint (Arr xs) = list_ex has_bigint xs"
| "has_bigint (Obj es) = list_ex (\<lambda>(k, v). has_bigint v) es"
| "has_bigint _ = False"

definition bigint_error :: thrown where
  "bigint_error = ErrorObj ''TypeError'' ''Do not know how to serialize a BigInt''"

definition JSON_stringify :: "js \<Rightarrow> string result" where
  "JSON_stringify v = (if has_bigint v then Inl bigint_error else Inr (stringify v))"

subsection \<open>The rendering is injective on JSON values\<close>

fun plain :: "js \<Rightarrow> bool" where
  "plain Null = True"
| "plain (Bool b) = True"
| "plain (Num (JInt i)) = True"
| "plain (Str s) = True"
| "plain (Arr xs) = list_all plain xs"
| "plain (Obj es) = list_all (\<lambda>(k, v). plain v) es"
| "plain _ = False"

lemma plain_no_bigint: "plain v \<Longrightarrow> \<not> has_bigint v"
  by (induction v rule: plain.induct) (auto simp: list_all_iff list_ex_iff)

text \<open>What may follow a value inside a larger text.\<close>

definition delim :: "string \<Rightarrow> bool" where
  "delim r \<longleftrightarrow> r = [] \<or> hd r \<in> {CHR '','', CHR '']'', CHR ''}''}"

lemma delim_simps [simp]:
  "delim []" "delim (c # r) \<longleftrightarrow> c \<in> {CHR '','', CHR '']'', CHR ''}''}"
  by (auto simp: delim_def)

lemma hex_digit_inject: "n < 16 \<Longrightarrow> m < 16 \<Longrightarrow> hex_digit n = hex_digit m \<Longrightarrow> n = m"
proof -
  assume n: "n < 16" and m: "m < 16" and eq: "hex_digit n = hex_digit m"
  have val: "(of_char (hex_digit k) :: nat) = (if k < 10 then 48 + k else 87 + k)" if "k < 16" for k
    using that by (auto simp: hex_digit_def take_bit_nat_def)
  have "(if n < 10 then 48 + n else 87 + n) = (if m < 10 then 48 + m else 87 + m)"
    using val [OF n] val [OF m] eq by metis
  then show "n = m" by (simp split: if_splits)
qed

lemma short_escape_inject: "short_escape c = Some e \<Longrightarrow> short_escape d = Some e \<Longrightarrow> c = d"
  by (auto simp: short_escape_def split: if_split_asm)

lemma short_escape_not_u: "short_escape c \<noteq> Some (CHR ''u'')"
  by (simp add: short_escape_def)

lemma short_escape_None: "short_escape c = None \<Longrightarrow> c \<noteq> CHR 0x5C \<and> c \<noteq> CHR 0x22"
  by (simp add: short_escape_def split: if_split_asm)

lemma hex_pair_inject:
  assumes "(of_char c :: nat) < 32" "(of_char d :: nat) < 32"
    "hex_digit (of_char c div 16) = hex_digit (of_char d div 16)"
    "hex_digit (of_char c mod 16) = hex_digit (of_char d mod 16)"
  shows "c = d"
proof -
  have "(of_char c :: nat) div 16 = of_char d div 16"
    using assms by (intro hex_digit_inject) auto
  moreover have "(of_char c :: nat) mod 16 = of_char d mod 16"
    using assms by (intro hex_digit_inject) auto
  ultimately have "(of_char c :: nat) = of_char d"
    by (metis div_mult_mod_eq)
  then show ?thesis by simp
qed

lemma escape_char_inject: "escape_char c @ r = escape_char d @ s \<Longrightarrow> c = d \<and> r = s"
  using short_escape_inject [of c _ d] short_escape_not_u short_escape_None [of c]
    short_escape_None [of d] hex_pair_inject [of c d]
  by (auto simp: escape_char_def split: option.splits if_split_asm)

lemma escape_char_first: "\<exists>x xs. escape_char c = x # xs \<and> x \<noteq> CHR 0x22"
  using short_escape_None [of c] by (auto simp: escape_char_def split: option.splits)

lemma escaped_inject:
  "concat (map escape_char s) @ CHR 0x22 # r = concat (map escape_char t) @ CHR 0x22 # q
   \<Longrightarrow> s = t \<and> r = q"
proof (induction s arbitrary: t)
  case Nil
  then show ?case
    using escape_char_first [of "hd t"] by (cases t) auto
next
  case (Cons c s)
  then obtain d t' where t: "t = d # t'"
    using escape_char_first [of c] by (cases t) auto
  from Cons.prems t have "c = d \<and> concat (map escape_char s) @ CHR 0x22 # r
      = concat (map escape_char t') @ CHR 0x22 # q"
    by (intro escape_char_inject) simp
  with Cons.IH [of t'] t show ?case by simp
qed

lemma quote_inject: "quote s @ r = quote t @ q \<Longrightarrow> s = t \<and> r = q"
  using escaped_inject [of s r t q] by (simp add: quote_def)

lemma delim_tail:
  "z \<in> {CHR '']'', CHR ''}''} \<Longrightarrow> delim (concat (map (\<lambda>y. CHR '','' # y) xs) @ z # r)"
  by (cases xs) auto

lemma commas_inject:
  assumes dec: "\<And>x y r q. x \<in> set xs \<Longrightarrow> y \<in> set ys \<Longrightarrow> delim r \<Longrightarrow> delim q \<Longrightarrow>
      f x @ r = f y @ q \<Longrightarrow> x = y \<and> r = q"
    and ne: "\<And>x. x \<in> set xs \<union> set ys \<Longrightarrow> \<exists>c cs. f x = c # cs \<and> c \<noteq> z"
    and z: "z \<in> {CHR '']'', CHR ''}''}"
    and eq: "commas (map f xs) @ z # r = commas (map f ys) @ z # q"
  shows "xs = ys \<and> r = q"
proof -
  let ?tl = "\<lambda>xs. concat (map (\<lambda>y. CHR '','' # y) (map f xs))"
  have tail: "xs' = ys' \<and> r = q" if "set xs' \<subseteq> set xs" "set ys' \<subseteq> set ys"
    "?tl xs' @ z # r = ?tl ys' @ z # q" for xs' ys'
    using that
  proof (induction xs' arbitrary: ys')
    case Nil
    then show ?case using z by (cases ys') auto
  next
    case (Cons x xs')
    then obtain y ys'' where ys: "ys' = y # ys''" using z by (cases ys') auto
    have "x = y \<and> ?tl xs' @ z # r = ?tl ys'' @ z # q"
      using Cons.prems ys by (intro dec delim_tail z) simp_all
    with Cons.IH [of ys''] Cons.prems ys show ?case by simp
  qed
  show ?thesis
  proof (cases xs)
    case Nil
    show ?thesis
    proof (cases ys)
      case (Cons y ys')
      with ne [of y] obtain c cs where "f y = c # cs" "c \<noteq> z" by auto
      with eq Nil Cons show ?thesis by simp
    qed (use eq Nil in simp)
  next
    case xs: (Cons x xs')
    then obtain y ys' where ys: "ys = y # ys'"
      using eq ne [of x] by (cases ys) auto
    have "x = y \<and> ?tl xs' @ z # r = ?tl ys' @ z # q"
      using eq xs ys by (intro dec delim_tail z) simp_all
    with tail [of xs' ys'] xs ys show ?thesis by auto
  qed
qed

lemma bracket_inject:
  assumes "\<And>x y r q. x \<in> set xs \<Longrightarrow> y \<in> set ys \<Longrightarrow> delim r \<Longrightarrow> delim q \<Longrightarrow>
      f x @ r = f y @ q \<Longrightarrow> x = y \<and> r = q"
    and "\<And>x. x \<in> set xs \<union> set ys \<Longrightarrow> \<exists>c cs. f x = c # cs \<and> c \<noteq> z"
    and "z \<in> {CHR '']'', CHR ''}''}"
    and "bracket a z (map f xs) @ r = bracket a z (map f ys) @ q"
  shows "xs = ys \<and> r = q"
proof (rule commas_inject [OF assms(1-3)])
  show "commas (map f xs) @ z # r = commas (map f ys) @ z # q"
    using assms(4) by (simp add: bracket_def)
qed

text \<open>First characters tell the kinds of values apart.\<close>

lemma show_int_first: "\<exists>c cs. show_int i = c # cs \<and> (is_digit c \<or> c = CHR ''-'')"
  using show_nat_digits [of "hd (show_nat (nat i))" "nat i"]
  by (cases "show_nat (nat i)") (auto simp: show_int_def)

lemma show_int_chars: "c \<in> set (show_int i) \<Longrightarrow> is_digit c \<or> c = CHR ''-''"
  using show_nat_digits by (auto simp: show_int_def split: if_splits)

lemma delim_not_digit: "delim r \<Longrightarrow> r = [] \<or> \<not> (is_digit (hd r) \<or> hd r = CHR ''-'')"
  by (auto simp: delim_def is_digit_def)

lemma show_int_delim_inject:
  assumes "show_int i @ r = show_int j @ q" "delim r" "delim q"
  shows "i = j \<and> r = q"
proof -
  let ?P = "\<lambda>c. is_digit c \<or> c = CHR ''-''"
  have "takeWhile ?P (show_int k @ s) = show_int k" if "delim s" for k s
    using show_int_chars [of _ k] delim_not_digit [OF that]
    by (cases s) (auto simp: takeWhile_append2)
  with assms show ?thesis by (metis same_append_eq show_int_inject)
qed

lemma stringify_first:
  "plain v \<Longrightarrow> \<exists>c cs. stringify v = c # cs \<and> c \<notin> {CHR '']'', CHR ''}''} \<and>
     (case v of Null \<Rightarrow> c = CHR ''n'' | Bool b \<Rightarrow> c = (if b then CHR ''t'' else CHR ''f'')
        | Num n \<Rightarrow> is_digit c \<or> c = CHR ''-'' | Str s \<Rightarrow> c = CHR 0x22
        | Arr xs \<Rightarrow> c = CHR ''['' | Obj es \<Rightarrow> c = CHR ''{'' | _ \<Rightarrow> False)"
  using show_int_first
  by (cases v rule: plain.cases) (auto simp: quote_def bracket_def is_digit_def, fastforce+)

definition stringify_entry :: "string \<times> js \<Rightarrow> string" where
  "stringify_entry e = quote (fst e) @ CHR '':'' # stringify (snd e)"

lemma stringify_plain_obj:
  "plain (Obj es) \<Longrightarrow> stringify (Obj es) = bracket (CHR ''{'') (CHR ''}'') (map stringify_entry es)"
proof -
  assume "plain (Obj es)"
  then have "filter fst (map (\<lambda>(k, v). (v \<noteq> Undef, quote k @ CHR '':'' # stringify v)) es)
      = map (\<lambda>(k, v). (v \<noteq> Undef, quote k @ CHR '':'' # stringify v)) es"
    by (fastforce simp: filter_id_conv list_all_iff)
  then have "map snd (filter fst (map (\<lambda>(k, v). (v \<noteq> Undef, quote k @ CHR '':'' # stringify v)) es))
      = map stringify_entry es"
    by (simp add: stringify_entry_def case_prod_unfold comp_def)
  then show ?thesis by (simp only: stringify.simps)
qed

lemma stringify_entry_inject:
  assumes "\<And>r q. delim r \<Longrightarrow> delim q \<Longrightarrow> stringify (snd x) @ r = stringify (snd y) @ q \<Longrightarrow>
      snd x = snd y \<and> r = q"
    and "stringify_entry x @ r = stringify_entry y @ q" "delim r" "delim q"
  shows "x = y \<and> r = q"
proof -
  have "fst x = fst y \<and> CHR '':'' # stringify (snd x) @ r = CHR '':'' # stringify (snd y) @ q"
    using assms(2) by (intro quote_inject) (simp add: stringify_entry_def)
  with assms show ?thesis by (auto simp: prod_eq_iff)
qed

lemma stringify_inject:
  "plain v \<Longrightarrow> plain w \<Longrightarrow> delim r \<Longrightarrow> delim q \<Longrightarrow>
     stringify v @ r = stringify w @ q \<Longrightarrow> v = w \<and> r = q"
proof (induction v arbitrary: w r q)
  case (Num n)
  then obtain i where n: "n = JInt i" by (cases n) auto
  with Num stringify_first [of w] show_int_first [of i] show ?case
    by (cases w rule: plain.cases) (auto simp: is_digit_def dest: show_int_delim_inject split: if_splits)
next
  case (Str s)
  with stringify_first [of w] show ?case
    by (cases w rule: plain.cases) (auto simp: quote_def is_digit_def dest: escaped_inject split: if_splits)
next
  case (Arr xs)
  then obtain ys where w: "w = Arr ys"
    using stringify_first [of w]
    by (cases w rule: plain.cases) (auto simp: bracket_def is_digit_def split: if_splits)
  have "xs = ys \<and> r = q"
  proof (rule bracket_inject [where f = stringify and z = "CHR '']''"])
    show "x = y \<and> r' = q'" if "x \<in> set xs" "y \<in> set ys" "delim r'" "delim q'"
      "stringify x @ r' = stringify y @ q'" for x y r' q'
      using Arr.IH [of x y r' q'] that Arr.prems(1,2) w by (auto simp: list_all_iff)
    show "\<exists>c cs. stringify x = c # cs \<and> c \<noteq> CHR '']''" if "x \<in> set xs \<union> set ys" for x
      using stringify_first [of x] that Arr.prems(1,2) w by (fastforce simp: list_all_iff)
  qed (use Arr.prems w in simp_all)
  with w show ?case by simp
next
  case (Obj es)
  then obtain fs where w: "w = Obj fs"
    using stringify_first [of w]
    by (cases w rule: plain.cases) (auto simp: bracket_def is_digit_def split: if_splits)
  have "es = fs \<and> r = q"
  proof (rule bracket_inject [where f = stringify_entry and z = "CHR ''}''"])
    show "x = y \<and> r' = q'" if xy: "x \<in> set es" "y \<in> set fs" "delim r'" "delim q'"
      "stringify_entry x @ r' = stringify_entry y @ q'" for x y r' q'
    proof (rule stringify_entry_inject [OF _ xy(5,3,4)])
      have "plain (snd x)" "plain (snd y)"
        using xy(1,2) Obj.prems(1,2) w by (auto simp: list_all_iff)
      then show "snd x = snd y \<and> a = b" if "delim a" "delim b"
        "stringify (snd x) @ a = stringify (snd y) @ b" for a b
        using Obj.IH [OF xy(1), of "snd x" "snd y" a b] that by (cases x) auto
    qed
    show "\<exists>c cs. stringify_entry x = c # cs \<and> c \<noteq> CHR ''}''" for x
      by (simp add: stringify_entry_def quote_def)
  qed (use Obj.prems w in \<open>simp_all only: stringify_plain_obj\<close>, simp_all)
  with w show ?case by simp
next
  case Null
  then show ?case using stringify_first [of w]
    by (cases w rule: plain.cases) (auto simp: is_digit_def split: if_splits)
next
  case (Bool b)
  then show ?case using stringify_first [of w]
    by (cases w rule: plain.cases) (auto simp: is_digit_def split: if_splits)
qed auto

corollary stringify_plain_inject:
  "plain v \<Longrightarrow> plain w \<Longrightarrow> stringify v = stringify w \<Longrightarrow> v = w"
  using stringify_inject [of v w "[]" "[]"] by simp

end
