(* ===== verification/Canonical.thy ===== *)
theory Canonical
  imports JsValue "HOL-Library.Multiset"
begin

text \<open>
  Canonical JSON and content addressing (packages/canonical/src/index.ts). SHA-256 comes from a
  third-party package and is a parameter \<open>sha\<close>: it maps the text to the hexadecimal digest
  (UTF-8 encoding, digest and hexadecimal rendering together).

  \<open>nfc\<close> is \<open>String.prototype.normalize("NFC")\<close>, the identity on the Latin-1 code units of the
  model: no composition or decomposition exists inside that range.
\<close>

definition nfc :: "string \<Rightarrow> string" where
  "nfc s = s"

definition non_finite_error :: "string \<Rightarrow> thrown" where
  "non_finite_error n = ErrorObj ''RangeError''
     (''canonical-JSON: non-finite number ('' @ n
      @ '') has no canonical representation (RFC 8785 '' @ [CHR 0xA7] @ ''3.2.2.3)'')"

definition by_key :: "(string \<times> 'a) list \<Rightarrow> (string \<times> 'a) list" where
  "by_key es = sort_key fst es"

text \<open>
  The recursion computes the canonical value of every property before the properties are
  filtered, sorted and assigned; which throw surfaces is decided in sorted order, as in the code.
\<close>

fun canonicalize :: "js \<Rightarrow> js result" where
  "canonicalize Undef = Inr Null"
| "canonicalize Null = Inr Null"
| "canonicalize (Str s) = Inr (Str (nfc s))"
| "canonicalize (Num (JInt i)) = Inr (Num (JInt i))"
| "canonicalize (Num JNaN) = Inl (non_finite_error ''NaN'')"
| "canonicalize (Num JInf) = Inl (non_finite_error ''Infinity'')"
| "canonicalize (Num JNegInf) = Inl (non_finite_error ''-Infinity'')"
| "canonicalize (Bool b) = Inr (Bool b)"
| "canonicalize (BigInt i) = Inr (BigInt i)"
| "canonicalize (Arr xs) = mapR Arr (seqR (map canonicalize xs))"
| "canonicalize (Obj es) =
     mapR (\<lambda>ps. Obj (foldl (\<lambda>out (k, v). obj_put k v out) [] ps))
       (seqR (map (\<lambda>(k, r). mapR (Pair k) r)
          (by_key (map snd (filter fst (map (\<lambda>(k, v). (v \<noteq> Undef, k, canonicalize v)) es))))))"

definition canonicalJson :: "js \<Rightarrow> string result" where
  "canonicalJson v = bindR (canonicalize v) JSON_stringify"

definition sha256Canonical :: "(string \<Rightarrow> string) \<Rightarrow> js \<Rightarrow> string result" where
  "sha256Canonical sha v = mapR sha (canonicalJson v)"

definition canonicalSnapshot :: "js \<Rightarrow> string result" where
  "canonicalSnapshot s = canonicalJson s"

definition sha256SnapshotCanonical :: "(string \<Rightarrow> string) \<Rightarrow> js \<Rightarrow> string result" where
  "sha256SnapshotCanonical sha s = sha256Canonical sha s"

subsection \<open>Properties of the canonical form\<close>

lemma canonicalize_Obj:
  "canonicalize (Obj es) =
     mapR (\<lambda>ps. Obj (foldl (\<lambda>out (k, v). obj_put k v out) [] ps))
       (seqR (map (\<lambda>(k, r). mapR (Pair k) r)
          (by_key (map (\<lambda>(k, v). (k, canonicalize v)) (filter (\<lambda>(k, v). v \<noteq> Undef) es)))))"
proof -
  have "map snd (filter fst (map (\<lambda>(k, v). (v \<noteq> Undef, k, canonicalize v)) es))
      = map (\<lambda>(k, v). (k, canonicalize v)) (filter (\<lambda>(k, v). v \<noteq> Undef) es)"
    by (induction es) auto
  then show ?thesis by simp
qed

declare canonicalize.simps(11) [simp del]

lemma distinct_entries:
  "distinct (map fst es) \<Longrightarrow>
     distinct (map fst (map (\<lambda>(k, v). (k, canonicalize v)) (filter (\<lambda>(k, v). v \<noteq> Undef) es)))"
  by (induction es) force+

lemma distinct_by_key: "distinct (map fst es) \<Longrightarrow> distinct (map fst (by_key es))"
  by (simp only: by_key_def distinct_map distinct_sort set_sort)

text \<open>The key order of an object does not matter: keys of a JavaScript object are distinct.\<close>

lemma by_key_unique:
  "mset ps = mset qs \<Longrightarrow> distinct (map fst ps) \<Longrightarrow> by_key ps = by_key qs"
  by (simp add: by_key_def distinct_map sort_key_eq_sort_key)

lemma canonicalize_key_order:
  assumes "mset es = mset fs" "distinct (map fst es)"
  shows "canonicalize (Obj es) = canonicalize (Obj fs)"
proof -
  let ?c = "\<lambda>es. map (\<lambda>(k, v). (k, canonicalize v)) (filter (\<lambda>(k, v). v \<noteq> Undef) es)"
  have "mset (?c es) = mset (?c fs)"
    using assms(1) by (simp add: mset_filter)
  moreover have "distinct (map fst (?c es))"
    by (rule distinct_entries [OF assms(2)])
  ultimately have "by_key (?c es) = by_key (?c fs)" by (rule by_key_unique)
  then show ?thesis by (simp only: canonicalize_Obj)
qed

lemma canonicalize_Obj_Inr:
  assumes "canonicalize (Obj es) = Inr c"
  obtains ps where "by_key (map (\<lambda>(k, v). (k, canonicalize v)) (filter (\<lambda>(k, v). v \<noteq> Undef) es))
      = map (\<lambda>(k, x). (k, Inr x)) ps"
    and "c = Obj (foldl (\<lambda>out (k, v). obj_put k v out) [] ps)"
proof -
  let ?L = "by_key (map (\<lambda>(k, v). (k, canonicalize v)) (filter (\<lambda>(k, v). v \<noteq> Undef) es))"
  from assms obtain ps where ps: "map (\<lambda>(k, r). mapR (Pair k) r) ?L = map Inr ps"
    and c: "c = Obj (foldl (\<lambda>out (k, v). obj_put k v out) [] ps)"
    by (auto simp: canonicalize_Obj mapR_Inr seqR_Inr)
  have "L = map (\<lambda>(k, x). (k, Inr x)) ps"
    if "map (\<lambda>(k, r). mapR (Pair k) r) L = map Inr ps" for L :: "(string \<times> js result) list"
    using that
  proof (induction L arbitrary: ps)
    case (Cons l L)
    then show ?case by (cases l) (auto simp: mapR_Inr)
  qed simp
  with ps c that show thesis by blast
qed

lemma map_of_foldl_put:
  "map_of (foldl (\<lambda>out (k, v). obj_put k v out) out ps) k =
     (if k = ''__proto__'' then map_of out k
      else case map_of (rev ps) k of None \<Rightarrow> map_of out k | Some v \<Rightarrow> Some v)"
proof (induction ps arbitrary: out)
  case (Cons p ps)
  obtain k' v where p: "p = (k', v)" by (cases p)
  show ?case
  proof (cases "k' = ''__proto__''")
    case True
    with Cons p show ?thesis
      by (auto simp: obj_put_def map_add_def split: option.splits)
  next
    case False
    with Cons p show ?thesis
      by (auto simp: map_of_obj_put map_add_def split: option.splits)
  qed
qed simp

lemma set_foldl_put:
  "set (foldl (\<lambda>out (k, v). obj_put k v out) out ps) \<subseteq> set out \<union> set ps"
proof (induction ps arbitrary: out)
  case (Cons p ps)
  obtain k v where p: "p = (k, v)" by (cases p)
  have "set (foldl (\<lambda>out (k, v). obj_put k v out) (obj_put k v out) ps)
      \<subseteq> set (obj_put k v out) \<union> set ps" by (rule Cons.IH)
  also have "\<dots> \<subseteq> set out \<union> set (p # ps)" using set_obj_put [of k v out] p by auto
  finally show ?case by (simp add: p)
qed simp

text \<open>
  What the canonical object holds under a key: the canonical form of the value, when there is one
  and it is not \<open>undefined\<close>; never anything under \<open>__proto__\<close>.
\<close>

lemma canonicalize_lookup:
  assumes c: "canonicalize (Obj es) = Inr (Obj cs)" and d: "distinct (map fst es)"
  shows "map_of cs k = Some x \<longleftrightarrow> k \<noteq> ''__proto__'' \<and>
    (\<exists>v. map_of es k = Some v \<and> v \<noteq> Undef \<and> canonicalize v = Inr x)"
proof -
  let ?L = "map (\<lambda>(k, v). (k, canonicalize v)) (filter (\<lambda>(k, v). v \<noteq> Undef) es)"
  from c obtain ps where ps: "by_key ?L = map (\<lambda>(k, x). (k, Inr x)) ps"
    and cs: "cs = foldl (\<lambda>out (k, v). obj_put k v out) [] ps"
    by (auto elim: canonicalize_Obj_Inr)
  have fst_ps: "map fst (map (\<lambda>(k, x). (k, Inr x :: js result)) qs) = map fst qs" for qs
    by (induction qs) auto
  have "distinct (map fst (by_key ?L))" by (intro distinct_by_key distinct_entries d)
  then have dps: "distinct (map fst ps)" by (metis ps fst_ps)
  then have rev: "map_of (rev ps) = map_of ps"
    by (metis distinct_rev map_of_inject_set rev_map set_rev)
  have "map_of cs k = Some x \<longleftrightarrow> k \<noteq> ''__proto__'' \<and> (k, x) \<in> set ps"
    by (auto simp: cs map_of_foldl_put rev map_of_eq_Some_iff [OF dps, symmetric] split: option.splits)
  also have "(k, x) \<in> set ps \<longleftrightarrow> (k, Inr x) \<in> set (by_key ?L)" by (auto simp: ps)
  also have "\<dots> \<longleftrightarrow> (\<exists>v. (k, v) \<in> set es \<and> v \<noteq> Undef \<and> canonicalize v = Inr x)"
    by (force simp: by_key_def)
  finally show ?thesis using d by (auto simp: map_of_eq_Some_iff)
qed

lemma canonicalize_entry_Inr:
  assumes c: "canonicalize (Obj es) = Inr c" and v: "(k, v) \<in> set es" "v \<noteq> Undef"
  shows "\<exists>x. canonicalize v = Inr x"
proof -
  let ?L = "map (\<lambda>(k, v). (k, canonicalize v)) (filter (\<lambda>(k, v). v \<noteq> Undef) es)"
  from c obtain ps where ps: "by_key ?L = map (\<lambda>(k, x). (k, Inr x)) ps"
    by (rule canonicalize_Obj_Inr)
  have "(k, canonicalize v) \<in> set (by_key ?L)" using v by (force simp: by_key_def)
  then show ?thesis by (auto simp: ps)
qed

text \<open>What an object's canonical form says about the property \<open>k\<close>, and that it determines it.\<close>

definition own_canon :: "(string \<times> js) list \<Rightarrow> string \<Rightarrow> js result option" where
  "own_canon es k = (case map_of es k of None \<Rightarrow> None
     | Some v \<Rightarrow> if v = Undef then None else Some (canonicalize v))"

lemma canonicalize_Obj_determines:
  assumes "canonicalize (Obj es) = Inr c" "canonicalize (Obj fs) = Inr c"
    "distinct (map fst es)" "distinct (map fst fs)" "k \<noteq> ''__proto__''"
  shows "own_canon es k = own_canon fs k"
proof -
  from assms(1) obtain cs where c: "c = Obj cs" by (auto elim: canonicalize_Obj_Inr)
  have det: "own_canon gs k = map_option Inr (map_of cs k)"
    if gs: "canonicalize (Obj gs) = Inr c" and dgs: "distinct (map fst gs)" for gs
  proof -
    have look: "map_of cs k = Some x \<longleftrightarrow> (\<exists>v. map_of gs k = Some v \<and> v \<noteq> Undef \<and> canonicalize v = Inr x)" for x
      using canonicalize_lookup [of gs cs k x] gs dgs c assms(5) by simp
    show ?thesis
    proof (cases "own_canon gs k")
      case None
      then have "map_of cs k \<noteq> Some x" for x
        unfolding look by (auto simp: own_canon_def split: option.splits if_splits)
      then have "map_of cs k = None" by (simp add: not_Some_eq [symmetric])
      with None show ?thesis by simp
    next
      case (Some r)
      then obtain v where v: "map_of gs k = Some v" "v \<noteq> Undef" "r = canonicalize v"
        by (auto simp: own_canon_def split: option.splits if_splits)
      obtain x where x: "canonicalize v = Inr x"
        using canonicalize_entry_Inr [OF gs map_of_SomeD [OF v(1)] v(2)] by blast
      with v have "map_of cs k = Some x" unfolding look by blast
      with Some v x show ?thesis by simp
    qed
  qed
  show ?thesis using det [OF assms(1,3)] det [OF assms(2,4)] by simp
qed

lemma canonicalize_Obj_form: "canonicalize (Obj es) = Inr c \<Longrightarrow> \<exists>cs. c = Obj cs"
  by (auto elim: canonicalize_Obj_Inr)

lemma canonicalize_plain:
  "canonicalize v = Inr c \<Longrightarrow> \<not> has_bigint c \<Longrightarrow> plain c"
proof (induction v arbitrary: c rule: canonicalize.induct)
  case (10 xs)
  then obtain ys where c: "c = Arr ys" and ys: "map canonicalize xs = map Inr ys"
    by (auto simp: mapR_Inr seqR_Inr)
  have "plain y" if "y \<in> set ys" for y
  proof -
    from that have "Inr y \<in> set (map canonicalize xs)" by (simp add: ys)
    then obtain x where "x \<in> set xs" "canonicalize x = Inr y" by auto
    moreover have "\<not> has_bigint y" using 10(3) that by (auto simp: c list_ex_iff)
    ultimately show ?thesis using 10(1) by blast
  qed
  then show ?case by (simp add: c list_all_iff)
next
  case (11 es)
  let ?L = "map (\<lambda>(k, v). (k, canonicalize v)) (filter (\<lambda>(k, v). v \<noteq> Undef) es)"
  from 11(2) obtain ps where ps: "by_key ?L = map (\<lambda>(k, x). (k, Inr x)) ps"
    and c: "c = Obj (foldl (\<lambda>out (k, v). obj_put k v out) [] ps)"
    by (rule canonicalize_Obj_Inr)
  let ?cs = "foldl (\<lambda>out (k, v). obj_put k v out) [] ps"
  have "plain x" if "(k, x) \<in> set ?cs" for k x
  proof -
    from that have "(k, x) \<in> set ps" using set_foldl_put [of "[]" ps] by auto
    then have "(k, Inr x) \<in> set (by_key ?L)" by (force simp: ps)
    then obtain v where "(k, v) \<in> set es" "canonicalize v = Inr x" by (auto simp: by_key_def)
    moreover have "\<not> has_bigint x"
      using 11(3) that by (auto simp: c list_ex_iff)
    ultimately show ?thesis using 11(1) by blast
  qed
  then show ?case by (auto simp: c list_all_iff)
qed auto

subsection \<open>Binding and its limits\<close>

lemma canonicalJson_Inr:
  "canonicalJson v = Inr s \<longleftrightarrow> (\<exists>c. canonicalize v = Inr c \<and> plain c \<and> s = stringify c)"
  using canonicalize_plain plain_no_bigint
  by (auto simp: canonicalJson_def bindR_Inr JSON_stringify_def split: if_splits)

text \<open>C26: canonical JSON is a faithful serialisation: two values have the same canonical text
  only if they have the same canonical form, so nothing the canonical form keeps can be changed
  without changing the text.\<close>

theorem canonicalJson_inject:
  assumes "canonicalJson v = Inr s" "canonicalJson w = Inr s"
  shows "canonicalize v = canonicalize w"
  using assms stringify_plain_inject by (fastforce simp: canonicalJson_Inr)

theorem canonicalJson_inject_witness:
  "canonicalize (Obj [(''b'', num 1), (''a'', Undef)]) = canonicalize (Obj [(''b'', num 1)])"
  by (rule canonicalJson_inject [where s = "''{'' @ quote ''b'' @ '':1}''"]) code_simp+

text \<open>
  Two values whose canonical texts differ but have the same digest. Statements that a digest binds
  its input hold up to such a collision, which is what a cryptographic digest makes infeasible.
\<close>

definition collision :: "(string \<Rightarrow> string) \<Rightarrow> js \<Rightarrow> js \<Rightarrow> bool" where
  "collision sha v w \<longleftrightarrow> (case (canonicalJson v, canonicalJson w) of
     (Inr s, Inr t) \<Rightarrow> s \<noteq> t \<and> sha s = sha t | _ \<Rightarrow> False)"

lemma sha256Canonical_inject:
  assumes "\<not> collision sha v w" "sha256Canonical sha v = Inr h" "sha256Canonical sha w = Inr h"
  shows "canonicalize v = canonicalize w"
proof -
  obtain s t where "canonicalJson v = Inr s" "canonicalJson w = Inr t" "s = t"
    using assms by (auto simp: sha256Canonical_def mapR_Inr collision_def)
  then show ?thesis using stringify_plain_inject by (fastforce simp: canonicalJson_Inr)
qed

lemma sha256Canonical_form:
  "sha256Canonical sha v = Inr h \<Longrightarrow> \<exists>c. canonicalize v = Inr c"
  by (auto simp: sha256Canonical_def mapR_Inr canonicalJson_Inr)

definition put_results :: "(string \<times> js) list \<Rightarrow> (string \<times> js result) list \<Rightarrow> js result" where
  "put_results out rs =
     mapR (\<lambda>ps. Obj (foldl (\<lambda>out (k, v). obj_put k v out) out ps))
       (seqR (map (\<lambda>(k, r). mapR (Pair k) r) rs))"

lemma put_results_proto:
  assumes "\<And>r. (''__proto__'', r) \<in> set rs \<Longrightarrow> \<exists>c. r = Inr c"
  shows "put_results out rs = put_results out (filter (\<lambda>(k, r). k \<noteq> ''__proto__'') rs)"
  using assms
proof (induction rs arbitrary: out)
  case (Cons p rs)
  obtain k r where p: "p = (k, r)" by (cases p)
  have cons: "put_results out ((k', r') # qs)
      = bindR r' (\<lambda>x. put_results (obj_put k' x out) qs)" for k' r' qs
    by (cases r') (auto simp: put_results_def split: sum.splits)
  have IH: "put_results out' rs = put_results out' (filter (\<lambda>(k, r). k \<noteq> ''__proto__'') rs)" for out'
    using Cons.IH Cons.prems by simp
  show ?case
  proof (cases "k = ''__proto__''")
    case True
    with Cons.prems p obtain c where "r = Inr c" by auto
    with True p IH show ?thesis by (simp add: cons obj_put_def)
  next
    case False
    with p IH show ?thesis by (simp add: cons)
  qed
qed simp

text \<open>An own property named \<open>__proto__\<close> is not part of the canonical text: an object with such
  a property and the same object without it have the same text, hence the same digest, whatever
  value the property has.\<close>

lemma canonicalJson_proto_dropped:
  assumes "canonicalize v = Inr c" "''__proto__'' \<notin> fst ` set es"
  shows "canonicalJson (Obj (es @ [(''__proto__'', v)])) = canonicalJson (Obj es)"
proof -
  let ?L = "\<lambda>es. map (\<lambda>(k, v). (k, canonicalize v)) (filter (\<lambda>(k, v). v \<noteq> Undef) es)"
  let ?np = "filter (\<lambda>(k, r). k \<noteq> ''__proto__'')"
  have obj: "canonicalize (Obj fs) = put_results [] (by_key (?L fs))" for fs
    by (simp only: canonicalize_Obj put_results_def)
  have np: "?np (?L es) = ?L es"
    using assms(2) by (force simp: filter_id_conv)
  have "put_results [] (by_key (?L (es @ [(''__proto__'', v)])))
      = put_results [] (?np (by_key (?L (es @ [(''__proto__'', v)]))))"
  proof (rule put_results_proto)
    fix r
    assume "(''__proto__'', r) \<in> set (by_key (?L (es @ [(''__proto__'', v)])))"
    then obtain w where "(''__proto__'', w) \<in> set (es @ [(''__proto__'', v)])" "r = canonicalize w"
      by (auto simp: by_key_def split: if_split_asm)
    with assms show "\<exists>c. r = Inr c" by force
  qed
  also have "?np (by_key (?L (es @ [(''__proto__'', v)]))) = by_key (?np (?L (es @ [(''__proto__'', v)])))"
    unfolding by_key_def by (rule filter_sort)
  also have "?np (?L (es @ [(''__proto__'', v)])) = ?L es"
    by (simp add: np)
  finally show ?thesis by (simp add: canonicalJson_def obj)
qed

lemma canonicalJson_proto_dropped_witness:
  "canonicalJson (Obj [(''amount'', num 5), (''__proto__'', Obj [(''admin'', Bool True)])])
     = canonicalJson (Obj [(''amount'', num 5)])"
  using canonicalJson_proto_dropped
    [of "Obj [(''admin'', Bool True)]" "Obj [(''admin'', Bool True)]" "[(''amount'', num 5)]"]
  by (simp add: canonicalize_Obj by_key_def obj_put_def is_index_key_def is_digit_def)

end
