(* ===== verification/Taint.thy ===== *)
theory Taint
  imports JsValue
begin

text \<open>
  Provenance (packages/core/src/taint.ts): the trust lattice, the origin axis, the taint policy's
  gate, session contamination and field-level taint.
\<close>

datatype Taint = SYSTEM | TRUSTED | UNTRUSTED

datatype Origin = Human | Retrieved | ExternalAPI | LLM | System

definition DEFAULT_ORIGIN :: Origin where
  "DEFAULT_ORIGIN = LLM"

definition CONTAMINATING_ORIGINS :: "Origin list" where
  "CONTAMINATING_ORIGINS = [Retrieved, ExternalAPI]"

definition isContaminatingOrigin :: "Origin \<Rightarrow> bool" where
  "isContaminatingOrigin orig = (orig \<in> set CONTAMINATING_ORIGINS)"

fun taintRank :: "Taint \<Rightarrow> nat" where
  "taintRank SYSTEM = 3"
| "taintRank TRUSTED = 2"
| "taintRank UNTRUSTED = 1"

definition mergeTaint :: "Taint \<Rightarrow> Taint \<Rightarrow> Taint" where
  "mergeTaint a b = (if taintRank a \<le> taintRank b then a else b)"

text \<open>The order of trust: more trust is greater. \<open>mergeTaint\<close> is the meet of this order.\<close>

instantiation Taint :: linorder
begin

definition less_eq_Taint :: "Taint \<Rightarrow> Taint \<Rightarrow> bool" where
  "less_eq_Taint a b \<longleftrightarrow> taintRank a \<le> taintRank b"

definition less_Taint :: "Taint \<Rightarrow> Taint \<Rightarrow> bool" where
  "less_Taint a b \<longleftrightarrow> taintRank a < taintRank b"

instance
proof
  fix a b c :: Taint
  show "a < b \<longleftrightarrow> a \<le> b \<and> \<not> b \<le> a" by (auto simp: less_eq_Taint_def less_Taint_def)
  show "a \<le> a" by (simp add: less_eq_Taint_def)
  show "a \<le> b \<Longrightarrow> b \<le> c \<Longrightarrow> a \<le> c" by (simp add: less_eq_Taint_def)
  show "a \<le> b \<Longrightarrow> b \<le> a \<Longrightarrow> a = b" by (cases a; cases b) (simp_all add: less_eq_Taint_def)
  show "a \<le> b \<or> b \<le> a" by (auto simp: less_eq_Taint_def)
qed

end

lemma mergeTaint_min: "mergeTaint a b = min a b"
  by (simp add: mergeTaint_def min_def less_eq_Taint_def)

lemma taint_le_SYSTEM [simp]: "t \<le> SYSTEM"
  by (cases t) (simp_all add: less_eq_Taint_def)

lemma taint_ge_UNTRUSTED [simp]: "UNTRUSTED \<le> t"
  by (cases t) (simp_all add: less_eq_Taint_def)

subsection \<open>The policy's gate\<close>

text \<open>
  Both methods are adopter code and may throw. \<open>requiresUncontaminatedOrigin\<close> is optional.
\<close>

record TaintPolicy =
  minimumFor :: "string \<Rightarrow> Taint result"
  requiresUncontaminatedOrigin :: "(string \<Rightarrow> bool result) option"

definition canPropose :: "Taint \<Rightarrow> string \<Rightarrow> TaintPolicy \<Rightarrow> bool result" where
  "canPropose t kind policy =
     mapR (\<lambda>required. taintRank t \<ge> taintRank required) (minimumFor policy kind)"

definition canProposeWithOrigin :: "Taint \<Rightarrow> string \<Rightarrow> Origin \<Rightarrow> TaintPolicy \<Rightarrow> bool result" where
  "canProposeWithOrigin t kind orig policy =
     bindR (canPropose t kind policy) (\<lambda>ok.
       if \<not> ok then Inr False
       else (case requiresUncontaminatedOrigin policy of
          None \<Rightarrow> Inr True
        | Some req \<Rightarrow> bindR (req kind) (\<lambda>r.
            if r \<and> isContaminatingOrigin orig then Inr False else Inr True)))"

definition meetAll :: "Taint list \<Rightarrow> Taint" where
  "meetAll ts = (case ts of [] \<Rightarrow> SYSTEM | t # ts' \<Rightarrow> foldl mergeTaint t ts')"

subsection \<open>Session contamination\<close>

record SessionContamination =
  sc_taint :: Taint
  sc_origin :: Origin

definition applySessionContamination :: "Taint \<Rightarrow> SessionContamination option \<Rightarrow> Taint" where
  "applySessionContamination declared flag =
     (case flag of None \<Rightarrow> declared | Some f \<Rightarrow> mergeTaint declared (sc_taint f))"

definition contaminateSession ::
  "SessionContamination option \<Rightarrow> Origin \<Rightarrow> Taint \<Rightarrow> SessionContamination option" where
  "contaminateSession prior d_origin d_taint =
     (if \<not> isContaminatingOrigin d_origin then prior
      else (case prior of
         None \<Rightarrow> Some \<lparr>sc_taint = d_taint, sc_origin = d_origin\<rparr>
       | Some p \<Rightarrow> Some \<lparr>sc_taint = mergeTaint (sc_taint p) d_taint, sc_origin = sc_origin p\<rparr>))"

subsection \<open>Field-level taint\<close>

fun taint_of_string :: "string \<Rightarrow> Taint option" where
  "taint_of_string s = (if s = ''SYSTEM'' then Some SYSTEM else if s = ''TRUSTED'' then Some TRUSTED
     else if s = ''UNTRUSTED'' then Some UNTRUSTED else None)"

definition tainted :: "js \<Rightarrow> string \<Rightarrow> js" where
  "tainted v t = Obj [(''value'', v), (''taint'', Str t)]"

text \<open>
  \<open>isTaintedValue\<close>: an object with a \<open>value\<close> and a \<open>taint\<close> property, the latter one of the
  three taints; here it returns that taint. Arrays have no such properties.
\<close>

fun isTaintedValue :: "js \<Rightarrow> Taint option" where
  "isTaintedValue (Obj es) =
     (case (map_of es ''value'', map_of es ''taint'') of
        (Some v, Some (Str t)) \<Rightarrow> taint_of_string t
      | _ \<Rightarrow> None)"
| "isTaintedValue _ = None"

function walk :: "js \<Rightarrow> Taint list" where
  "walk (Obj es) =
     (case isTaintedValue (Obj es) of
        Some t \<Rightarrow> t # (case map_of es ''value'' of Some v \<Rightarrow> walk v | None \<Rightarrow> [])
      | None \<Rightarrow> concat (map (\<lambda>(k, v). walk v) es))"
| "walk (Arr xs) = concat (map walk xs)"
| "walk Undef = []"
| "walk Null = []"
| "walk (Bool b) = []"
| "walk (Num n) = []"
| "walk (BigInt i) = []"
| "walk (Str s) = []"
  by pat_completeness auto
termination
  by (relation "measure size") (auto dest!: map_of_SomeD dest: size_entry simp: size_elem)

definition collectFieldTaints :: "js \<Rightarrow> Taint list" where
  "collectFieldTaints payload = walk payload"

definition canProposeFieldLevel :: "Taint \<Rightarrow> string \<Rightarrow> TaintPolicy \<Rightarrow> js \<Rightarrow> bool result" where
  "canProposeFieldLevel envelopeTaint kind policy payload =
     (let fieldTaints = collectFieldTaints payload in
      if fieldTaints = [] then canPropose envelopeTaint kind policy
      else canPropose (meetAll (envelopeTaint # fieldTaints)) kind policy)"

subsection \<open>Properties\<close>

lemma foldl_mergeTaint: "foldl mergeTaint t ts = Min (set (t # ts))"
proof (induction ts arbitrary: t)
  case (Cons a ts)
  have "foldl mergeTaint t (a # ts) = Min (set (mergeTaint t a # ts))" using Cons.IH by simp
  also have "\<dots> = Min (set (t # a # ts))"
    by (cases "ts = []") (simp_all add: mergeTaint_min min.assoc)
  finally show ?case .
qed simp

lemma meetAll_le: "t \<in> set ts \<Longrightarrow> meetAll ts \<le> t"
  by (cases ts) (auto simp: meetAll_def foldl_mergeTaint intro: Min_le)

lemma meetAll_greatest: "(\<And>t. t \<in> set ts \<Longrightarrow> m \<le> t) \<Longrightarrow> m \<le> meetAll ts"
  by (cases ts) (auto simp: meetAll_def foldl_mergeTaint)

text \<open>A sequence of data entering a session.\<close>

definition ingest :: "SessionContamination option \<Rightarrow> (Origin \<times> Taint) list \<Rightarrow> SessionContamination option" where
  "ingest flag data = foldl (\<lambda>f (d_or, d_t). contaminateSession f d_or d_t) flag data"

lemma contaminateSession_le:
  "applySessionContamination d (contaminateSession f orig t) \<le> applySessionContamination d f"
  by (auto simp: applySessionContamination_def contaminateSession_def mergeTaint_min
      min_le_iff_disj split: option.splits)

lemma ingest_le: "applySessionContamination d (ingest f data) \<le> applySessionContamination d f"
proof (induction data arbitrary: f)
  case (Cons x data)
  obtain d_or d_t where x: "x = (d_or, d_t)" by (cases x)
  have "applySessionContamination d (ingest f (x # data))
      \<le> applySessionContamination d (contaminateSession f d_or d_t)"
    using Cons.IH by (simp add: ingest_def x)
  also have "\<dots> \<le> applySessionContamination d f" by (rule contaminateSession_le)
  finally show ?case .
qed (simp add: ingest_def)

text \<open>The flag, once set, bounds every minted taint by every contaminating datum ingested.\<close>

lemma ingest_bound:
  "(d_or, d_t) \<in> set data \<Longrightarrow> isContaminatingOrigin d_or \<Longrightarrow>
     applySessionContamination d (ingest f data) \<le> d_t"
proof (induction data arbitrary: f)
  case (Cons x data)
  show ?case
  proof (cases "x = (d_or, d_t)")
    case True
    have "applySessionContamination d (ingest (contaminateSession f d_or d_t) data)
        \<le> applySessionContamination d (contaminateSession f d_or d_t)" by (rule ingest_le)
    also have "\<dots> \<le> d_t" using Cons.prems(2)
      by (auto simp: contaminateSession_def applySessionContamination_def mergeTaint_min
          min_le_iff_disj split: option.splits)
    finally show ?thesis by (simp add: ingest_def True)
  next
    case False
    with Cons show ?thesis by (cases x) (auto simp: ingest_def)
  qed
qed simp

text \<open>C30: however data enter a session, and in whatever order, the taint minted for a proposal is the meet of the
  declared taint and the taints of exactly the contaminating data ingested: contamination only adds
  friction, and data of other origins leave the taint untouched.\<close>

theorem session_contamination_meet:
  "applySessionContamination d (ingest None data)
     = Min (insert d (snd ` {x \<in> set data. isContaminatingOrigin (fst x)}))"
proof -
  have gen: "applySessionContamination d (ingest f data)
      = Min (insert (applySessionContamination d f)
          (snd ` {x \<in> set data. isContaminatingOrigin (fst x)}))" for f
  proof (induction data arbitrary: f)
    case (Cons x data)
    obtain d_or d_t where x: "x = (d_or, d_t)" by (cases x)
    let ?S = "snd ` {x \<in> set data. isContaminatingOrigin (fst x)}"
    have "applySessionContamination d (contaminateSession f d_or d_t)
        = (if isContaminatingOrigin d_or then min (applySessionContamination d f) d_t
           else applySessionContamination d f)"
      by (auto simp: applySessionContamination_def contaminateSession_def mergeTaint_min
          min.assoc split: option.splits)
    moreover have "{y \<in> set (x # data). isContaminatingOrigin (fst y)}
        = (if isContaminatingOrigin d_or then insert x {y \<in> set data. isContaminatingOrigin (fst y)}
           else {y \<in> set data. isContaminatingOrigin (fst y)})"
      by (auto simp: x)
    moreover have "Min (insert (min a b) ?S) = Min (insert a (insert b ?S))" for a b :: Taint
      by (rule Min_insert_min) simp
    ultimately show ?case
      using Cons.IH [of "contaminateSession f d_or d_t"] by (simp add: ingest_def x)
  qed (simp add: ingest_def)
  show ?thesis using gen [of None] by (simp add: applySessionContamination_def)
qed

text \<open>
  The taints a value carries, without reference to the walk. An object with a \<open>value\<close> and a \<open>taint\<close> that
  names one of the three taints is a wrapper: it carries its taint and whatever its \<open>value\<close> carries.
  Any other object carries what its properties carry, an array what its elements carry.
\<close>

definition wraps :: "(string \<times> js) list \<Rightarrow> Taint \<Rightarrow> js \<Rightarrow> bool" where
  "wraps es t v \<longleftrightarrow> map_of es ''value'' = Some v
     \<and> (\<exists>s. map_of es ''taint'' = Some (Str s) \<and> taint_of_string s = Some t)"

inductive carries :: "js \<Rightarrow> Taint \<Rightarrow> bool" where
  own: "wraps es t v \<Longrightarrow> carries (Obj es) t"
| wrapped: "wraps es s v \<Longrightarrow> carries v t \<Longrightarrow> carries (Obj es) t"
| property: "(\<And>s w. \<not> wraps es s w) \<Longrightarrow> (k, v) \<in> set es \<Longrightarrow> carries v t \<Longrightarrow> carries (Obj es) t"
| element: "v \<in> set vs \<Longrightarrow> carries v t \<Longrightarrow> carries (Arr vs) t"

lemma isTaintedValue_Obj: "isTaintedValue (Obj es) = Some t \<longleftrightarrow> (\<exists>v. wraps es t v)"
  by (simp add: wraps_def del: taint_of_string.simps split: option.split js.split)

lemma wraps_unique: "wraps es t v \<Longrightarrow> wraps es t' v' \<Longrightarrow> t = t' \<and> v = v'"
  by (auto simp: wraps_def)

lemma carries_walked: "carries v t \<Longrightarrow> t \<in> set (walk v)"
proof (induction rule: carries.induct)
  case (own es t v)
  then have "isTaintedValue (Obj es) = Some t" using isTaintedValue_Obj by blast
  then show ?case by (simp del: isTaintedValue.simps)
next
  case (wrapped es s v t)
  then have "isTaintedValue (Obj es) = Some s" "map_of es ''value'' = Some v"
    using isTaintedValue_Obj by (blast, simp add: wraps_def)
  with wrapped.IH show ?case by (simp del: isTaintedValue.simps)
next
  case (property es k v t)
  then have "isTaintedValue (Obj es) = None" using isTaintedValue_Obj by (meson not_None_eq)
  with property show ?case by (force simp del: isTaintedValue.simps)
qed auto

lemma walked_carries: "t \<in> set (walk v) \<Longrightarrow> carries v t"
proof (induction v rule: walk.induct)
  case (1 es)
  show ?case
  proof (cases "isTaintedValue (Obj es)")
    case None
    then have "\<not> wraps es s w" for s w using isTaintedValue_Obj by (metis option.distinct(1))
    moreover from None 1(3) obtain k v where "(k, v) \<in> set es" "t \<in> set (walk v)"
      by (auto simp del: isTaintedValue.simps)
    ultimately show ?thesis using 1(1) [OF None] by (auto intro: carries.property)
  next
    case (Some s)
    then obtain v where v: "wraps es s v" using isTaintedValue_Obj by blast
    then have val: "map_of es ''value'' = Some v" by (simp add: wraps_def)
    with Some 1(3) consider "t = s" | "t \<in> set (walk v)" by (auto simp del: isTaintedValue.simps)
    then show ?thesis using 1(2) [OF Some val] v by cases (auto intro: carries.own carries.wrapped)
  qed
qed (auto intro: carries.element)

lemma collectFieldTaints_carries: "set (collectFieldTaints payload) = {t. carries payload t}"
  by (auto simp: collectFieldTaints_def carries_walked walked_carries)

text \<open>C29: the field-level gate lets a proposal through exactly when the policy's minimum for the
  kind is met by the envelope taint and by every taint that the payload carries, however deep in objects,
  arrays and wrapped values.\<close>

theorem canProposeFieldLevel_iff:
  assumes "minimumFor policy kind = Inr m"
  shows "canProposeFieldLevel t kind policy payload
    = Inr (taintRank m \<le> taintRank t \<and> (\<forall>f. carries payload f \<longrightarrow> taintRank m \<le> taintRank f))"
proof -
  have meet: "m \<le> meetAll ts \<longleftrightarrow> (\<forall>f \<in> set ts. m \<le> f)" if "ts \<noteq> []" for ts
    using meetAll_le meetAll_greatest order_trans by metis
  have none: "collectFieldTaints payload = [] \<Longrightarrow> \<not> carries payload f" for f
    using collectFieldTaints_carries [of payload] by auto
  have all: "(\<forall>f \<in> set (collectFieldTaints payload). m \<le> f) \<longleftrightarrow> (\<forall>f. carries payload f \<longrightarrow> m \<le> f)"
    by (simp add: collectFieldTaints_carries)
  show ?thesis
    using assms none by (auto simp: canProposeFieldLevel_def canPropose_def Let_def less_eq_Taint_def [symmetric] meet all)
qed

theorem canProposeFieldLevel_iff_witness:
  "canProposeFieldLevel SYSTEM ''pay'' \<lparr>minimumFor = (\<lambda>k. Inr TRUSTED), requiresUncontaminatedOrigin = None\<rparr>
     (Obj [(''items'', Arr [tainted (tainted (Str ''x'') ''UNTRUSTED'') ''SYSTEM''])]) = Inr False"
proof -
  let ?inner = "tainted (Str ''x'') ''UNTRUSTED''"
  have w: "wraps [(''value'', v), (''taint'', Str s)] t v" if "taint_of_string s = Some t" for v s t
    using that by (simp add: wraps_def del: taint_of_string.simps)
  have "carries ?inner UNTRUSTED" unfolding tainted_def by (rule carries.own, rule w) simp
  then have "carries (tainted ?inner ''SYSTEM'') UNTRUSTED"
    unfolding tainted_def [of ?inner] by (intro carries.wrapped [OF w, of _ SYSTEM]) simp_all
  then have "carries (Obj [(''items'', Arr [tainted ?inner ''SYSTEM''])]) UNTRUSTED"
    by (intro carries.property [of _ "''items''" "Arr [tainted ?inner ''SYSTEM'']"] carries.element) (auto simp: wraps_def)
  then show ?thesis
    using canProposeFieldLevel_iff [of "\<lparr>minimumFor = (\<lambda>k. Inr TRUSTED), requiresUncontaminatedOrigin = None\<rparr>"
      "''pay''" TRUSTED SYSTEM "Obj [(''items'', Arr [tainted ?inner ''SYSTEM''])]"] by auto
qed

text \<open>The origin-aware gate only ever turns a pass of the rank gate into a refusal.\<close>

lemma canProposeWithOrigin_monotone:
  "canProposeWithOrigin t kind orig policy = Inr True \<Longrightarrow> canPropose t kind policy = Inr True"
  by (auto simp: canProposeWithOrigin_def bindR_Inr split: if_splits)

end
