(* ===== verification/Envelope.thy ===== *)
theory Envelope
  imports Canonical Taint
begin

text \<open>
  The intent envelope (packages/core/src/envelope.ts) and the constant-time digest comparison
  (timing-safe.ts). The hash input, the construction, the re-derivation and the run-time shape
  checks are modelled; \<open>sha\<close> is the digest of the canonical text.
\<close>

definition INTENT_ENVELOPE_VERSION :: int where
  "INTENT_ENVELOPE_VERSION = 2"

datatype Principal = llm | user | system

fun principal_name :: "Principal \<Rightarrow> string" where
  "principal_name llm = ''llm''"
| "principal_name user = ''user''"
| "principal_name system = ''system''"

record Attestation =
  att_keyId :: string
  att_sig :: string

record IntentActor =
  principal :: Principal
  sessionId :: string
  role :: "string option"
  attestation :: "Attestation option"

text \<open>\<open>resourceRefs\<close> is a map from role names to resource identifiers, absent by default.\<close>

type_synonym ResourceRefs = "(string \<times> string) list"

record IntentEnvelope =
  e_version :: int
  e_kind :: string
  e_payload :: js
  e_createdAt :: string
  e_nonce :: string
  e_actor :: IntentActor
  e_taint :: Taint
  e_origin :: Origin
  e_resourceRefs :: "ResourceRefs option"
  e_intentHash :: string

subsection \<open>Envelope parts as JavaScript values\<close>

fun taint_name :: "Taint \<Rightarrow> string" where
  "taint_name SYSTEM = ''SYSTEM''"
| "taint_name TRUSTED = ''TRUSTED''"
| "taint_name UNTRUSTED = ''UNTRUSTED''"

fun origin_name :: "Origin \<Rightarrow> string" where
  "origin_name Human = ''Human''"
| "origin_name Retrieved = ''Retrieved''"
| "origin_name ExternalAPI = ''ExternalAPI''"
| "origin_name LLM = ''LLM''"
| "origin_name System = ''System''"

fun opt_js :: "('a \<Rightarrow> js) \<Rightarrow> 'a option \<Rightarrow> js" where
  "opt_js f None = Undef"
| "opt_js f (Some x) = f x"

definition attestation_js :: "Attestation \<Rightarrow> js" where
  "attestation_js a = Obj [(''keyId'', Str (att_keyId a)), (''sig'', Str (att_sig a))]"

definition actor_js :: "IntentActor \<Rightarrow> js" where
  "actor_js a = Obj
     [(''principal'', Str (principal_name (principal a))), (''sessionId'', Str (sessionId a)),
      (''role'', opt_js Str (role a)), (''attestation'', opt_js attestation_js (attestation a))]"

definition refs_js :: "ResourceRefs \<Rightarrow> js" where
  "refs_js rs = Obj (map (\<lambda>(k, v). (k, Str v)) rs)"

text \<open>The pre-image of the intent hash: neither \<open>createdAt\<close> nor the hash itself is in it.\<close>

definition intentHashInput :: "IntentEnvelope \<Rightarrow> js" where
  "intentHashInput e = Obj
     [(''version'', num (e_version e)), (''kind'', Str (e_kind e)), (''payload'', e_payload e),
      (''nonce'', Str (e_nonce e)), (''actor'', actor_js (e_actor e)),
      (''taint'', Str (taint_name (e_taint e))), (''origin'', Str (origin_name (e_origin e))),
      (''resourceRefs'', opt_js refs_js (e_resourceRefs e))]"

definition deriveIntentHash :: "(string \<Rightarrow> string) \<Rightarrow> IntentEnvelope \<Rightarrow> string result" where
  "deriveIntentHash sha e = sha256Canonical sha (intentHashInput e)"

record BuildEnvelopeInput =
  i_kind :: string
  i_payload :: js
  i_actor :: IntentActor
  i_taint :: Taint
  i_nonce :: string
  i_createdAt :: "string option"
  i_origin :: "Origin option"
  i_resourceRefs :: "ResourceRefs option"

text \<open>\<open>nowIso\<close> is \<open>new Date().toISOString()\<close>, read when no \<open>createdAt\<close> is given.\<close>

definition buildEnvelope ::
  "(string \<Rightarrow> string) \<Rightarrow> string \<Rightarrow> BuildEnvelopeInput \<Rightarrow> IntentEnvelope result" where
  "buildEnvelope sha nowIso input =
     (let createdAt = (case i_createdAt input of Some c \<Rightarrow> c | None \<Rightarrow> nowIso);
          origin = (case i_origin input of Some r \<Rightarrow> r | None \<Rightarrow> DEFAULT_ORIGIN);
          envelope = \<lparr>e_version = INTENT_ENVELOPE_VERSION, e_kind = i_kind input,
            e_payload = i_payload input, e_createdAt = createdAt, e_nonce = i_nonce input,
            e_actor = i_actor input, e_taint = i_taint input, e_origin = origin,
            e_resourceRefs = i_resourceRefs input, e_intentHash = []\<rparr>
      in mapR (\<lambda>h. envelope\<lparr>e_intentHash := h\<rparr>)
           (sha256Canonical sha (intentHashInput envelope)))"

subsection \<open>Constant-time comparison (timing-safe.ts)\<close>

text \<open>
  The loop folds \<open>mismatch |= a[i] ^ b[i]\<close> over every position; the model accumulates whether
  any difference was seen, over the whole length.
\<close>

definition xor_codes :: "char \<Rightarrow> char \<Rightarrow> nat" where
  "xor_codes a b = Bit_Operations.xor (of_char a) (of_char b)"

definition timingSafeHexEqual :: "string \<Rightarrow> string \<Rightarrow> bool" where
  "timingSafeHexEqual a b =
     (if length a \<noteq> length b then False
      else foldl (\<lambda>mismatch (x, y). Bit_Operations.or mismatch (xor_codes x y)) 0 (zip a b) = 0)"

lemma xor_codes_0: "xor_codes a b = 0 \<longleftrightarrow> a = b"
  unfolding xor_codes_def by (metis of_char_eq_iff xor_self_eq bit_xor_iff bit_eq_iff bit_0_eq bot_apply)

lemma timingSafeHexEqual_eq [simp]: "timingSafeHexEqual a b \<longleftrightarrow> a = b"
proof -
  have "foldl (\<lambda>m (x, y). Bit_Operations.or m (xor_codes x y)) n (zip a b) = 0
      \<longleftrightarrow> n = 0 \<and> list_all (\<lambda>(x, y). x = y) (zip a b)" for n :: nat
    by (induction a b arbitrary: n rule: list_induct2') (auto simp: xor_codes_0 or_eq_0_iff)
  then show ?thesis
    by (auto simp: timingSafeHexEqual_def list_all2_eq list_all2_iff list_all_iff)
qed

subsection \<open>What the intent hash binds\<close>

lemma taint_name_inject [simp]: "taint_name a = taint_name b \<longleftrightarrow> a = b"
  by (cases a; cases b) simp_all

lemma origin_name_inject [simp]: "origin_name a = origin_name b \<longleftrightarrow> a = b"
  by (cases a; cases b) simp_all

lemma principal_name_inject [simp]: "principal_name a = principal_name b \<longleftrightarrow> a = b"
  by (cases a; cases b) simp_all

lemma attestation_js_not_Undef [simp]: "attestation_js a \<noteq> Undef"
  by (simp add: attestation_js_def)

lemma attestation_js_canon:
  assumes "canonicalize (attestation_js a) = Inr c" "canonicalize (attestation_js b) = Inr c"
  shows "a = b"
proof -
  note det = canonicalize_Obj_determines [OF assms [unfolded attestation_js_def]]
  have "att_keyId a = att_keyId b" using det [of "''keyId''"] by (simp add: own_canon_def nfc_def)
  moreover have "att_sig a = att_sig b" using det [of "''sig''"] by (simp add: own_canon_def nfc_def)
  ultimately show ?thesis by simp
qed

lemma actor_js_canon:
  assumes "canonicalize (actor_js a) = Inr c" "canonicalize (actor_js b) = Inr c"
  shows "a = b"
proof -
  note det = canonicalize_Obj_determines [OF assms [unfolded actor_js_def]]
  have "principal a = principal b" using det [of "''principal''"] by (simp add: own_canon_def nfc_def)
  moreover have "sessionId a = sessionId b" using det [of "''sessionId''"] by (simp add: own_canon_def nfc_def)
  moreover have "role a = role b" using det [of "''role''"]
    by (cases "role a"; cases "role b") (simp_all add: own_canon_def nfc_def)
  moreover have "attestation a = attestation b"
  proof (cases "attestation a")
    case None
    then show ?thesis using det [of "''attestation''"]
      by (cases "attestation b") (simp_all add: own_canon_def)
  next
    case (Some x)
    then obtain y where y: "attestation b = Some y" and eq: "canonicalize (attestation_js x) = canonicalize (attestation_js y)"
      using det [of "''attestation''"] by (cases "attestation b") (simp_all add: own_canon_def)
    obtain d where "canonicalize (attestation_js x) = Inr d"
      using canonicalize_entry_Inr [OF assms(1) [unfolded actor_js_def], of "''attestation''" "attestation_js x"] Some
      by auto
    with eq attestation_js_canon have "x = y" by metis
    with Some y show ?thesis by simp
  qed
  ultimately show ?thesis by simp
qed

lemma intentHash_determines:
  assumes inj: "\<not> collision sha (intentHashInput e) (intentHashInput f)"
    and e: "deriveIntentHash sha e = Inr h" and f: "deriveIntentHash sha f = Inr h"
  shows "e_version e = e_version f \<and> e_kind e = e_kind f \<and> e_nonce e = e_nonce f
    \<and> e_actor e = e_actor f \<and> e_taint e = e_taint f \<and> e_origin e = e_origin f
    \<and> canonicalize (e_payload e) = canonicalize (e_payload f)
    \<and> canonicalize (opt_js refs_js (e_resourceRefs e)) = canonicalize (opt_js refs_js (e_resourceRefs f))"
proof -
  have "canonicalize (intentHashInput e) = canonicalize (intentHashInput f)"
    using sha256Canonical_inject [OF inj] e f by (simp add: deriveIntentHash_def)
  moreover obtain c where "canonicalize (intentHashInput e) = Inr c"
    using e sha256Canonical_form [of sha "intentHashInput e" h] by (auto simp: deriveIntentHash_def)
  ultimately have ce: "canonicalize (intentHashInput e) = Inr c"
    and cf: "canonicalize (intentHashInput f) = Inr c" by simp_all
  note det = canonicalize_Obj_determines
    [OF ce [unfolded intentHashInput_def] cf [unfolded intentHashInput_def]]
  have "canonicalize (actor_js (e_actor e)) = canonicalize (actor_js (e_actor f))"
    using det [of "''actor''"] by (simp add: own_canon_def actor_js_def)
  moreover obtain d where "canonicalize (actor_js (e_actor e)) = Inr d"
    using canonicalize_entry_Inr [OF ce [unfolded intentHashInput_def], of "''actor''" "actor_js (e_actor e)"]
    by (auto simp: actor_js_def)
  ultimately have "e_actor e = e_actor f" using actor_js_canon by metis
  moreover have "canonicalize (e_payload e) = canonicalize (e_payload f)"
    using det [of "''payload''"] by (auto simp: own_canon_def split: if_splits)
  moreover have "canonicalize (opt_js refs_js (e_resourceRefs e)) = canonicalize (opt_js refs_js (e_resourceRefs f))"
    using det [of "''resourceRefs''"] by (auto simp: own_canon_def split: if_splits)
  ultimately show ?thesis
    using det [of "''version''"] det [of "''kind''"] det [of "''nonce''"] det [of "''taint''"] det [of "''origin''"]
    by (simp add: own_canon_def nfc_def)
qed

text \<open>C27: content addressing binds the proposal. Unless the digest collides on their hash inputs, two
  envelopes with one intent hash agree on the version, the kind, the nonce, the actor (attestation and role
  included), the taint and the origin, and their payloads and resource references have the same
  canonical form.\<close>

theorem intentHash_binds:
  assumes inj: "\<not> collision sha (intentHashInput e) (intentHashInput f)"
    and e: "deriveIntentHash sha e = Inr h" and f: "deriveIntentHash sha f = Inr h"
  shows "e_version e = e_version f \<and> e_kind e = e_kind f \<and> e_nonce e = e_nonce f
    \<and> e_actor e = e_actor f \<and> e_taint e = e_taint f \<and> e_origin e = e_origin f
    \<and> canonicalize (e_payload e) = canonicalize (e_payload f)
    \<and> canonicalize (opt_js refs_js (e_resourceRefs e)) = canonicalize (opt_js refs_js (e_resourceRefs f))"
  using assms by (rule intentHash_determines)

theorem intentHash_binds_witness:
  "let a = \<lparr>principal = llm, sessionId = ''s'', role = None, attestation = None\<rparr>;
       e = \<lparr>e_version = 2, e_kind = ''k'', e_payload = Null, e_createdAt = ''t1'', e_nonce = ''n'',
         e_actor = a, e_taint = TRUSTED, e_origin = LLM, e_resourceRefs = None, e_intentHash = []\<rparr>
   in e_actor e = e_actor (e\<lparr>e_createdAt := ''t2''\<rparr>)"
proof -
  let ?a = "\<lparr>principal = llm, sessionId = ''s'', role = None, attestation = None\<rparr>"
  let ?e = "\<lparr>e_version = 2, e_kind = ''k'', e_payload = Null, e_createdAt = ''t1'', e_nonce = ''n'',
         e_actor = ?a, e_taint = TRUSTED, e_origin = LLM, e_resourceRefs = None, e_intentHash = []\<rparr>"
  let ?f = "?e\<lparr>e_createdAt := ''t2''\<rparr>"
  have same: "intentHashInput ?f = intentHashInput ?e" by (simp add: intentHashInput_def)
  obtain h where h: "deriveIntentHash (\<lambda>s. s) ?e = Inr h"
    by (simp add: deriveIntentHash_def intentHashInput_def sha256Canonical_def canonicalJson_def
        actor_js_def canonicalize_Obj by_key_def obj_put_def is_index_key_def is_digit_def JSON_stringify_def)
  have "\<not> collision (\<lambda>s. s) (intentHashInput ?e) (intentHashInput ?f)"
    by (simp add: same collision_def split: sum.splits)
  moreover have "deriveIntentHash (\<lambda>s. s) ?f = Inr h" using h by (simp only: deriveIntentHash_def same)
  ultimately have "e_actor ?e = e_actor ?f" using intentHash_binds [of "\<lambda>s. s" ?e ?f h] h by blast
  then show ?thesis by (simp only: Let_def)
qed

subsection \<open>Checks on a presented envelope\<close>

definition reconcileNonceHash ::
  "(string \<Rightarrow> string) \<Rightarrow> IntentEnvelope \<Rightarrow> string \<Rightarrow> bool result" where
  "reconcileNonceHash sha envelope presentedHash =
     mapR (\<lambda>derived. timingSafeHexEqual derived presentedHash) (deriveIntentHash sha envelope)"

datatype ResourceBindingPolicy = Strict | Warn | Off

definition DEFAULT_RESOURCE_BINDING_POLICY :: ResourceBindingPolicy where
  "DEFAULT_RESOURCE_BINDING_POLICY = Strict"

datatype ResourceBindingResult = Bound | Unbound string string

definition verifyResourceBinding ::
  "(string \<Rightarrow> string) \<Rightarrow> IntentEnvelope \<Rightarrow> ResourceBindingResult" where
  "verifyResourceBinding sha envelope =
     (case deriveIntentHash sha envelope of
        Inl e \<Rightarrow> Unbound [] (e_intentHash envelope)
      | Inr d \<Rightarrow>
          if \<not> timingSafeHexEqual d (e_intentHash envelope)
          then Unbound d (e_intentHash envelope) else Bound)"

lemma verifyResourceBinding_Bound:
  "verifyResourceBinding sha e = Bound \<longleftrightarrow> deriveIntentHash sha e = Inr (e_intentHash e)"
  by (simp add: verifyResourceBinding_def split: sum.splits)

lemma buildEnvelope_Inr:
  "buildEnvelope sha now i = Inr e \<Longrightarrow> deriveIntentHash sha e = Inr (e_intentHash e)"
  by (auto simp: buildEnvelope_def Let_def mapR_Inr deriveIntentHash_def intentHashInput_def)

text \<open>C28: what \<open>buildEnvelope\<close> returns carries the hash of its own content: the re-derivation at
  the kernel and the reconciliation of the hash presented with a confirmation both accept it, and
  reconciliation accepts no other hash.\<close>

theorem buildEnvelope_verifies:
  assumes "buildEnvelope sha now i = Inr e"
  shows "verifyResourceBinding sha e = Bound
    \<and> reconcileNonceHash sha e h = Inr (h = e_intentHash e)
    \<and> e_version e = INTENT_ENVELOPE_VERSION"
proof -
  from assms have "deriveIntentHash sha e = Inr (e_intentHash e)" by (rule buildEnvelope_Inr)
  moreover from assms have "e_version e = INTENT_ENVELOPE_VERSION"
    by (auto simp: buildEnvelope_def Let_def mapR_Inr)
  ultimately show ?thesis by (auto simp: verifyResourceBinding_Bound reconcileNonceHash_def)
qed

theorem buildEnvelope_verifies_witness:
  "\<exists>e. buildEnvelope (\<lambda>s. ''#'' @ s) ''now''
      \<lparr>i_kind = ''k'', i_payload = num 7, i_actor = \<lparr>principal = user, sessionId = ''s'', role = None,
        attestation = None\<rparr>, i_taint = UNTRUSTED, i_nonce = ''n'', i_createdAt = None,
        i_origin = None, i_resourceRefs = Some [(''r'', ''1'')]\<rparr> = Inr e
    \<and> verifyResourceBinding (\<lambda>s. ''#'' @ s) e = Bound"
proof -
  let ?i = "\<lparr>i_kind = ''k'', i_payload = num 7, i_actor = \<lparr>principal = user, sessionId = ''s'', role = None,
        attestation = None\<rparr>, i_taint = UNTRUSTED, i_nonce = ''n'', i_createdAt = None,
        i_origin = None, i_resourceRefs = Some [(''r'', ''1'')]\<rparr>"
  obtain e where "buildEnvelope (\<lambda>s. ''#'' @ s) ''now'' ?i = Inr e"
    by (simp add: buildEnvelope_def Let_def intentHashInput_def sha256Canonical_def canonicalJson_def
        actor_js_def refs_js_def canonicalize_Obj by_key_def obj_put_def is_index_key_def is_digit_def JSON_stringify_def)
  with buildEnvelope_verifies [OF this] show ?thesis by blast
qed

text \<open>A payload swapped in after the envelope was built is detected: if the kernel's
  re-derivation still accepts the envelope, the new payload has the canonical form of the old
  (or the digest collides).\<close>

lemma verifyResourceBinding_detects_payload:
  assumes "verifyResourceBinding sha e = Bound"
    and "verifyResourceBinding sha (e\<lparr>e_payload := p\<rparr>) = Bound"
    and "\<not> collision sha (intentHashInput e) (intentHashInput (e\<lparr>e_payload := p\<rparr>))"
  shows "canonicalize p = canonicalize (e_payload e)"
proof -
  let ?f = "e\<lparr>e_payload := p\<rparr>"
  have "canonicalize (intentHashInput e) = canonicalize (intentHashInput ?f)"
    using assms by (intro sha256Canonical_inject [of sha _ _ "e_intentHash e"])
      (simp_all add: verifyResourceBinding_Bound deriveIntentHash_def)
  moreover obtain c where c: "canonicalize (intentHashInput e) = Inr c"
    using assms(1) sha256Canonical_form [of sha "intentHashInput e" "e_intentHash e"]
    by (auto simp: verifyResourceBinding_Bound deriveIntentHash_def)
  ultimately have "canonicalize (intentHashInput ?f) = Inr c" by simp
  from canonicalize_Obj_determines [OF c [unfolded intentHashInput_def] this [unfolded intentHashInput_def], of "''payload''"]
  show ?thesis by (auto simp: own_canon_def split: if_splits)
qed

lemma verifyResourceBinding_detects_payload_witness:
  "canonicalize (Obj [(''b'', num 1), (''a'', num 2)]) = canonicalize (Obj [(''a'', num 2), (''b'', num 1)])"
proof -
  let ?i = "\<lambda>p. \<lparr>i_kind = ''k'', i_payload = p, i_actor = \<lparr>principal = user, sessionId = ''s'', role = None,
        attestation = None\<rparr>, i_taint = UNTRUSTED, i_nonce = ''n'', i_createdAt = None,
        i_origin = None, i_resourceRefs = None\<rparr>"
  let ?p = "Obj [(''a'', num 2), (''b'', num 1)]"
  let ?q = "Obj [(''b'', num 1), (''a'', num 2)]"
  note compute = intentHashInput_def sha256Canonical_def canonicalJson_def
        actor_js_def canonicalize_Obj by_key_def obj_put_def is_index_key_def is_digit_def JSON_stringify_def
  obtain e where e: "buildEnvelope (\<lambda>s. s) ''now'' (?i ?p) = Inr e"
    by (simp add: buildEnvelope_def Let_def compute)
  have pay: "e_payload e = ?p" using e by (auto simp: buildEnvelope_def Let_def mapR_Inr)
  have "canonicalize ?q = canonicalize ?p" by (simp add: compute)
  have same: "canonicalize (intentHashInput (e\<lparr>e_payload := ?q\<rparr>)) = canonicalize (intentHashInput e)"
    by (simp add: intentHashInput_def pay canonicalize_Obj by_key_def obj_put_def is_index_key_def is_digit_def)
  have b: "verifyResourceBinding (\<lambda>s. s) e = Bound"
    using buildEnvelope_Inr [OF e] by (simp add: verifyResourceBinding_Bound)
  then have b2: "verifyResourceBinding (\<lambda>s. s) (e\<lparr>e_payload := ?q\<rparr>) = Bound"
    by (simp add: verifyResourceBinding_Bound deriveIntentHash_def sha256Canonical_def canonicalJson_def same)
  have "\<not> collision (\<lambda>s. s) (intentHashInput e) (intentHashInput (e\<lparr>e_payload := ?q\<rparr>))"
    by (simp add: collision_def split: sum.splits)
  from verifyResourceBinding_detects_payload [OF b b2 this] show ?thesis by (simp only: pay)
qed

subsection \<open>The shape of an envelope at run time\<close>

text \<open>An envelope as the object the code passes around: \<open>resourceRefs\<close> is a key of it only when given.\<close>

definition envelope_js :: "IntentEnvelope \<Rightarrow> js" where
  "envelope_js e = Obj
     ([(''version'', num (e_version e)), (''kind'', Str (e_kind e)), (''payload'', e_payload e),
       (''createdAt'', Str (e_createdAt e)), (''nonce'', Str (e_nonce e)),
       (''actor'', actor_js (e_actor e)), (''taint'', Str (taint_name (e_taint e))),
       (''origin'', Str (origin_name (e_origin e))), (''intentHash'', Str (e_intentHash e))]
      @ (case e_resourceRefs e of None \<Rightarrow> [] | Some r \<Rightarrow> [(''resourceRefs'', refs_js r)]))"

definition REQUIRED_ENVELOPE_KEYS :: "string list" where
  "REQUIRED_ENVELOPE_KEYS = [''version'', ''kind'', ''payload'', ''createdAt'', ''nonce'', ''actor'',
     ''taint'', ''origin'', ''intentHash'']"

definition OPTIONAL_ENVELOPE_KEYS :: "string list" where
  "OPTIONAL_ENVELOPE_KEYS = [''resourceRefs'']"

definition EXPECTED_ENVELOPE_KEYS :: "string list" where
  "EXPECTED_ENVELOPE_KEYS = REQUIRED_ENVELOPE_KEYS @ OPTIONAL_ENVELOPE_KEYS"

text \<open>
  \<open>js_prop v k\<close> is \<open>v.k\<close> for a value that is neither \<open>null\<close> nor \<open>undefined\<close> and a key
  that no prototype defines.
\<close>

fun js_prop :: "js \<Rightarrow> string \<Rightarrow> js" where
  "js_prop (Obj es) k = (case obj_get es k of Some v \<Rightarrow> v | None \<Rightarrow> Undef)"
| "js_prop _ k = Undef"

fun is_string :: "js \<Rightarrow> bool" where
  "is_string (Str s) = True"
| "is_string _ = False"

fun is_number :: "js \<Rightarrow> bool" where
  "is_number (Num n) = True"
| "is_number _ = False"

fun is_resource_refs :: "js \<Rightarrow> bool" where
  "is_resource_refs (Obj es) = list_all (\<lambda>(k, v). is_string v) es"
| "is_resource_refs _ = False"

text \<open>
  The keys of an array are its indices, so an array lacks every required key. Reading
  \<open>principal\<close> of an \<open>actor\<close> that is \<open>null\<close> is the one access that can throw.
\<close>

fun isIntentEnvelope :: "js \<Rightarrow> bool result" where
  "isIntentEnvelope (Obj es) =
     (let v = js_prop (Obj es); keys = map fst es; actor = v ''actor'' in
      if list_ex (\<lambda>k. k \<notin> set EXPECTED_ENVELOPE_KEYS) keys then Inr False
      else if \<not> list_all (\<lambda>k. k \<in> set keys) REQUIRED_ENVELOPE_KEYS then Inr False
      else if v ''resourceRefs'' \<noteq> Undef \<and> \<not> is_resource_refs (v ''resourceRefs'') then Inr False
      else if \<not> (v ''version'' = num INTENT_ENVELOPE_VERSION \<and> is_string (v ''kind'')
          \<and> is_string (v ''createdAt'') \<and> is_string (v ''nonce'') \<and> is_string (v ''intentHash'')
          \<and> actor \<noteq> Undef) then Inr False
      else if actor = Null
        then Inl (ErrorObj ''TypeError'' ''Cannot read properties of null (reading principal)'')
      else Inr
        (js_prop actor ''principal'' \<in> {Str ''llm'', Str ''user'', Str ''system''}
         \<and> is_string (js_prop actor ''sessionId'')
         \<and> (js_prop actor ''role'' = Undef
            \<or> is_string (js_prop actor ''role'') \<and> js_prop actor ''role'' \<noteq> Str [])
         \<and> v ''taint'' \<in> {Str ''SYSTEM'', Str ''TRUSTED'', Str ''UNTRUSTED''}
         \<and> v ''origin'' \<in> {Str ''Human'', Str ''Retrieved'', Str ''ExternalAPI'', Str ''LLM'', Str ''System''}))"
| "isIntentEnvelope _ = Inr False"

fun hasUnknownEnvelopeVersion :: "js \<Rightarrow> bool" where
  "hasUnknownEnvelopeVersion (Obj es) =
     (let version = js_prop (Obj es) ''version'' in
      version \<noteq> Undef \<and> version \<noteq> num INTENT_ENVELOPE_VERSION \<and> is_number version)"
| "hasUnknownEnvelopeVersion _ = False"

lemma taint_name_values: "Str (taint_name t) \<in> {Str ''SYSTEM'', Str ''TRUSTED'', Str ''UNTRUSTED''}"
  by (cases t) simp_all

lemma origin_name_values:
  "Str (origin_name r) \<in> {Str ''Human'', Str ''Retrieved'', Str ''ExternalAPI'', Str ''LLM'', Str ''System''}"
  by (cases r) simp_all

lemma principal_name_values: "Str (principal_name p) \<in> {Str ''llm'', Str ''user'', Str ''system''}"
  by (cases p) simp_all

lemma is_resource_refs_refs_js: "is_resource_refs (refs_js r)"
  by (auto simp: refs_js_def list_all_iff)

lemma envelope_js_props:
  "js_prop (envelope_js e) ''version'' = num (e_version e)"
  "js_prop (envelope_js e) ''kind'' = Str (e_kind e)"
  "js_prop (envelope_js e) ''createdAt'' = Str (e_createdAt e)"
  "js_prop (envelope_js e) ''nonce'' = Str (e_nonce e)"
  "js_prop (envelope_js e) ''intentHash'' = Str (e_intentHash e)"
  "js_prop (envelope_js e) ''actor'' = actor_js (e_actor e)"
  "js_prop (envelope_js e) ''taint'' = Str (taint_name (e_taint e))"
  "js_prop (envelope_js e) ''origin'' = Str (origin_name (e_origin e))"
  "js_prop (envelope_js e) ''resourceRefs'' = opt_js refs_js (e_resourceRefs e)"
  by (simp_all add: envelope_js_def obj_get_def split: option.split)

lemma actor_js_props:
  "js_prop (actor_js a) ''principal'' = Str (principal_name (principal a))"
  "js_prop (actor_js a) ''sessionId'' = Str (sessionId a)"
  "js_prop (actor_js a) ''role'' = opt_js Str (role a)"
  by (simp_all add: actor_js_def obj_get_def)

text \<open>The run-time shape check accepts every envelope object of the current version whose actor
  role, if present, is not the empty string, and refuses every other envelope object; and an object
  it accepts never counts as one of an unknown version.\<close>

lemma isIntentEnvelope_envelope_js:
  "isIntentEnvelope (envelope_js e)
     = Inr (e_version e = INTENT_ENVELOPE_VERSION \<and> role (e_actor e) \<noteq> Some [])
   \<and> hasUnknownEnvelopeVersion (envelope_js e) = (e_version e \<noteq> INTENT_ENVELOPE_VERSION)"
proof -
  obtain es where es: "envelope_js e = Obj es" by (simp add: envelope_js_def)
  have keys: "map fst es = REQUIRED_ENVELOPE_KEYS
      @ (case e_resourceRefs e of None \<Rightarrow> [] | Some r \<Rightarrow> [''resourceRefs''])"
    using es by (auto simp: envelope_js_def REQUIRED_ENVELOPE_KEYS_def split: option.splits)
  have k1: "\<not> list_ex (\<lambda>k. k \<notin> set EXPECTED_ENVELOPE_KEYS) (map fst es)"
    unfolding keys EXPECTED_ENVELOPE_KEYS_def OPTIONAL_ENVELOPE_KEYS_def
    by (auto simp: list_ex_iff split: option.splits)
  have k2: "list_all (\<lambda>k. k \<in> set (map fst es)) REQUIRED_ENVELOPE_KEYS"
    unfolding keys by (auto simp: list_all_iff)
  have refs: "opt_js refs_js (e_resourceRefs e) = Undef \<or> is_resource_refs (opt_js refs_js (e_resourceRefs e))"
    by (cases "e_resourceRefs e") (simp_all add: is_resource_refs_refs_js)
  have actor: "actor_js (e_actor e) \<noteq> Undef" "actor_js (e_actor e) \<noteq> Null" by (simp_all add: actor_js_def)
  have role: "opt_js Str (role (e_actor e)) = Undef \<or> is_string (opt_js Str (role (e_actor e)))
      \<and> opt_js Str (role (e_actor e)) \<noteq> Str [] \<longleftrightarrow> role (e_actor e) \<noteq> Some []"
    by (cases "role (e_actor e)") simp_all
  note props = envelope_js_props [of e, unfolded es] actor_js_props
  have "isIntentEnvelope (Obj es)
     = Inr (e_version e = INTENT_ENVELOPE_VERSION \<and> role (e_actor e) \<noteq> Some [])"
    unfolding isIntentEnvelope.simps Let_def props
    using k1 k2 refs actor role taint_name_values origin_name_values principal_name_values
    by (simp only: if_False if_True simp_thms is_string.simps js.inject jnum.inject refl split: if_split) blast
  moreover have "hasUnknownEnvelopeVersion (Obj es) = (e_version e \<noteq> INTENT_ENVELOPE_VERSION)"
    unfolding hasUnknownEnvelopeVersion.simps Let_def props by simp
  ultimately show ?thesis by (simp only: es)
qed

subsection \<open>A sample envelope\<close>

text \<open>Used where a statement is applied to concrete values; the digest there is constant.\<close>

definition sample_sha :: "string \<Rightarrow> string" where
  "sample_sha s = ''h''"

definition sample_envelope :: IntentEnvelope where
  "sample_envelope = \<lparr>e_version = 2, e_kind = ''pay'', e_payload = Obj [(''amount'', num 5)], e_createdAt = ''t'',
     e_nonce = ''n'', e_actor = \<lparr>principal = user, sessionId = ''s'', role = None, attestation = None\<rparr>,
     e_taint = UNTRUSTED, e_origin = LLM, e_resourceRefs = None, e_intentHash = ''h''\<rparr>"

lemma sample_sel [simp]:
  "e_version sample_envelope = INTENT_ENVELOPE_VERSION" "e_taint sample_envelope = UNTRUSTED"
  "e_intentHash sample_envelope = ''h''" "e_kind sample_envelope = ''pay''" "e_origin sample_envelope = LLM"
  by (simp_all add: sample_envelope_def INTENT_ENVELOPE_VERSION_def)

lemma sample_hash [simp]: "deriveIntentHash sample_sha sample_envelope = Inr ''h''"
  by (simp add: deriveIntentHash_def intentHashInput_def sha256Canonical_def canonicalJson_def sample_sha_def
        sample_envelope_def actor_js_def canonicalize_Obj by_key_def obj_put_def is_index_key_def is_digit_def
        JSON_stringify_def)

end
