(* ===== verification/BasisCodes.thy ===== *)
theory BasisCodes
  imports JsValue
begin

text \<open>
  The controlled vocabulary of decision bases and refusals (packages/core/src/basis-codes.ts,
  refusal.ts). A basis carries its category, its code and an optional detail object; at run time
  the code is a string, and \<open>isKnownBasisCode\<close> tells whether it is in the vocabulary.
\<close>

datatype BasisCategory =
    cat_state | cat_auth | cat_taint | cat_ledger | cat_schema | cat_business
  | cat_validation | cat_kill | cat_deadline | cat_confirmation | cat_budget | cat_kernel

fun category_name :: "BasisCategory \<Rightarrow> string" where
  "category_name cat_state = ''state''"
| "category_name cat_auth = ''auth''"
| "category_name cat_taint = ''taint''"
| "category_name cat_ledger = ''ledger''"
| "category_name cat_schema = ''schema''"
| "category_name cat_business = ''business''"
| "category_name cat_validation = ''validation''"
| "category_name cat_kill = ''kill''"
| "category_name cat_deadline = ''deadline''"
| "category_name cat_confirmation = ''confirmation''"
| "category_name cat_budget = ''budget''"
| "category_name cat_kernel = ''kernel''"

fun BASIS_CODES :: "BasisCategory \<Rightarrow> string list" where
  "BASIS_CODES cat_state =
     [''transition_valid'', ''transition_illegal'', ''terminal_state'', ''grant_expired'']"
| "BASIS_CODES cat_auth =
     [''scope_sufficient'', ''scope_insufficient'', ''identity_missing'', ''identity_expired'']"
| "BASIS_CODES cat_taint = [''level_permitted'', ''level_insufficient'', ''propagation_violation'']"
| "BASIS_CODES cat_ledger = [''fresh'', ''replay_suppressed'', ''resource_version_stale'']"
| "BASIS_CODES cat_schema =
     [''version_supported'', ''version_unsupported'', ''payload_invalid'', ''intent_hash_mismatch'']"
| "BASIS_CODES cat_business =
     [''rule_satisfied'', ''rule_violated'', ''quantity_capped'', ''breakglass_granted'',
      ''breakglass_ttl_invalid'']"
| "BASIS_CODES cat_validation =
     [''forbidden_phrase_absent'', ''homoglyph_normalized'', ''unicode_normalized'',
      ''pii_detected'', ''pii_redacted'', ''pii_blocked'', ''command_flag_stripped'',
      ''command_sanitized'', ''command_blocked'', ''groundedness_low'', ''groundedness_degraded'',
      ''session_risk_elevated'']"
| "BASIS_CODES cat_kill = [''active'', ''seal_mismatch'']"
| "BASIS_CODES cat_deadline = [''exceeded'']"
| "BASIS_CODES cat_confirmation = [''received'']"
| "BASIS_CODES cat_budget = [''satisfied'']"
| "BASIS_CODES cat_kernel = [''guard_panic'', ''intent_dispatched'']"

record DecisionBasis =
  b_category :: BasisCategory
  b_code :: string
  b_detail :: "js option"

definition isKnownBasisCode :: "DecisionBasis \<Rightarrow> bool" where
  "isKnownBasisCode b = (b_code b \<in> set (BASIS_CODES (b_category b)))"

definition basis :: "BasisCategory \<Rightarrow> string \<Rightarrow> js option \<Rightarrow> DecisionBasis" where
  "basis c code detail = \<lparr>b_category = c, b_code = code, b_detail = detail\<rparr>"

lemma basis_sel [simp]:
  "b_category (basis c code d) = c" "b_code (basis c code d) = code" "b_detail (basis c code d) = d"
  by (simp_all add: basis_def)

datatype RefusalKind = SECURITY_REFUSAL | BUSINESS_RULE | AUTH | STATE

record Refusal =
  r_kind :: RefusalKind
  r_code :: string
  r_userFacing :: string
  r_detail :: "string option"

definition refuse :: "RefusalKind \<Rightarrow> string \<Rightarrow> string \<Rightarrow> string option \<Rightarrow> Refusal" where
  "refuse k code user detail =
     \<lparr>r_kind = k, r_code = code, r_userFacing = user, r_detail = detail\<rparr>"

lemma refuse_sel [simp]:
  "r_kind (refuse k c u d) = k" "r_code (refuse k c u d) = c"
  "r_userFacing (refuse k c u d) = u" "r_detail (refuse k c u d) = d"
  by (simp_all add: refuse_def)

subsection \<open>Pass bases (kernel/basis.ts) and flattened codes\<close>

datatype PassCategory = pass_state | pass_auth | pass_taint | pass_business

fun makePassBasis :: "PassCategory \<Rightarrow> DecisionBasis" where
  "makePassBasis pass_state = basis cat_state ''transition_valid'' None"
| "makePassBasis pass_auth = basis cat_auth ''scope_sufficient'' None"
| "makePassBasis pass_taint = basis cat_taint ''level_permitted'' None"
| "makePassBasis pass_business = basis cat_business ''rule_satisfied'' None"

definition flattenBasis :: "DecisionBasis list \<Rightarrow> string list" where
  "flattenBasis bs = map (\<lambda>b. category_name (b_category b) @ '':'' @ b_code b) bs"

lemma makePassBasis_known [simp]: "isKnownBasisCode (makePassBasis c)"
  by (cases c) (simp_all add: isKnownBasisCode_def)

end
