(* ===== verification/Decision.thy ===== *)
theory Decision
  imports Envelope BasisCodes
begin

text \<open>
  The decision algebra (packages/core/src/decision.ts): the six outcomes and their constructors,
  the restrictiveness order and the friction-only ceiling, and the authority graph with its
  recorded snapshots and the ownership resolver.
\<close>

datatype DecisionKind = EXECUTE | REFUSE | ESCALATE | REQUEST_CONFIRMATION | DEFER | REWRITE

datatype EscalateTo = human | supervisor

datatype Decision =
    Execute (d_basis: "DecisionBasis list")
  | Refuse (d_refusal: Refusal) (d_basis: "DecisionBasis list")
  | Escalate (d_to: EscalateTo) (d_reason: string) (d_basis: "DecisionBasis list")
  | RequestConfirmation (d_prompt: string) (d_basis: "DecisionBasis list")
  | Defer (d_signal: string) (d_timeoutMs: int) (d_basis: "DecisionBasis list")
  | Rewrite (d_rewritten: IntentEnvelope) (d_reason: string) (d_basis: "DecisionBasis list")

fun decision_kind :: "Decision \<Rightarrow> DecisionKind" where
  "decision_kind (Execute b) = EXECUTE"
| "decision_kind (Refuse r b) = REFUSE"
| "decision_kind (Escalate t r b) = ESCALATE"
| "decision_kind (RequestConfirmation p b) = REQUEST_CONFIRMATION"
| "decision_kind (Defer s t b) = DEFER"
| "decision_kind (Rewrite e r b) = REWRITE"

definition decisionExecute :: "DecisionBasis list \<Rightarrow> Decision" where
  "decisionExecute b = Execute b"

definition decisionRefuse :: "Refusal \<Rightarrow> DecisionBasis list \<Rightarrow> Decision" where
  "decisionRefuse r b = Refuse r b"

definition decisionEscalate :: "EscalateTo \<Rightarrow> string \<Rightarrow> DecisionBasis list \<Rightarrow> Decision" where
  "decisionEscalate to reason b = Escalate to reason b"

definition decisionRequestConfirmation :: "string \<Rightarrow> DecisionBasis list \<Rightarrow> Decision" where
  "decisionRequestConfirmation prompt b = RequestConfirmation prompt b"

definition decisionDefer :: "string \<Rightarrow> int \<Rightarrow> DecisionBasis list \<Rightarrow> Decision" where
  "decisionDefer signal timeoutMs b = Defer signal timeoutMs b"

definition decisionRewrite :: "IntentEnvelope \<Rightarrow> string \<Rightarrow> DecisionBasis list \<Rightarrow> Decision" where
  "decisionRewrite rewritten reason b = Rewrite rewritten reason b"

lemmas decision_constructors = decisionExecute_def decisionRefuse_def decisionEscalate_def
  decisionRequestConfirmation_def decisionDefer_def decisionRewrite_def

declare decision_constructors [simp]

lemma decision_kind_REWRITE: "decision_kind d = REWRITE \<longleftrightarrow> (\<exists>e r b. d = Rewrite e r b)"
  by (cases d) simp_all

lemma decision_kind_REFUSE: "decision_kind d = REFUSE \<longleftrightarrow> (\<exists>r b. d = Refuse r b)"
  by (cases d) simp_all

lemma decision_kind_EXECUTE: "decision_kind d = EXECUTE \<longleftrightarrow> (\<exists>b. d = Execute b)"
  by (cases d) simp_all

subsection \<open>The restrictiveness order\<close>

definition RESTRICTIVENESS_ORDER :: "DecisionKind list" where
  "RESTRICTIVENESS_ORDER = [EXECUTE, REWRITE, REQUEST_CONFIRMATION, DEFER, ESCALATE, REFUSE]"

fun indexOf :: "'a list \<Rightarrow> 'a \<Rightarrow> int" where
  "indexOf [] x = -1"
| "indexOf (y # ys) x = (if y = x then 0 else let i = indexOf ys x in if i = -1 then -1 else i + 1)"

definition restrictivenessRank :: "DecisionKind \<Rightarrow> int" where
  "restrictivenessRank k = indexOf RESTRICTIVENESS_ORDER k"

definition isAtLeastAsRestrictive :: "DecisionKind \<Rightarrow> DecisionKind \<Rightarrow> bool" where
  "isAtLeastAsRestrictive a b \<longleftrightarrow> restrictivenessRank a \<ge> restrictivenessRank b"

definition clampToCeiling :: "Decision \<Rightarrow> Decision \<Rightarrow> Decision" where
  "clampToCeiling deterministic ceiling =
     (if restrictivenessRank (decision_kind ceiling) > restrictivenessRank (decision_kind deterministic)
      then ceiling else deterministic)"

lemma restrictivenessRank_simps [simp]:
  "restrictivenessRank EXECUTE = 0" "restrictivenessRank REWRITE = 1"
  "restrictivenessRank REQUEST_CONFIRMATION = 2" "restrictivenessRank DEFER = 3"
  "restrictivenessRank ESCALATE = 4" "restrictivenessRank REFUSE = 5"
  by (simp_all add: restrictivenessRank_def RESTRICTIVENESS_ORDER_def)

lemma restrictivenessRank_inject: "restrictivenessRank a = restrictivenessRank b \<longleftrightarrow> a = b"
  by (cases a; cases b) simp_all

instantiation DecisionKind :: linorder
begin

definition less_eq_DecisionKind :: "DecisionKind \<Rightarrow> DecisionKind \<Rightarrow> bool" where
  "a \<le> b \<longleftrightarrow> isAtLeastAsRestrictive b a"

definition less_DecisionKind :: "DecisionKind \<Rightarrow> DecisionKind \<Rightarrow> bool" where
  "a < b \<longleftrightarrow> \<not> isAtLeastAsRestrictive a b"

instance
proof
  fix a b c :: DecisionKind
  note defs = less_eq_DecisionKind_def less_DecisionKind_def isAtLeastAsRestrictive_def
  show "(a < b) = (a \<le> b \<and> \<not> b \<le> a)" unfolding defs by linarith
  show "a \<le> a" unfolding defs by simp
  show "a \<le> b \<Longrightarrow> b \<le> c \<Longrightarrow> a \<le> c" unfolding defs by linarith
  show "a \<le> b \<or> b \<le> a" unfolding defs by linarith
  show "a \<le> b \<Longrightarrow> b \<le> a \<Longrightarrow> a = b"
    using restrictivenessRank_inject [of a b] unfolding defs by linarith
qed

end

lemma EXECUTE_least [simp]: "EXECUTE \<le> k"
  by (cases k) (simp_all add: less_eq_DecisionKind_def isAtLeastAsRestrictive_def)

text \<open>A ceiling only raises friction. The clamped decision is one of the two given, its kind is
  the more restrictive of the two in the order EXECUTE, REWRITE, REQUEST_CONFIRMATION, DEFER,
  ESCALATE, REFUSE; on a tie the deterministic decision is kept; and the result is EXECUTE exactly
  when both are (not, as the comment has it, whenever the deterministic one is).\<close>

lemma clampToCeiling_max:
  "decision_kind (clampToCeiling d c) = max (decision_kind d) (decision_kind c)
   \<and> clampToCeiling d c = (if decision_kind c \<le> decision_kind d then d else c)
   \<and> (decision_kind (clampToCeiling d c) = EXECUTE
        \<longleftrightarrow> decision_kind d = EXECUTE \<and> decision_kind c = EXECUTE)"
proof -
  have sel: "clampToCeiling d c = (if decision_kind c \<le> decision_kind d then d else c)"
    by (simp add: clampToCeiling_def less_eq_DecisionKind_def isAtLeastAsRestrictive_def)
  moreover have "decision_kind (clampToCeiling d c) = max (decision_kind d) (decision_kind c)"
    unfolding sel by (auto simp: max_def)
  moreover have "decision_kind (clampToCeiling d c) = EXECUTE
        \<longleftrightarrow> decision_kind d = EXECUTE \<and> decision_kind c = EXECUTE"
    by (cases d; cases c) (simp_all add: clampToCeiling_def)
  ultimately show ?thesis by blast
qed

subsection \<open>The authority graph and the recorded snapshots\<close>

datatype AuthorityRelationship = owns | joint | advisor | custodian

fun relationship_name :: "AuthorityRelationship \<Rightarrow> string" where
  "relationship_name owns = ''owns''"
| "relationship_name joint = ''joint''"
| "relationship_name advisor = ''advisor''"
| "relationship_name custodian = ''custodian''"

record AuthorityPermits =
  actions :: "string list"
  limits :: "(string \<times> jnum) list option"

record AuthorityEdge =
  ae_principal :: string
  ae_relationship :: AuthorityRelationship
  ae_resource :: string
  ae_permits :: AuthorityPermits

record AuthorityGraph =
  edges :: "AuthorityEdge list"

record RecordedAuthoritySnapshot =
  graph :: AuthorityGraph
  snapshotHash :: string

text \<open>The canonical text drops \<open>limits\<close> when it is absent, as \<open>opt_js\<close> gives \<open>undefined\<close>.\<close>

definition numbers_js :: "(string \<times> jnum) list \<Rightarrow> js" where
  "numbers_js ns = Obj (map (\<lambda>(k, n). (k, Num n)) ns)"

definition permits_js :: "AuthorityPermits \<Rightarrow> js" where
  "permits_js p = Obj
     [(''actions'', Arr (map Str (actions p))), (''limits'', opt_js numbers_js (limits p))]"

definition edge_js :: "AuthorityEdge \<Rightarrow> js" where
  "edge_js e = Obj
     [(''principal'', Str (ae_principal e)), (''relationship'', Str (relationship_name (ae_relationship e))),
      (''resource'', Str (ae_resource e)), (''permits'', permits_js (ae_permits e))]"

definition graph_js :: "AuthorityGraph \<Rightarrow> js" where
  "graph_js g = Obj [(''edges'', Arr (map edge_js (edges g)))]"

text \<open>The store is its frozen graph; \<open>edgesFor\<close> is the method of the same name.\<close>

record AuthorityGraphStore =
  store_graph :: AuthorityGraph

definition createAuthorityGraphStore :: "AuthorityGraph \<Rightarrow> AuthorityGraphStore" where
  "createAuthorityGraphStore g = \<lparr>store_graph = \<lparr>edges = edges g\<rparr>\<rparr>"

fun edgesFor :: "AuthorityGraphStore \<Rightarrow> string option \<Rightarrow> string option \<Rightarrow> AuthorityEdge list" where
  "edgesFor store (Some p) (Some r) =
     filter (\<lambda>e. ae_principal e = p \<and> ae_resource e = r) (edges (store_graph store))"
| "edgesFor store _ _ = []"

definition hashAuthorityGraph :: "(string \<Rightarrow> string) \<Rightarrow> AuthorityGraph \<Rightarrow> string result" where
  "hashAuthorityGraph sha g = sha256SnapshotCanonical sha (graph_js g)"

definition recordAuthoritySnapshot ::
  "(string \<Rightarrow> string) \<Rightarrow> AuthorityGraph \<Rightarrow> RecordedAuthoritySnapshot result" where
  "recordAuthoritySnapshot sha g =
     mapR (\<lambda>h. \<lparr>graph = g, snapshotHash = h\<rparr>) (hashAuthorityGraph sha g)"

text \<open>The dash of the message, outside Latin-1, is written as a hyphen.\<close>

definition integrity_failure :: "string \<Rightarrow> string \<Rightarrow> string \<Rightarrow> string \<Rightarrow> thrown" where
  "integrity_failure fn what rederived stored = ErrorObj ''Error''
     (fn @ '': recorded snapshot integrity failure '' @ ''- re-derived snapshotHash '' @ rederived
      @ '' does not match stored '' @ stored @ '' (tampered or drifted recorded '' @ what @ '' snapshot)'')"

definition authorityGraphStoreFromRecorded ::
  "(string \<Rightarrow> string) \<Rightarrow> RecordedAuthoritySnapshot \<Rightarrow> AuthorityGraphStore result" where
  "authorityGraphStoreFromRecorded sha recorded =
     bindR (hashAuthorityGraph sha (graph recorded)) (\<lambda>rederived.
       if rederived \<noteq> snapshotHash recorded
       then Inl (integrity_failure ''authorityGraphStoreFromRecorded'' ''authority''
              rederived (snapshotHash recorded))
       else Inr (createAuthorityGraphStore (graph recorded)))"

record AggregateSnapshot =
  windows :: "(string \<times> jnum) list"
  ag_at :: string

record RecordedAggregateSnapshot =
  ag_snapshot :: AggregateSnapshot
  ag_snapshotHash :: string

definition aggregate_js :: "AggregateSnapshot \<Rightarrow> js" where
  "aggregate_js s = Obj [(''windows'', numbers_js (windows s)), (''at'', Str (ag_at s))]"

definition hashAggregateSnapshot :: "(string \<Rightarrow> string) \<Rightarrow> AggregateSnapshot \<Rightarrow> string result" where
  "hashAggregateSnapshot sha s = sha256SnapshotCanonical sha (aggregate_js s)"

definition recordAggregateSnapshot ::
  "(string \<Rightarrow> string) \<Rightarrow> AggregateSnapshot \<Rightarrow> RecordedAggregateSnapshot result" where
  "recordAggregateSnapshot sha s =
     mapR (\<lambda>h. \<lparr>ag_snapshot = s, ag_snapshotHash = h\<rparr>) (hashAggregateSnapshot sha s)"

definition aggregateSnapshotFromRecorded ::
  "(string \<Rightarrow> string) \<Rightarrow> RecordedAggregateSnapshot \<Rightarrow> AggregateSnapshot result" where
  "aggregateSnapshotFromRecorded sha recorded =
     bindR (hashAggregateSnapshot sha (ag_snapshot recorded)) (\<lambda>rederived.
       if rederived \<noteq> ag_snapshotHash recorded
       then Inl (integrity_failure ''aggregateSnapshotFromRecorded'' ''aggregate''
              rederived (ag_snapshotHash recorded))
       else Inr (ag_snapshot recorded))"

subsection \<open>Ownership\<close>

record OwnershipRefKeys =
  principalKey :: "string option"
  resourceKey :: "string option"

record OwnershipFact =
  of_principal :: "string option"
  of_resource :: "string option"
  of_bound :: bool
  of_relationships :: "AuthorityRelationship list"
  of_permits :: "string list"
  of_edges :: "AuthorityEdge list"

definition dedupe :: "'a list \<Rightarrow> 'a list" where
  "dedupe values = foldl (\<lambda>out v. if v \<notin> set out then out @ [v] else out) [] values"

definition DEFAULT_PRINCIPAL_KEY :: string where
  "DEFAULT_PRINCIPAL_KEY = ''owner''"

definition DEFAULT_RESOURCE_KEY :: string where
  "DEFAULT_RESOURCE_KEY = ''resource''"

definition refs_get :: "ResourceRefs option \<Rightarrow> string \<Rightarrow> string option" where
  "refs_get refs k = (case refs of None \<Rightarrow> None | Some rs \<Rightarrow> map_of rs k)"

definition resolveOwnership ::
  "AuthorityGraphStore \<Rightarrow> IntentEnvelope \<Rightarrow> OwnershipRefKeys \<Rightarrow> OwnershipFact" where
  "resolveOwnership store envelope refKeys =
     (let pk = (case principalKey refKeys of Some k \<Rightarrow> k | None \<Rightarrow> DEFAULT_PRINCIPAL_KEY);
          rk = (case resourceKey refKeys of Some k \<Rightarrow> k | None \<Rightarrow> DEFAULT_RESOURCE_KEY);
          refs = e_resourceRefs envelope;
          p = refs_get refs pk;
          r = refs_get refs rk;
          es = edgesFor store p r
      in \<lparr>of_principal = p, of_resource = r, of_bound = (length es > 0),
          of_relationships = dedupe (map ae_relationship es),
          of_permits = dedupe (concat (map (\<lambda>e. actions (ae_permits e)) es)),
          of_edges = es\<rparr>)"

lemma dedupe_step:
  "distinct out \<Longrightarrow> set (foldl (\<lambda>out v. if v \<notin> set out then out @ [v] else out) out vs) = set out \<union> set vs
    \<and> distinct (foldl (\<lambda>out v. if v \<notin> set out then out @ [v] else out) out vs)"
  by (induction vs arbitrary: out) auto

lemma set_dedupe [simp]: "set (dedupe vs) = set vs"
  and distinct_dedupe [simp]: "distinct (dedupe vs)"
  using dedupe_step [of "[]" vs] by (simp_all add: dedupe_def)

lemma set_edgesFor:
  "set (edgesFor store p r) = {e \<in> set (edges (store_graph store)). p = Some (ae_principal e) \<and> r = Some (ae_resource e)}"
  by (cases p; cases r) auto

text \<open>The ownership fact is exactly what the graph says about the two resource references of the
  envelope: an edge counts if and only if it joins them, a principal or resource that is not named
  gives no authority at all, and the relationships and permitted actions are those of the counted
  edges, each once.\<close>

lemma resolveOwnership_exact:
  "let f = resolveOwnership store envelope refKeys;
       joining = {e \<in> set (edges (store_graph store)).
          of_principal f = Some (ae_principal e) \<and> of_resource f = Some (ae_resource e)}
   in set (of_edges f) = joining \<and> (of_bound f = (joining \<noteq> {}))
      \<and> set (of_relationships f) = ae_relationship ` joining \<and> distinct (of_relationships f)
      \<and> set (of_permits f) = (\<Union>e\<in>joining. set (actions (ae_permits e))) \<and> distinct (of_permits f)"
proof -
  let ?f = "resolveOwnership store envelope refKeys"
  have "of_edges ?f = edgesFor store (of_principal ?f) (of_resource ?f)"
    "of_bound ?f = (of_edges ?f \<noteq> [])" "of_relationships ?f = dedupe (map ae_relationship (of_edges ?f))"
    "of_permits ?f = dedupe (concat (map (\<lambda>e. actions (ae_permits e)) (of_edges ?f)))"
    by (simp_all add: resolveOwnership_def Let_def)
  moreover from this(1) have "set (of_edges ?f) = {e \<in> set (edges (store_graph store)).
      of_principal ?f = Some (ae_principal e) \<and> of_resource ?f = Some (ae_resource e)}" by (simp add: set_edgesFor)
  ultimately show ?thesis unfolding Let_def by (auto simp flip: set_empty)
qed

text \<open>Replaying from a recorded authority snapshot is faithful: what was recorded comes back as
  the store of the recorded graph, and a recorded graph that was changed afterwards is accepted
  only if it still has the same canonical form (or the digest collides).\<close>

lemma authority_snapshot_roundtrip:
  assumes "recordAuthoritySnapshot sha g = Inr rec"
  shows "authorityGraphStoreFromRecorded sha rec = Inr (createAuthorityGraphStore g)
    \<and> (authorityGraphStoreFromRecorded sha (rec\<lparr>graph := g'\<rparr>) = Inr store
        \<longrightarrow> \<not> collision sha (graph_js g) (graph_js g')
        \<longrightarrow> canonicalize (graph_js g') = canonicalize (graph_js g) \<and> store = createAuthorityGraphStore g')"
proof -
  from assms obtain h where h: "sha256Canonical sha (graph_js g) = Inr h"
    and rec: "rec = \<lparr>graph = g, snapshotHash = h\<rparr>"
    by (auto simp: recordAuthoritySnapshot_def mapR_Inr hashAuthorityGraph_def sha256SnapshotCanonical_def)
  then show ?thesis
    using sha256Canonical_inject [of sha "graph_js g" "graph_js g'" h]
    by (auto simp: authorityGraphStoreFromRecorded_def hashAuthorityGraph_def
        sha256SnapshotCanonical_def bindR_Inr split: if_split_asm)
qed

lemma authority_snapshot_roundtrip_witness:
  "\<exists>rec. recordAuthoritySnapshot (\<lambda>s. s)
      \<lparr>edges = [\<lparr>ae_principal = ''p'', ae_relationship = owns, ae_resource = ''r'',
         ae_permits = \<lparr>actions = [''pay''], limits = None\<rparr>\<rparr>]\<rparr> = Inr rec
    \<and> authorityGraphStoreFromRecorded (\<lambda>s. s) rec = Inr (createAuthorityGraphStore (graph rec))"
proof -
  let ?g = "\<lparr>edges = [\<lparr>ae_principal = ''p'', ae_relationship = owns, ae_resource = ''r'',
         ae_permits = \<lparr>actions = [''pay''], limits = None\<rparr>\<rparr>]\<rparr>"
  obtain rec where rec: "recordAuthoritySnapshot (\<lambda>s. s) ?g = Inr rec"
    by (simp add: recordAuthoritySnapshot_def hashAuthorityGraph_def sha256SnapshotCanonical_def
        sha256Canonical_def canonicalJson_def graph_js_def edge_js_def permits_js_def canonicalize_Obj
        by_key_def obj_put_def is_index_key_def is_digit_def JSON_stringify_def)
  then have "graph rec = ?g" by (auto simp: recordAuthoritySnapshot_def mapR_Inr)
  with rec authority_snapshot_roundtrip [OF rec] show ?thesis by metis
qed

end
