(* ===== verification/Policy.thy ===== *)
theory Policy
  imports Decision
begin

text \<open>
  Guards, their metadata and the policy bundle (packages/core/src/kernel/policy.ts), and the guard
  combinators (combinators.ts). A guard is adopter code: a deterministic function of the envelope
  and the state that returns a decision, abstains (\<open>null\<close>, here \<open>None\<close>) or throws. It is also
  a function object: it has a \<open>name\<close> and carries the metadata and code-artifact slots.
\<close>

datatype GuardDescription =
    desc_threshold jnum string "DecisionKind option"
  | desc_state_defer string int
  | desc_system_taint "string list"
  | desc_rewrite "string list"
  | desc_data_classification string DecisionKind "string list"
  | desc_opaque "string option"

text \<open>
  The value of a metadata field: \<open>undefined\<close>, a string, or a description object, which has an
  identity (\<open>===\<close> on objects compares identities).
\<close>

datatype meta_value = MUndef | MStr string | MDesc nat GuardDescription

fun strict_eq :: "meta_value \<Rightarrow> meta_value \<Rightarrow> bool" where
  "strict_eq MUndef MUndef = True"
| "strict_eq (MStr a) (MStr b) = (a = b)"
| "strict_eq (MDesc i _) (MDesc j _) = (i = j)"
| "strict_eq _ _ = False"

type_synonym GuardMetadata = "(string \<times> meta_value) list"

record GuardCodeArtifact =
  caps :: "(string \<times> jnum) list option"
  art_source :: "string option"

record 's Guard =
  g_call :: "IntentEnvelope \<Rightarrow> 's \<Rightarrow> Decision option result"
  g_fnName :: string
  g_metadata :: "GuardMetadata option"
  g_artifact :: "GuardCodeArtifact option"

datatype PolicyDefault = default_REFUSE | default_EXECUTE

record 's PolicyBundle =
  stateGuards :: "'s Guard list"
  authGuards :: "'s Guard list"
  taint_policy :: TaintPolicy
  business :: "'s Guard list"
  policy_default :: PolicyDefault

subsection \<open>Metadata\<close>

text \<open>
  \<open>withMetadata\<close> creates the slot if there is none, then defines the given fields one by one;
  a throw leaves the fields defined before it in place, as the slot is mutated.
\<close>

definition meta_error :: "string \<Rightarrow> thrown" where
  "meta_error msg = ErrorObj ''TypeError'' (''withMetadata: '' @ msg)"

fun put_fields :: "GuardMetadata \<Rightarrow> GuardMetadata \<Rightarrow> unit result \<times> GuardMetadata" where
  "put_fields [] slot = (Inr (), slot)"
| "put_fields ((key, v) # rest) slot =
     (if v = MUndef then put_fields rest slot
      else if key = ''name'' \<and> v = MStr []
      then (Inl (meta_error (CHR 0x27 # ''name'' @ [CHR 0x27]
                   @ '' must be a non-empty string (empty string passed).'')), slot)
      else case map_of slot key of
        Some existing \<Rightarrow>
          if strict_eq existing v then put_fields rest slot
          else (Inl (meta_error (''refusing to overwrite metadata field '' @ [CHR 0x27] @ key @ [CHR 0x27]
                 @ '' on guard (existing value differs from new value).'')), slot)
      | None \<Rightarrow> put_fields rest (slot @ [(key, v)]))"

definition withMetadata :: "'s Guard \<Rightarrow> GuardMetadata \<Rightarrow> unit result \<times> 's Guard" where
  "withMetadata guard metadata =
     (let slot = (case g_metadata guard of None \<Rightarrow> [] | Some s \<Rightarrow> s);
          (r, slot') = put_fields metadata slot
      in (r, guard\<lparr>g_metadata := Some slot'\<rparr>))"

definition readGuardMetadata :: "'s Guard \<Rightarrow> GuardMetadata option" where
  "readGuardMetadata guard = g_metadata guard"

definition nameGuard :: "string \<Rightarrow> 's Guard \<Rightarrow> unit result \<times> 's Guard" where
  "nameGuard n guard = withMetadata guard [(''name'', MStr n)]"

definition metadata_name :: "'s Guard \<Rightarrow> string option" where
  "metadata_name guard = (case readGuardMetadata guard of None \<Rightarrow> None
     | Some slot \<Rightarrow> (case map_of slot ''name'' of Some (MStr n) \<Rightarrow> Some n | _ \<Rightarrow> None))"

text \<open>
  \<open>JSON.stringify(caps ?? null)\<close>; a cap is a number, so it never throws.
\<close>

definition caps_json :: "(string \<times> jnum) list option \<Rightarrow> string" where
  "caps_json c = (case c of None \<Rightarrow> stringify Null | Some ns \<Rightarrow> stringify (numbers_js ns))"

definition attachGuardCodeArtifact :: "'s Guard \<Rightarrow> GuardCodeArtifact \<Rightarrow> 's Guard result" where
  "attachGuardCodeArtifact guard artifact =
     (case g_artifact guard of
        Some existing \<Rightarrow>
          if caps_json (caps existing) = caps_json (caps artifact) \<and> art_source existing = art_source artifact
          then Inr guard
          else Inl (ErrorObj ''TypeError''
            ''attachGuardCodeArtifact: refusing to overwrite an existing, differing code artifact on guard.'')
      | None \<Rightarrow> Inr (guard\<lparr>g_artifact := Some artifact\<rparr>))"

definition readGuardCodeArtifact :: "'s Guard \<Rightarrow> GuardCodeArtifact option" where
  "readGuardCodeArtifact guard = g_artifact guard"

subsection \<open>Combinators\<close>

fun first_match :: "'s Guard list \<Rightarrow> IntentEnvelope \<Rightarrow> 's \<Rightarrow> Decision option result" where
  "first_match [] envelope st = Inr None"
| "first_match (g # gs) envelope st =
     bindR (g_call g envelope st) (\<lambda>d. case d of Some x \<Rightarrow> Inr (Some x) | None \<Rightarrow> first_match gs envelope st)"

definition anonymous_guard :: "(IntentEnvelope \<Rightarrow> 's \<Rightarrow> Decision option result) \<Rightarrow> 's Guard" where
  "anonymous_guard f = \<lparr>g_call = f, g_fnName = [], g_metadata = None, g_artifact = None\<rparr>"

definition allOf :: "'s Guard list \<Rightarrow> 's Guard" where
  "allOf guards = anonymous_guard (first_match guards)"

definition constant_guard :: "Decision \<Rightarrow> 's Guard" where
  "constant_guard decision = anonymous_guard (\<lambda>envelope st. Inr (Some decision))"

lemma anonymous_guard_call [simp]: "g_call (anonymous_guard f) = f"
  by (simp add: anonymous_guard_def)

text \<open>The guards of a list that abstain before the first that does not, and that one.\<close>

definition abstains :: "IntentEnvelope \<Rightarrow> 's \<Rightarrow> 's Guard \<Rightarrow> bool" where
  "abstains envelope st g = (g_call g envelope st = Inr None)"

lemma first_match_abstain:
  "list_all (abstains envelope st) gs \<Longrightarrow> first_match gs envelope st = Inr None"
  by (induction gs) (auto simp: abstains_def)

lemma first_match_append:
  "first_match (gs @ hs) envelope st =
     bindR (first_match gs envelope st) (\<lambda>d. case d of Some x \<Rightarrow> Inr (Some x) | None \<Rightarrow> first_match hs envelope st)"
proof (induction gs)
  case (Cons g gs)
  then show ?case by (cases "g_call g envelope st") (auto split: option.splits)
qed simp

text \<open>Combinators compose: \<open>allOf\<close> over guards that are themselves \<open>allOf\<close> groups behaves as one
  \<open>allOf\<close> over all the guards in order, throws included.\<close>

lemma allOf_nested:
  "g_call (allOf (map allOf gss)) envelope st = g_call (allOf (concat gss)) envelope st"
  unfolding allOf_def
  by (induction gss) (simp_all add: first_match_append)

subsection \<open>Attached metadata never changes\<close>

lemma put_fields_keeps:
  "put_fields md slot = (r, slot') \<Longrightarrow> map_of slot k = Some v \<Longrightarrow> map_of slot' k = Some v"
proof (induction md slot arbitrary: r slot' rule: put_fields.induct)
  case (2 key v' rest slot)
  have app: "map_of (slot @ [(key, v')]) k = Some v" using 2(5) by (simp add: map_add_def)
  show ?case
    using 2 app by (auto split: if_split_asm option.split_asm)
qed simp

text \<open>Metadata is write-once: whatever later attachments are made to a guard, whether they succeed
  or throw, a field that was attached keeps its value, and so does the guard's behaviour.\<close>

lemma withMetadata_write_once:
  fixes mds
  assumes "g_metadata guard = Some slot" "map_of slot k = Some v"
  defines "guard' \<equiv> foldl (\<lambda>g md. snd (withMetadata g md)) guard mds"
  shows "(\<exists>slot'. g_metadata guard' = Some slot' \<and> map_of slot' k = Some v) \<and> g_call guard' = g_call guard"
proof -
  have "(\<exists>slot'. g_metadata g' = Some slot' \<and> map_of slot' k = Some v) \<and> g_call g' = g_call g"
    if "g_metadata g = Some s" "map_of s k = Some v"
      "g' = foldl (\<lambda>g md. snd (withMetadata g md)) g mds" for g g' s
    using that
  proof (induction mds arbitrary: g s)
    case (Cons md mds)
    obtain r s' where put: "put_fields md s = (r, s')" by (cases "put_fields md s")
    have "map_of s' k = Some v" by (rule put_fields_keeps [OF put Cons.prems(2)])
    moreover have g1: "snd (withMetadata g md) = g\<lparr>g_metadata := Some s'\<rparr>"
      by (simp add: withMetadata_def Cons.prems(1) put)
    ultimately show ?case
      using Cons.IH [of "snd (withMetadata g md)" s'] Cons.prems(3) by simp
  qed simp
  from this [OF assms(1,2)] show ?thesis by (simp add: guard'_def)
qed

lemma withMetadata_write_once_witness:
  "let g = snd (nameGuard ''first'' (constant_guard (Execute [])));
       g' = snd (withMetadata g [(''name'', MStr ''second''), (''author'', MStr ''me'')])
   in metadata_name g' = Some ''first''"
  using withMetadata_write_once
    [of "snd (nameGuard ''first'' (constant_guard (Execute [])))" "[(''name'', MStr ''first'')]" "''name''"
      "MStr ''first''" "[[(''name'', MStr ''second''), (''author'', MStr ''me'')]]"]
  by (auto simp: nameGuard_def withMetadata_def constant_guard_def anonymous_guard_def metadata_name_def
      readGuardMetadata_def)

end
