(* ===== verification/KillSwitch.thy ===== *)
theory KillSwitch
  imports Prelude
begin

text \<open>
  The kill switch, once as module state (packages/core/src/kernel/enforce-config.ts) and once per
  runtime context (runtime-context.ts), and the per-intent shadow and enforce lists of both files.
  The environment is a map from variable names to strings.
\<close>

type_synonym env = "string \<rightharpoonup> string"

record KillSwitchState =
  active :: bool
  reason :: string
  toggledAt :: string

definition INERT_STATE :: KillSwitchState where
  "INERT_STATE = \<lparr>active = False, reason = [], toggledAt = ''1970-01-01T00:00:00.000Z''\<rparr>"

definition envIsActive :: "string option \<Rightarrow> bool" where
  "envIsActive raw = (case raw of None \<Rightarrow> False
     | Some r \<Rightarrow> (let v = trim (toLowerCase r) in v = ''1'' \<or> v = ''true'' \<or> v = ''yes'' \<or> v = ''on''))"

subsection \<open>The control of a runtime context\<close>

record KillSwitchInternals =
  ks_state :: KillSwitchState
  envSeeded :: bool
  envVar :: string

definition makeKillSwitchControl :: "string \<Rightarrow> KillSwitchInternals" where
  "makeKillSwitchControl var = \<lparr>ks_state = INERT_STATE, envSeeded = False, envVar = var\<rparr>"

definition ensureSeeded :: "env \<Rightarrow> KillSwitchInternals \<Rightarrow> KillSwitchInternals" where
  "ensureSeeded env inner =
     (if envSeeded inner then inner
      else let inner' = inner\<lparr>envSeeded := True\<rparr> in
        if envIsActive (env (envVar inner))
        then inner'\<lparr>ks_state := \<lparr>active = True, reason = ''env: '' @ envVar inner,
               toggledAt = ''1970-01-01T00:00:00.000Z''\<rparr>\<rparr>
        else inner')"

definition ctl_isKilled :: "env \<Rightarrow> KillSwitchInternals \<Rightarrow> bool \<times> KillSwitchInternals" where
  "ctl_isKilled envSeed inner =
     (let inner' = ensureSeeded envSeed inner in (active (ks_state inner'), inner'))"

definition ctl_state :: "env \<Rightarrow> KillSwitchInternals \<Rightarrow> KillSwitchState \<times> KillSwitchInternals" where
  "ctl_state envSeed inner = (let inner' = ensureSeeded envSeed inner in (ks_state inner', inner'))"

definition ctl_set :: "string \<Rightarrow> bool \<Rightarrow> string \<Rightarrow> KillSwitchInternals \<Rightarrow> KillSwitchInternals" where
  "ctl_set nowIso a r inner =
     inner\<lparr>envSeeded := True, ks_state := \<lparr>active = a, reason = r, toggledAt = nowIso\<rparr>\<rparr>"

definition reseedFromEnv ::
  "env \<Rightarrow> env option \<Rightarrow> KillSwitchInternals \<Rightarrow> KillSwitchState \<times> KillSwitchInternals" where
  "reseedFromEnv envSeed env inner =
     (let inner' = ensureSeeded (case env of Some e \<Rightarrow> e | None \<Rightarrow> envSeed) (inner\<lparr>envSeeded := False\<rparr>)
      in (ks_state inner', inner'))"

subsection \<open>The module state\<close>

record KillSwitchModule =
  killSwitch :: KillSwitchState
  killSwitchSeededFromEnv :: bool

definition initialKillSwitch :: KillSwitchModule where
  "initialKillSwitch = \<lparr>killSwitch = INERT_STATE, killSwitchSeededFromEnv = False\<rparr>"

definition killSwitchEnvActive :: "env \<Rightarrow> bool" where
  "killSwitchEnvActive env = (case env ''IBX_KILL_SWITCH'' of None \<Rightarrow> False
     | Some raw \<Rightarrow> (let v = trim (toLowerCase raw) in v = ''1'' \<or> v = ''true'' \<or> v = ''yes'' \<or> v = ''on''))"

definition KILL_SWITCH_ENV_SEED_AT :: string where
  "KILL_SWITCH_ENV_SEED_AT = ''1970-01-01T00:00:00.000Z''"

definition ensureKillSwitchSeeded :: "env \<Rightarrow> KillSwitchModule \<Rightarrow> KillSwitchModule" where
  "ensureKillSwitchSeeded env m =
     (if killSwitchSeededFromEnv m then m
      else let m' = m\<lparr>killSwitchSeededFromEnv := True\<rparr> in
        if killSwitchEnvActive env
        then m'\<lparr>killSwitch := \<lparr>active = True, reason = ''env: IBX_KILL_SWITCH'',
               toggledAt = KILL_SWITCH_ENV_SEED_AT\<rparr>\<rparr>
        else m')"

definition setKillSwitch :: "string \<Rightarrow> bool \<Rightarrow> string \<Rightarrow> KillSwitchModule \<Rightarrow> KillSwitchModule" where
  "setKillSwitch nowIso a r m =
     m\<lparr>killSwitchSeededFromEnv := True, killSwitch := \<lparr>active = a, reason = r, toggledAt = nowIso\<rparr>\<rparr>"

definition isKilled :: "env \<Rightarrow> KillSwitchModule \<Rightarrow> bool \<times> KillSwitchModule" where
  "isKilled env m = (let m' = ensureKillSwitchSeeded env m in (active (killSwitch m'), m'))"

definition getKillSwitchState :: "env \<Rightarrow> KillSwitchModule \<Rightarrow> KillSwitchState \<times> KillSwitchModule" where
  "getKillSwitchState env m = (let m' = ensureKillSwitchSeeded env m in (killSwitch m', m'))"

definition resetKillSwitch :: "KillSwitchModule \<Rightarrow> KillSwitchModule" where
  "resetKillSwitch m = initialKillSwitch"

subsection \<open>The contract of a kill switch\<close>

text \<open>
  The interface the kernel relies on: a read that may seed, the reported state, and a manual toggle
  stamped with the time. Reads agree with the state and are stable; a toggle decides what the
  following reads return, whatever environment they are given.
\<close>

locale kill_switch =
  fixes read_killed :: "env \<Rightarrow> 's \<Rightarrow> bool \<times> 's"
    and read_state :: "env \<Rightarrow> 's \<Rightarrow> KillSwitchState \<times> 's"
    and toggle :: "string \<Rightarrow> bool \<Rightarrow> string \<Rightarrow> 's \<Rightarrow> 's"
  assumes killed_state: "read_killed env s = (active (fst (read_state env s)), snd (read_state env s))"
    and stable: "read_state env' (snd (read_state env s)) = read_state env s"
    and toggled: "read_state env (toggle t a r s)
      = (\<lparr>active = a, reason = r, toggledAt = t\<rparr>, toggle t a r s)"
begin

fun reads :: "env list \<Rightarrow> 's \<Rightarrow> bool list \<times> 's" where
  "reads [] s = ([], s)"
| "reads (e # es) s = (let (b, s') = read_killed e s; (bs, s'') = reads es s' in (b # bs, s''))"

lemma reads_after_toggle:
  "reads es (toggle t a r s) = (replicate (length es) a, toggle t a r s)"
proof (induction es)
  case (Cons e es)
  have "read_killed e (toggle t a r s) = (a, toggle t a r s)"
    by (simp add: killed_state toggled)
  with Cons show ?case by simp
qed simp

lemma reads_after_read:
  "reads es (snd (read_state env s))
     = (replicate (length es) (active (fst (read_state env s))), snd (read_state env s))"
proof (induction es)
  case (Cons e es)
  have "read_killed e (snd (read_state env s)) = (active (fst (read_state env s)), snd (read_state env s))"
    by (simp add: killed_state stable)
  with Cons show ?case by simp
qed simp

end

interpretation ctl: kill_switch ctl_isKilled ctl_state ctl_set
  by unfold_locales
    (auto simp: ctl_isKilled_def ctl_state_def ctl_set_def ensureSeeded_def Let_def)

interpretation ks: kill_switch isKilled getKillSwitchState setKillSwitch
  by unfold_locales
    (auto simp: isKilled_def getKillSwitchState_def setKillSwitch_def ensureKillSwitchSeeded_def Let_def)

text \<open>The two spellings of the environment test agree.\<close>

lemma killSwitchEnvActive_envIsActive: "killSwitchEnvActive env = envIsActive (env ''IBX_KILL_SWITCH'')"
  by (simp add: killSwitchEnvActive_def envIsActive_def)

text \<open>A manual toggle has precedence over the environment: after it, every read of the module-level
  switch returns the toggled value, whatever environments are passed, and leaves the state as it is;
  before any toggle, the first read's environment decides all later ones.\<close>

lemma setKillSwitch_precedence:
  "ks.reads es (setKillSwitch t a r m) = (replicate (length es) a, setKillSwitch t a r m)
   \<and> fst (ks.reads (e # es) initialKillSwitch) = replicate (Suc (length es)) (killSwitchEnvActive e)"
proof
  show "ks.reads es (setKillSwitch t a r m) = (replicate (length es) a, setKillSwitch t a r m)"
    by (rule ks.reads_after_toggle)
  have "isKilled e initialKillSwitch
      = (killSwitchEnvActive e, snd (getKillSwitchState e initialKillSwitch))"
    "active (fst (getKillSwitchState e initialKillSwitch)) = killSwitchEnvActive e"
    by (simp_all add: isKilled_def getKillSwitchState_def ensureKillSwitchSeeded_def
        initialKillSwitch_def INERT_STATE_def Let_def)
  then show "fst (ks.reads (e # es) initialKillSwitch) = replicate (Suc (length es)) (killSwitchEnvActive e)"
    by (simp add: ks.reads_after_read)
qed

text \<open>Re-seeding a context's switch from the environment is one-way: it engages the switch when the
  variable is active and otherwise keeps the state it had, so it never releases an engaged switch.\<close>

lemma reseedFromEnv_never_releases:
  "active (fst (reseedFromEnv envSeed env inner))
     = (envIsActive ((case env of Some e \<Rightarrow> e | None \<Rightarrow> envSeed) (envVar inner)) \<or> active (ks_state inner))"
  by (simp add: reseedFromEnv_def ensureSeeded_def Let_def)

subsection \<open>Shadow and enforce lists\<close>

record ParsedList =
  wildcard :: bool
  kinds :: "string list"

definition parseList :: "string option \<Rightarrow> ParsedList" where
  "parseList raw = (case raw of None \<Rightarrow> \<lparr>wildcard = False, kinds = []\<rparr>
     | Some r \<Rightarrow> if r = [] then \<lparr>wildcard = False, kinds = []\<rparr>
       else let parts = filter (\<lambda>p. length p > 0) (map trim (split_on (CHR '','') r)) in
         if ''*'' \<in> set parts then \<lparr>wildcard = True, kinds = remdups (filter (\<lambda>p. p \<noteq> ''*'') parts)\<rparr>
         else \<lparr>wildcard = False, kinds = remdups parts\<rparr>)"

record EnforceConfig =
  shadowVar :: string
  enforceVar :: string
  snapshotShadow :: "string option"
  snapshotEnforce :: "string option"
  shadow :: "ParsedList option"
  enforce :: "ParsedList option"

definition makeEnforceConfig :: "string \<Rightarrow> string \<Rightarrow> EnforceConfig" where
  "makeEnforceConfig sv ev = \<lparr>shadowVar = sv, enforceVar = ev, snapshotShadow = None,
     snapshotEnforce = None, shadow = None, enforce = None\<rparr>"

definition ensureLoaded :: "env \<Rightarrow> EnforceConfig \<Rightarrow> EnforceConfig" where
  "ensureLoaded env c =
     (let s = env (shadowVar c); e = env (enforceVar c) in
      if shadow c \<noteq> None \<and> snapshotShadow c = s \<and> snapshotEnforce c = e then c
      else c\<lparr>snapshotShadow := s, snapshotEnforce := e, shadow := Some (parseList s),
             enforce := Some (parseList e)\<rparr>)"

definition in_list :: "ParsedList option \<Rightarrow> string \<Rightarrow> bool" where
  "in_list l k = (case l of None \<Rightarrow> False | Some p \<Rightarrow> wildcard p \<or> k \<in> set (kinds p))"

definition isShadowed :: "env \<Rightarrow> string \<Rightarrow> EnforceConfig \<Rightarrow> bool \<times> EnforceConfig" where
  "isShadowed env k c = (let c' = ensureLoaded env c in (in_list (shadow c') k, c'))"

definition isEnforced :: "env \<Rightarrow> string \<Rightarrow> EnforceConfig \<Rightarrow> bool \<times> EnforceConfig" where
  "isEnforced env k c = (let c' = ensureLoaded env c in (in_list (enforce c') k, c'))"

definition resetEnforceConfig :: "EnforceConfig \<Rightarrow> EnforceConfig" where
  "resetEnforceConfig c =
     c\<lparr>shadow := None, enforce := None, snapshotShadow := None, snapshotEnforce := None\<rparr>"

text \<open>The cache is coherent when what is loaded is the parse of what was snapshot.\<close>

definition coherent :: "EnforceConfig \<Rightarrow> bool" where
  "coherent c \<longleftrightarrow> (shadow c = None \<and> enforce c = None)
     \<or> (shadow c = Some (parseList (snapshotShadow c)) \<and> enforce c = Some (parseList (snapshotEnforce c)))"

lemma coherent_init [simp]: "coherent (makeEnforceConfig sv ev)"
  by (simp add: coherent_def makeEnforceConfig_def)

lemma coherent_reset [simp]: "coherent (resetEnforceConfig c)"
  by (simp add: coherent_def resetEnforceConfig_def)

lemma coherent_ensureLoaded [simp]: "coherent c \<Longrightarrow> coherent (ensureLoaded env c)"
  by (auto simp: coherent_def ensureLoaded_def Let_def)

text \<open>The memoised per-intent lists always answer from the environment they are asked about: in a
  coherent cache a lookup is the membership test in the freshly parsed variable, and every
  operation keeps the cache coherent.\<close>

lemma enforce_config_fresh:
  assumes "coherent c"
  shows "fst (isEnforced env k c) = in_list (Some (parseList (env (enforceVar c)))) k
    \<and> fst (isShadowed env k c) = in_list (Some (parseList (env (shadowVar c)))) k
    \<and> coherent (snd (isEnforced env k c)) \<and> coherent (snd (isShadowed env k c))"
  using assms coherent_ensureLoaded [OF assms, of env]
  by (auto simp: isEnforced_def isShadowed_def Let_def ensureLoaded_def coherent_def)

lemma enforce_config_fresh_witness:
  "coherent (makeEnforceConfig ''S'' ''E'')
   \<and> fst (isEnforced [''E'' \<mapsto> '' pay , * ''] ''refund'' (makeEnforceConfig ''S'' ''E''))"
proof -
  let ?env = "[''E'' \<mapsto> '' pay , * '']"
  have "in_list (Some (parseList (?env (enforceVar (makeEnforceConfig ''S'' ''E''))))) ''refund''"
    by (simp add: in_list_def parseList_def makeEnforceConfig_def trim_def is_js_space_def)
  then show ?thesis
    using enforce_config_fresh [OF coherent_init, of ?env "''refund''" "''S''" "''E''"] by simp
qed

subsection \<open>The start-up check of the lists\<close>

text \<open>
  The check returns the unknown tokens and, as the events it emits on the way, one warning and one
  sink-failure record for each variable that has any.
\<close>

record EnforceConfigValidation =
  unknownShadow :: "string list"
  unknownEnforce :: "string list"

datatype config_event = WarnMsg string | SinkFailure string string string nat

definition unknown_tokens :: "string list \<Rightarrow> ParsedList \<Rightarrow> string list" where
  "unknown_tokens knownIntents l =
     (if wildcard l then [] else filter (\<lambda>k. k \<notin> set knownIntents) (kinds l))"

definition typo_events :: "string \<Rightarrow> string \<Rightarrow> string list \<Rightarrow> config_event list" where
  "typo_events var subject unknown =
     (if length unknown > 0 then
        [WarnMsg (''[adjudicate] '' @ var @ '' contains unrecognized intents: '' @ join '', '' unknown
           @ ''. These tokens will silently leave their intent on the legacy path.''),
         SinkFailure ''console'' (subject @ join '','' unknown) ''enforce_config_typo'' 1]
      else [])"

definition validateEnforceConfig ::
  "string list \<Rightarrow> env \<Rightarrow> EnforceConfigValidation \<times> config_event list" where
  "validateEnforceConfig knownIntents env =
     (let us = unknown_tokens knownIntents (parseList (env ''IBX_KERNEL_SHADOW''));
          ue = unknown_tokens knownIntents (parseList (env ''IBX_KERNEL_ENFORCE''))
      in (\<lparr>unknownShadow = us, unknownEnforce = ue\<rparr>,
          typo_events ''IBX_KERNEL_SHADOW'' ''enforce-config:shadow:'' us
          @ typo_events ''IBX_KERNEL_ENFORCE'' ''enforce-config:enforce:'' ue))"

end
