(* ===== verification/Kernel.thy ===== *)
theory Kernel
  imports Policy KillSwitch
begin

text \<open>
  The kernel (packages/core/src/kernel/adjudicate.ts): one pass over kill switch, schema, state
  guards, taint gate, auth guards, business guards and the default, with the fail-closed panic
  refusal, the gate on rewritten envelopes and the trace. A phase either returns a decision or
  hands the accumulated pass bases to the next phase.
\<close>

datatype AdjudicationTracePhase =
    ph_kill | ph_schema | ph_state | ph_taint | ph_auth | ph_business | ph_default

fun phase_name :: "AdjudicationTracePhase \<Rightarrow> string" where
  "phase_name ph_kill = ''kill''"
| "phase_name ph_schema = ''schema''"
| "phase_name ph_state = ''state''"
| "phase_name ph_taint = ''taint''"
| "phase_name ph_auth = ''auth''"
| "phase_name ph_business = ''business''"
| "phase_name ph_default = ''default''"

datatype outcome = Pass | Match

record AdjudicationTraceEntry =
  t_phase :: AdjudicationTracePhase
  t_index :: "nat option"
  t_guardName :: "string option"
  t_outcome :: outcome

type_synonym traceOut = "AdjudicationTraceEntry list option"

definition push :: "AdjudicationTraceEntry \<Rightarrow> traceOut \<Rightarrow> traceOut" where
  "push e tr = map_option (\<lambda>t. t @ [e]) tr"

definition entry :: "AdjudicationTracePhase \<Rightarrow> outcome \<Rightarrow> AdjudicationTraceEntry" where
  "entry p o' = \<lparr>t_phase = p, t_index = None, t_guardName = None, t_outcome = o'\<rparr>"

definition resolved_name :: "'s Guard \<Rightarrow> string option" where
  "resolved_name guard =
     (let n = (case metadata_name guard of Some m \<Rightarrow> m | None \<Rightarrow> g_fnName guard)
      in if length n > 0 then Some n else None)"

definition traceEntry ::
  "AdjudicationTracePhase \<Rightarrow> nat \<Rightarrow> 's Guard \<Rightarrow> outcome \<Rightarrow> AdjudicationTraceEntry" where
  "traceEntry p i guard o' =
     \<lparr>t_phase = p, t_index = Some i, t_guardName = resolved_name guard, t_outcome = o'\<rparr>"

subsection \<open>Panics, rewrites and merged bases\<close>

definition guardPanicRefusal ::
  "AdjudicationTracePhase \<Rightarrow> nat option \<Rightarrow> 's Guard option \<Rightarrow> thrown \<Rightarrow> DecisionBasis list \<Rightarrow> Decision" where
  "guardPanicRefusal p guardIndex guard err accumulated =
     (let message = err_message err; errorName = err_name err;
          guardName = (case guard of None \<Rightarrow> None | Some g \<Rightarrow> resolved_name g)
      in decisionRefuse
        (refuse SECURITY_REFUSAL ''guard_panic'' ''System is temporarily unavailable.''
          (Some (''Guard panic in '' @ phase_name p @ '' phase''
             @ (case guardIndex of None \<Rightarrow> [] | Some i \<Rightarrow> ''['' @ show_nat i @ '']'')
             @ (case guardName of None \<Rightarrow> [] | Some n \<Rightarrow> '' ('' @ n @ '')'')
             @ '': '' @ errorName @ '': '' @ message)))
        (accumulated @ [basis cat_kernel ''guard_panic'' (Some (Obj
           ([(''phase'', Str (phase_name p))]
            @ (case guardIndex of None \<Rightarrow> [] | Some i \<Rightarrow> [(''index'', num (int i))])
            @ (case guardName of None \<Rightarrow> [] | Some n \<Rightarrow> [(''guardName'', Str n)])
            @ [(''errorName'', Str errorName), (''message'', Str message)])))]))"

definition gateRewrite :: "(string \<Rightarrow> string) \<Rightarrow> Decision \<Rightarrow> IntentEnvelope \<Rightarrow> Decision" where
  "gateRewrite sha decision envelope =
     (case decision of
        Rewrite rewritten why b \<Rightarrow>
          (case deriveIntentHash sha rewritten of
             Inl err \<Rightarrow> guardPanicRefusal ph_schema None (None :: unit Guard option) err []
           | Inr d \<Rightarrow>
               if d \<noteq> e_intentHash rewritten then
                 decisionRefuse
                   (refuse SECURITY_REFUSAL ''intent_hash_mismatch''
                     ''This action cannot be processed at the moment.''
                     (Some ''decision.rewritten.intentHash does not match the canonical content hash''))
                   [basis cat_schema ''intent_hash_mismatch'' (Some (Obj [(''subject'', Str ''rewritten'')]))]
               else if taintRank (e_taint rewritten) > taintRank (e_taint envelope) then
                 decisionRefuse
                   (refuse SECURITY_REFUSAL ''taint_level_insufficient''
                     (''I can'' @ [CHR 0x27] @ ''t perform this action with the information available.'')
                     (Some (''Rewrite would elevate taint '' @ taint_name (e_taint envelope) @ '' -> ''
                        @ taint_name (e_taint rewritten))))
                   [basis cat_taint ''propagation_violation'' (Some (Obj
                      [(''original'', Str (taint_name (e_taint envelope))),
                       (''rewritten'', Str (taint_name (e_taint rewritten)))]))]
               else decision)
      | _ \<Rightarrow> decision)"

fun enrichBasis :: "Decision \<Rightarrow> DecisionBasis list \<Rightarrow> Decision" where
  "enrichBasis (Execute b) passed = Execute (passed @ b)"
| "enrichBasis (Refuse r b) passed = Refuse r (passed @ b)"
| "enrichBasis (Escalate t why b) passed = Escalate t why (passed @ b)"
| "enrichBasis (RequestConfirmation p b) passed = RequestConfirmation p (passed @ b)"
| "enrichBasis (Defer s t b) passed = Defer s t (passed @ b)"
| "enrichBasis (Rewrite e why b) passed = Rewrite e why (passed @ b)"

subsection \<open>The phases\<close>

text \<open>\<open>Inl\<close>: the phase returned a decision. \<open>Inr\<close>: the bases accumulated for the next phase.\<close>

type_synonym phase_result = "(Decision + DecisionBasis list) \<times> traceOut"

definition next_phase ::
  "phase_result \<Rightarrow> (DecisionBasis list \<Rightarrow> traceOut \<Rightarrow> Decision \<times> traceOut) \<Rightarrow> Decision \<times> traceOut" where
  "next_phase r f = (case r of (Inl d, tr) \<Rightarrow> (d, tr) | (Inr acc, tr) \<Rightarrow> f acc tr)"

definition phaseSchema ::
  "(string \<Rightarrow> string) \<Rightarrow> IntentEnvelope \<Rightarrow> DecisionBasis list \<Rightarrow> traceOut \<Rightarrow> phase_result" where
  "phaseSchema sha envelope acc tr =
     (if e_version envelope \<noteq> INTENT_ENVELOPE_VERSION then
        (Inl (decisionRefuse
           (refuse SECURITY_REFUSAL ''schema_version_unsupported''
              ''This action cannot be processed at the moment.''
              (Some (''Unknown envelope version: '' @ show_int (e_version envelope))))
           [basis cat_schema ''version_unsupported'' (Some (Obj
              [(''seen'', num (e_version envelope)), (''supported'', num INTENT_ENVELOPE_VERSION)]))]),
         push (entry ph_schema Match) tr)
      else
        let tr' = push (entry ph_schema Pass) tr;
            acc' = acc @ [basis cat_schema ''version_supported'' None]
        in (case deriveIntentHash sha envelope of
              Inl err \<Rightarrow> (Inl (guardPanicRefusal ph_schema None (None :: unit Guard option) err acc'),
                          push (entry ph_schema Match) tr')
            | Inr d \<Rightarrow>
                if d \<noteq> e_intentHash envelope then
                  (Inl (decisionRefuse
                     (refuse SECURITY_REFUSAL ''intent_hash_mismatch''
                        ''This action cannot be processed at the moment.''
                        (Some ''envelope.intentHash does not match the canonical content hash''))
                     (acc' @ [basis cat_schema ''intent_hash_mismatch'' None])),
                   push (entry ph_schema Match) tr')
                else (Inr acc', tr')))"

fun guard_loop ::
  "(string \<Rightarrow> string) \<Rightarrow> AdjudicationTracePhase \<Rightarrow> nat \<Rightarrow> 's Guard list \<Rightarrow> IntentEnvelope \<Rightarrow> 's \<Rightarrow>
     DecisionBasis list \<Rightarrow> traceOut \<Rightarrow> phase_result" where
  "guard_loop sha p i [] envelope st acc tr = (Inr acc, tr)"
| "guard_loop sha p i (guard # guards) envelope st acc tr =
     (case g_call guard envelope st of
        Inl err \<Rightarrow> (Inl (guardPanicRefusal p (Some i) (Some guard) err acc),
                    push (traceEntry p i guard Match) tr)
      | Inr (Some d) \<Rightarrow> (Inl (enrichBasis (gateRewrite sha d envelope) acc),
                         push (traceEntry p i guard Match) tr)
      | Inr None \<Rightarrow> guard_loop sha p (Suc i) guards envelope st acc
                      (push (traceEntry p i guard Pass) tr))"

definition phaseGuards ::
  "(string \<Rightarrow> string) \<Rightarrow> AdjudicationTracePhase \<Rightarrow> PassCategory \<Rightarrow> 's Guard list \<Rightarrow> IntentEnvelope \<Rightarrow> 's \<Rightarrow>
     DecisionBasis list \<Rightarrow> traceOut \<Rightarrow> phase_result" where
  "phaseGuards sha p c guards envelope st acc tr =
     (case guard_loop sha p 0 guards envelope st acc tr of
        (Inl d, tr') \<Rightarrow> (Inl d, tr')
      | (Inr acc', tr') \<Rightarrow> (Inr (acc' @ [makePassBasis c]), tr'))"

text \<open>
  The rank floor and the origin-aware gate are evaluated in one \<open>try\<close>: a throw of the policy in
  either is a panic of the taint phase.
\<close>

definition taintRefusal :: "bool \<Rightarrow> IntentEnvelope \<Rightarrow> DecisionBasis list \<Rightarrow> Decision" where
  "taintRefusal rankAllowed envelope acc =
     (let originBranchFired = rankAllowed;
          propagationCaused = (originBranchFired \<or> isContaminatingOrigin (e_origin envelope));
          code = (if propagationCaused then ''propagation_violation'' else ''level_insufficient'');
          t = taint_name (e_taint envelope); orig = origin_name (e_origin envelope); k = e_kind envelope
      in decisionRefuse
        (refuse SECURITY_REFUSAL ''taint_level_insufficient''
          (''I can'' @ [CHR 0x27] @ ''t perform this action with the information available.'')
          (Some (if originBranchFired
             then ''Origin-required intent kind '' @ k @ '' refused: proposal traces to contaminating origin '' @ orig
             else if propagationCaused
             then ''Contaminated proposal (origin '' @ orig @ '') lowered taint '' @ t
                  @ '' below the minimum for intent kind '' @ k
             else ''Taint '' @ t @ '' insufficient for intent kind '' @ k)))
        (acc @ [basis cat_taint code (Some (Obj
           ([(''actual'', Str t), (''kind'', Str k)]
            @ (if propagationCaused then [(''origin'', Str orig)] else [])
            @ (if originBranchFired then [(''branch'', Str ''origin_required'')] else []))))]))"

definition phaseTaint ::
  "TaintPolicy \<Rightarrow> IntentEnvelope \<Rightarrow> DecisionBasis list \<Rightarrow> traceOut \<Rightarrow> phase_result" where
  "phaseTaint policy envelope acc tr =
     (case bindR (canPropose (e_taint envelope) (e_kind envelope) policy) (\<lambda>rankAllowed.
             mapR (Pair rankAllowed)
               (canProposeWithOrigin (e_taint envelope) (e_kind envelope) (e_origin envelope) policy)) of
        Inl err \<Rightarrow> (Inl (guardPanicRefusal ph_taint None (None :: unit Guard option) err acc),
                    push (entry ph_taint Match) tr)
      | Inr (rankAllowed, taintAllowed) \<Rightarrow>
          if \<not> taintAllowed then
            (Inl (taintRefusal rankAllowed envelope acc), push (entry ph_taint Match) tr)
          else (Inr (acc @ [makePassBasis pass_taint]), push (entry ph_taint Pass) tr))"

definition phaseDefault :: "PolicyDefault \<Rightarrow> DecisionBasis list \<Rightarrow> traceOut \<Rightarrow> Decision \<times> traceOut" where
  "phaseDefault dflt acc tr =
     (case dflt of
         default_EXECUTE \<Rightarrow> decisionExecute acc
       | default_REFUSE \<Rightarrow> decisionRefuse
           (refuse BUSINESS_RULE ''default_deny'' ''This action is not permitted right now.'' None) acc,
      push (entry ph_default Match) tr)"

subsection \<open>Adjudication\<close>

definition killRefusal :: "KillSwitchState \<Rightarrow> Decision" where
  "killRefusal kill = decisionRefuse
     (refuse SECURITY_REFUSAL ''kill_switch_active'' ''System is temporarily unavailable.''
        (Some (''Kill switch active: '' @ reason kill @ '' (toggled at '' @ toggledAt kill @ '')'')))
     [basis cat_kill ''active'' (Some (Obj
        [(''reason'', Str (reason kill)), (''toggledAt'', Str (toggledAt kill))]))]"

definition phaseKill ::
  "env \<Rightarrow> KillSwitchModule \<Rightarrow> traceOut \<Rightarrow> phase_result \<times> KillSwitchModule" where
  "phaseKill env ks tr =
     (let (killed, ks') = isKilled env ks in
      if killed then
        let (kill, ks'') = getKillSwitchState env ks'
        in ((Inl (killRefusal kill), push (entry ph_kill Match) tr), ks'')
      else ((Inr [], push (entry ph_kill Pass) tr), ks'))"

definition adjudicateImpl ::
  "(string \<Rightarrow> string) \<Rightarrow> env \<Rightarrow> IntentEnvelope \<Rightarrow> 's \<Rightarrow> 's PolicyBundle \<Rightarrow> traceOut \<Rightarrow> KillSwitchModule \<Rightarrow>
     (Decision \<times> traceOut) \<times> KillSwitchModule" where
  "adjudicateImpl sha env envelope st policy tr ks =
     (let (r, ks') = phaseKill env ks tr in
      (next_phase r (\<lambda>acc tr.
       next_phase (phaseSchema sha envelope acc tr) (\<lambda>acc tr.
       next_phase (phaseGuards sha ph_state pass_state (stateGuards policy) envelope st acc tr) (\<lambda>acc tr.
       next_phase (phaseTaint (taint_policy policy) envelope acc tr) (\<lambda>acc tr.
       next_phase (phaseGuards sha ph_auth pass_auth (authGuards policy) envelope st acc tr) (\<lambda>acc tr.
       next_phase (phaseGuards sha ph_business pass_business (business policy) envelope st acc tr) (\<lambda>acc tr.
       phaseDefault (policy_default policy) acc tr)))))), ks'))"

definition adjudicate ::
  "(string \<Rightarrow> string) \<Rightarrow> env \<Rightarrow> IntentEnvelope \<Rightarrow> 's \<Rightarrow> 's PolicyBundle \<Rightarrow> KillSwitchModule \<Rightarrow>
     Decision \<times> KillSwitchModule" where
  "adjudicate sha env envelope st policy ks =
     (let (r, ks') = adjudicateImpl sha env envelope st policy None ks in (fst r, ks'))"

definition adjudicateWithTrace ::
  "(string \<Rightarrow> string) \<Rightarrow> env \<Rightarrow> IntentEnvelope \<Rightarrow> 's \<Rightarrow> 's PolicyBundle \<Rightarrow> KillSwitchModule \<Rightarrow>
     (Decision \<times> AdjudicationTraceEntry list) \<times> KillSwitchModule" where
  "adjudicateWithTrace sha env envelope st policy ks =
     (let (r, ks') = adjudicateImpl sha env envelope st policy (Some []) ks
      in ((fst r, case snd r of None \<Rightarrow> [] | Some t \<Rightarrow> t), ks'))"

subsection \<open>The reference pipeline\<close>

text \<open>
  What the phases amount to: one list of checks in order. A check fires, and then decides from the
  bases accumulated so far, or it passes and contributes its own. The first check that fires
  decides.
\<close>

record check =
  ck_fire :: "(DecisionBasis list \<Rightarrow> Decision) option"
  ck_pass :: "DecisionBasis list"

fun run_checks :: "check list \<Rightarrow> DecisionBasis list \<Rightarrow> Decision option" where
  "run_checks [] acc = None"
| "run_checks (c # cs) acc = (case ck_fire c of Some f \<Rightarrow> Some (f acc) | None \<Rightarrow> run_checks cs (acc @ ck_pass c))"

definition guard_fire ::
  "(string \<Rightarrow> string) \<Rightarrow> IntentEnvelope \<Rightarrow> 's \<Rightarrow> AdjudicationTracePhase \<Rightarrow> nat \<Rightarrow> 's Guard \<Rightarrow>
     (DecisionBasis list \<Rightarrow> Decision) option" where
  "guard_fire sha e st p i g = (case g_call g e st of
      Inl err \<Rightarrow> Some (guardPanicRefusal p (Some i) (Some g) err)
    | Inr (Some d) \<Rightarrow> Some (enrichBasis (gateRewrite sha d e))
    | Inr None \<Rightarrow> None)"

definition guard_checks ::
  "(string \<Rightarrow> string) \<Rightarrow> IntentEnvelope \<Rightarrow> 's \<Rightarrow> AdjudicationTracePhase \<Rightarrow> PassCategory \<Rightarrow> nat \<Rightarrow> 's Guard list \<Rightarrow> check list" where
  "guard_checks sha e st p c n gs =
     map (\<lambda>(i, g). \<lparr>ck_fire = guard_fire sha e st p i g, ck_pass = []\<rparr>) (enumerate n gs)
     @ [\<lparr>ck_fire = None, ck_pass = [makePassBasis c]\<rparr>]"

definition version_check :: "IntentEnvelope \<Rightarrow> check" where
  "version_check e = \<lparr>ck_fire =
       (if e_version e \<noteq> INTENT_ENVELOPE_VERSION then Some (\<lambda>acc. decisionRefuse
           (refuse SECURITY_REFUSAL ''schema_version_unsupported''
              ''This action cannot be processed at the moment.''
              (Some (''Unknown envelope version: '' @ show_int (e_version e))))
           [basis cat_schema ''version_unsupported'' (Some (Obj
              [(''seen'', num (e_version e)), (''supported'', num INTENT_ENVELOPE_VERSION)]))])
        else None),
     ck_pass = [basis cat_schema ''version_supported'' None]\<rparr>"

definition hash_check :: "(string \<Rightarrow> string) \<Rightarrow> IntentEnvelope \<Rightarrow> check" where
  "hash_check sha e = \<lparr>ck_fire = (case deriveIntentHash sha e of
        Inl err \<Rightarrow> Some (guardPanicRefusal ph_schema None (None :: unit Guard option) err)
      | Inr d \<Rightarrow> if d \<noteq> e_intentHash e then Some (\<lambda>acc. decisionRefuse
            (refuse SECURITY_REFUSAL ''intent_hash_mismatch''
               ''This action cannot be processed at the moment.''
               (Some ''envelope.intentHash does not match the canonical content hash''))
            (acc @ [basis cat_schema ''intent_hash_mismatch'' None]))
          else None),
     ck_pass = []\<rparr>"

definition taint_check :: "TaintPolicy \<Rightarrow> IntentEnvelope \<Rightarrow> check" where
  "taint_check policy e = \<lparr>ck_fire =
      (case canPropose (e_taint e) (e_kind e) policy of
         Inl err \<Rightarrow> Some (guardPanicRefusal ph_taint None (None :: unit Guard option) err)
       | Inr rankAllowed \<Rightarrow> (case canProposeWithOrigin (e_taint e) (e_kind e) (e_origin e) policy of
           Inl err \<Rightarrow> Some (guardPanicRefusal ph_taint None (None :: unit Guard option) err)
         | Inr True \<Rightarrow> None
         | Inr False \<Rightarrow> Some (taintRefusal rankAllowed e))),
     ck_pass = [makePassBasis pass_taint]\<rparr>"

definition kill_check :: "KillSwitchState \<Rightarrow> check" where
  "kill_check kill = \<lparr>ck_fire = (if active kill then Some (\<lambda>acc. killRefusal kill) else None), ck_pass = []\<rparr>"

definition default_check :: "PolicyDefault \<Rightarrow> check" where
  "default_check dflt = \<lparr>ck_fire = Some (\<lambda>acc. fst (phaseDefault dflt acc None)), ck_pass = []\<rparr>"

definition pipeline ::
  "(string \<Rightarrow> string) \<Rightarrow> KillSwitchState \<Rightarrow> IntentEnvelope \<Rightarrow> 's \<Rightarrow> 's PolicyBundle \<Rightarrow> check list" where
  "pipeline sha kill e st policy =
     [kill_check kill, version_check e, hash_check sha e]
     @ guard_checks sha e st ph_state pass_state 0 (stateGuards policy)
     @ [taint_check (taint_policy policy) e]
     @ guard_checks sha e st ph_auth pass_auth 0 (authGuards policy)
     @ guard_checks sha e st ph_business pass_business 0 (business policy)
     @ [default_check (policy_default policy)]"

lemma run_checks_append:
  "run_checks (cs @ ds) acc = (case run_checks cs acc of Some d \<Rightarrow> Some d
     | None \<Rightarrow> run_checks ds (acc @ concat (map ck_pass cs)))"
  by (induction cs arbitrary: acc) (auto split: option.splits)

lemma guard_loop_checks:
  "(case fst (guard_loop sha p i gs e st acc tr) of Inl d \<Rightarrow> Some d | Inr acc' \<Rightarrow> run_checks ds (acc' @ [makePassBasis c]))
     = run_checks (guard_checks sha e st p c i gs @ ds) acc"
proof (induction gs arbitrary: i tr)
  case Nil
  then show ?case by (simp add: guard_checks_def)
next
  case (Cons g gs)
  show ?case
  proof (cases "g_call g e st")
    case (Inr d)
    with Cons [of "Suc i"] show ?thesis
      by (cases d) (simp_all add: guard_checks_def guard_fire_def)
  qed (simp add: guard_checks_def guard_fire_def)
qed

lemma phaseGuards_checks:
  assumes "\<And>acc tr. Some (fst (f acc tr)) = run_checks ds acc"
  shows "Some (fst (next_phase (phaseGuards sha p c gs e st acc tr) f))
    = run_checks (guard_checks sha e st p c 0 gs @ ds) acc"
  using assms guard_loop_checks [of ds c sha p 0 gs e st acc tr]
  by (auto simp: next_phase_def phaseGuards_def split: prod.splits sum.splits)

lemma phaseTaint_checks:
  assumes "\<And>acc tr. Some (fst (f acc tr)) = run_checks ds acc"
  shows "Some (fst (next_phase (phaseTaint policy e acc tr) f)) = run_checks (taint_check policy e # ds) acc"
  using assms by (auto simp: next_phase_def phaseTaint_def taint_check_def bindR_Inr split: prod.splits sum.splits bool.splits)

lemma phaseSchema_checks:
  assumes "\<And>acc tr. Some (fst (f acc tr)) = run_checks ds acc"
  shows "Some (fst (next_phase (phaseSchema sha e acc tr) f)) = run_checks (version_check e # hash_check sha e # ds) acc"
  using assms
  by (auto simp: next_phase_def phaseSchema_def version_check_def hash_check_def Let_def split: prod.splits sum.splits)

lemma isKilled_read:
  "isKilled env ks = (active (fst (getKillSwitchState env ks)), snd (getKillSwitchState env ks))"
  by (rule ks.killed_state)

lemma adjudicateImpl_checks:
  "Some (fst (fst (adjudicateImpl sha env e st policy tr ks)))
     = run_checks (pipeline sha (fst (getKillSwitchState env ks)) e st policy) []"
  "snd (adjudicateImpl sha env e st policy tr ks) = snd (getKillSwitchState env ks)"
proof -
  have dflt: "Some (fst (phaseDefault dflt acc tr)) = run_checks [default_check dflt] acc" for dflt acc tr
    by (simp add: default_check_def phaseDefault_def)
  note rest = phaseSchema_checks [OF phaseGuards_checks [OF phaseTaint_checks
      [OF phaseGuards_checks [OF phaseGuards_checks [OF dflt]]]]]
  show "snd (adjudicateImpl sha env e st policy tr ks) = snd (getKillSwitchState env ks)"
    by (auto simp: adjudicateImpl_def phaseKill_def isKilled_read Let_def ks.stable split: prod.splits)
  show "Some (fst (fst (adjudicateImpl sha env e st policy tr ks)))
     = run_checks (pipeline sha (fst (getKillSwitchState env ks)) e st policy) []"
  proof (cases "active (fst (getKillSwitchState env ks))")
    case True
    then show ?thesis
      by (auto simp: adjudicateImpl_def phaseKill_def isKilled_read Let_def ks.stable next_phase_def
          pipeline_def kill_check_def split: prod.splits)
  next
    case False
    then have "phaseKill env ks tr = ((Inr [], push (entry ph_kill Pass) tr), snd (getKillSwitchState env ks))"
      by (simp add: phaseKill_def isKilled_read Let_def)
    then have "fst (adjudicateImpl sha env e st policy tr ks) = next_phase (phaseSchema sha e [] (push (entry ph_kill Pass) tr)) (\<lambda>acc tr.
       next_phase (phaseGuards sha ph_state pass_state (stateGuards policy) e st acc tr) (\<lambda>acc tr.
       next_phase (phaseTaint (taint_policy policy) e acc tr) (\<lambda>acc tr.
       next_phase (phaseGuards sha ph_auth pass_auth (authGuards policy) e st acc tr) (\<lambda>acc tr.
       next_phase (phaseGuards sha ph_business pass_business (business policy) e st acc tr) (\<lambda>acc tr.
       phaseDefault (policy_default policy) acc tr)))))"
      by (simp add: adjudicateImpl_def next_phase_def)
    with False show ?thesis by (simp add: rest pipeline_def kill_check_def)
  qed
qed

lemma adjudicate_runs_pipeline:
  "run_checks (pipeline sha (fst (getKillSwitchState env ks)) e st policy) []
     = Some (fst (adjudicate sha env e st policy ks))
   \<and> snd (adjudicate sha env e st policy ks) = snd (getKillSwitchState env ks)"
  using adjudicateImpl_checks [of sha env e st policy None ks]
  by (cases "adjudicateImpl sha env e st policy None ks") (auto simp: adjudicate_def)

text \<open>C1: adjudication is the first firing check of one ordered pipeline: kill switch, version, content
  hash, state guards, taint gate, auth guards, business guards, default. Some check always fires,
  its decision carries the bases of exactly the checks passed, and the only state touched is the
  seeding of the kill switch.\<close>

theorem adjudicate_pipeline:
  "run_checks (pipeline sha (fst (getKillSwitchState env ks)) e st policy) []
     = Some (fst (adjudicate sha env e st policy ks))
   \<and> snd (adjudicate sha env e st policy ks) = snd (getKillSwitchState env ks)"
  by (rule adjudicate_runs_pipeline)

subsection \<open>Consequences\<close>

lemma run_checks_Some:
  "run_checks cs acc = Some d \<longleftrightarrow> (\<exists>pre c post f. cs = pre @ c # post \<and> (\<forall>x\<in>set pre. ck_fire x = None)
     \<and> ck_fire c = Some f \<and> d = f (acc @ concat (map ck_pass pre)))"
proof (induction cs arbitrary: acc)
  case (Cons a cs)
  show ?case
  proof (cases "ck_fire a")
    case None
    show ?thesis (is "?l = ?r")
    proof
      assume ?l
      with None have "run_checks cs (acc @ ck_pass a) = Some d" by simp
      then obtain pre c post f where "cs = pre @ c # post" "\<forall>x\<in>set pre. ck_fire x = None"
        "ck_fire c = Some f" "d = f ((acc @ ck_pass a) @ concat (map ck_pass pre))"
        using Cons.IH by blast
      with None show ?r by (intro exI [of _ "a # pre"]) auto
    next
      assume ?r
      then obtain pre c post f where r: "a # cs = pre @ c # post" "\<forall>x\<in>set pre. ck_fire x = None"
        "ck_fire c = Some f" "d = f (acc @ concat (map ck_pass pre))" by blast
      then obtain pre' where pre: "pre = a # pre'" using None by (cases pre) auto
      then have "run_checks cs (acc @ ck_pass a) = Some d" unfolding Cons.IH using r by auto
      with None show ?l by simp
    qed
  next
    case (Some f)
    have "d = f acc" if "a # cs = pre @ c # post" "\<forall>x\<in>set pre. ck_fire x = None"
      "ck_fire c = Some g" "d = g (acc @ concat (map ck_pass pre))" for pre c post g
      using that Some by (cases pre) auto
    with Some show ?thesis by (auto intro: exI [of _ "[]"])
  qed
qed simp

lemma gateRewrite_cases:
  "gateRewrite sha d e = d \<and> (\<forall>e' w b. d = Rewrite e' w b \<longrightarrow>
       deriveIntentHash sha e' = Inr (e_intentHash e') \<and> e_taint e' \<le> e_taint e)
   \<or> decision_kind (gateRewrite sha d e) = REFUSE"
  by (cases d) (auto simp: gateRewrite_def guardPanicRefusal_def Let_def less_eq_Taint_def split: sum.split)

lemma decision_kind_enrichBasis [simp]: "decision_kind (enrichBasis d b) = decision_kind d"
  by (cases d) simp_all

lemma d_basis_enrichBasis [simp]: "d_basis (enrichBasis d b) = b @ d_basis d"
  by (cases d) simp_all

lemma decision_kind_panic [simp]: "decision_kind (guardPanicRefusal p i g err acc) = REFUSE"
  by (simp add: guardPanicRefusal_def Let_def)

lemma decision_kind_taintRefusal [simp]: "decision_kind (taintRefusal r e acc) = REFUSE"
  by (simp add: taintRefusal_def Let_def)

lemma set_guard_checks:
  "c \<in> set (guard_checks sha e st p pc 0 gs) \<longleftrightarrow>
     c = \<lparr>ck_fire = None, ck_pass = [makePassBasis pc]\<rparr>
   \<or> (\<exists>i < length gs. c = \<lparr>ck_fire = guard_fire sha e st p i (gs ! i), ck_pass = []\<rparr>)"
  by (auto simp: guard_checks_def enumerate_eq_zip set_zip image_iff split: prod.splits)
    (metis (no_types, lifting) case_prod_conv diff_zero length_upt add_0 nth_upt)+

lemma run_checks_None: "run_checks cs acc = None \<longleftrightarrow> (\<forall>c\<in>set cs. ck_fire c = None)"
  by (induction cs arbitrary: acc) (auto split: option.split)

text \<open>A guard's own decision, other than a refusal, survives the gate unchanged.\<close>

lemma guard_fire_kind:
  assumes "guard_fire sha e st p i g = Some f" "decision_kind (f acc) \<noteq> REFUSE"
  obtains d where "g_call g e st = Inr (Some d)" "f acc = enrichBasis d acc" "gateRewrite sha d e = d"
    "\<And>e' w b. d = Rewrite e' w b \<Longrightarrow> deriveIntentHash sha e' = Inr (e_intentHash e') \<and> e_taint e' \<le> e_taint e"
proof -
  from assms obtain d where d: "g_call g e st = Inr (Some d)" "f = enrichBasis (gateRewrite sha d e)"
    by (auto simp: guard_fire_def split: sum.split_asm option.split_asm)
  with assms(2) have gate: "gateRewrite sha d e = d"
    "\<And>e' w b. d = Rewrite e' w b \<Longrightarrow> deriveIntentHash sha e' = Inr (e_intentHash e') \<and> e_taint e' \<le> e_taint e"
    using gateRewrite_cases [of sha d e] by auto
  with d show thesis by (intro that [of d]) simp_all
qed

subsection \<open>The trace\<close>

fun phase_no :: "AdjudicationTracePhase \<Rightarrow> nat" where
  "phase_no ph_kill = 0" | "phase_no ph_schema = 1" | "phase_no ph_state = 2" | "phase_no ph_taint = 3"
| "phase_no ph_auth = 4" | "phase_no ph_business = 5" | "phase_no ph_default = 6"

instantiation AdjudicationTracePhase :: linorder
begin

definition less_eq_AdjudicationTracePhase :: "AdjudicationTracePhase \<Rightarrow> AdjudicationTracePhase \<Rightarrow> bool" where
  "a \<le> b \<longleftrightarrow> phase_no a \<le> phase_no b"

definition less_AdjudicationTracePhase :: "AdjudicationTracePhase \<Rightarrow> AdjudicationTracePhase \<Rightarrow> bool" where
  "a < b \<longleftrightarrow> phase_no a < phase_no b"

instance
proof
  fix a b c :: AdjudicationTracePhase
  note defs = less_eq_AdjudicationTracePhase_def less_AdjudicationTracePhase_def
  show "(a < b) = (a \<le> b \<and> \<not> b \<le> a)" unfolding defs by linarith
  show "a \<le> a" unfolding defs by simp
  show "a \<le> b \<Longrightarrow> b \<le> c \<Longrightarrow> a \<le> c" unfolding defs by linarith
  show "a \<le> b \<or> b \<le> a" unfolding defs by linarith
  show "a \<le> b \<Longrightarrow> b \<le> a \<Longrightarrow> a = b" by (cases a; cases b) (simp_all add: defs)
qed

end

text \<open>A trace under way: every check so far passed, in phase order. A finished one ends in its only match.\<close>

definition passing :: "AdjudicationTracePhase \<Rightarrow> AdjudicationTraceEntry list \<Rightarrow> bool" where
  "passing p t \<longleftrightarrow> (\<forall>x\<in>set t. t_outcome x = Pass \<and> t_phase x \<le> p) \<and> sorted (map t_phase t)"

definition finished :: "AdjudicationTraceEntry list \<Rightarrow> bool" where
  "finished t \<longleftrightarrow> t \<noteq> [] \<and> (\<forall>x\<in>set (butlast t). t_outcome x = Pass) \<and> t_outcome (last t) = Match
     \<and> sorted (map t_phase t)"

lemma passing_push:
  "passing p t \<Longrightarrow> p \<le> t_phase e \<Longrightarrow> t_outcome e = Pass \<Longrightarrow> passing (t_phase e) (t @ [e])"
  by (auto simp: passing_def sorted_append intro: order_trans)

lemma finished_push:
  "passing p t \<Longrightarrow> p \<le> t_phase e \<Longrightarrow> t_outcome e = Match \<Longrightarrow> finished (t @ [e])"
  by (auto simp: passing_def finished_def sorted_append intro: order_trans)

lemma entry_sel [simp]: "t_phase (entry p oc) = p" "t_outcome (entry p oc) = oc"
  by (simp_all add: entry_def)

lemma traceEntry_sel [simp]: "t_phase (traceEntry p i g oc) = p" "t_outcome (traceEntry p i g oc) = oc"
  by (simp_all add: traceEntry_def)

definition phase_traced :: "AdjudicationTracePhase \<Rightarrow> phase_result \<Rightarrow> bool" where
  "phase_traced p r \<longleftrightarrow> (case r of (Inl d, Some t) \<Rightarrow> finished t | (Inr acc, Some t) \<Rightarrow> passing p t | _ \<Rightarrow> False)"

lemma passing_mono: "passing p t \<Longrightarrow> p \<le> q \<Longrightarrow> passing q t"
  by (auto simp: passing_def intro: order_trans)

lemma next_phase_traced:
  assumes "phase_traced p r" "\<And>acc t. passing p t \<Longrightarrow> \<exists>t'. snd (f acc (Some t)) = Some t' \<and> finished t'"
  shows "\<exists>t'. snd (next_phase r f) = Some t' \<and> finished t'"
  using assms by (auto simp: phase_traced_def next_phase_def split: prod.splits sum.splits option.splits)

lemma guard_loop_traced:
  "passing p t \<Longrightarrow> phase_traced p (guard_loop sha p i gs e st acc (Some t))"
proof (induction gs arbitrary: i t)
  case Nil
  then show ?case by (simp add: phase_traced_def)
next
  case (Cons g gs)
  show ?case
  proof (cases "g_call g e st = Inr None")
    case True
    have "passing p (t @ [traceEntry p i g Pass])"
      using passing_push [OF Cons.prems, of "traceEntry p i g Pass"] by simp
    from Cons.IH [OF this, of "Suc i"] True show ?thesis by (simp add: push_def)
  next
    case False
    have "finished (t @ [traceEntry p i g Match])"
      using finished_push [OF Cons.prems, of "traceEntry p i g Match"] by simp
    with False show ?thesis
      by (auto simp: phase_traced_def push_def split: sum.split option.split)
  qed
qed

lemma phaseGuards_traced:
  assumes "passing q t" "q \<le> p"
  shows "phase_traced p (phaseGuards sha p c gs e st acc (Some t))"
  using guard_loop_traced [OF passing_mono [OF assms], of sha 0 gs e st acc]
  by (auto simp: phase_traced_def phaseGuards_def split: prod.splits sum.splits option.splits)

lemma phaseTaint_traced:
  assumes "passing q t" "q \<le> ph_taint"
  shows "phase_traced ph_taint (phaseTaint policy e acc (Some t))"
  using passing_push [OF assms(1), of "entry ph_taint Pass"] finished_push [OF assms(1), of "entry ph_taint Match"] assms(2)
  by (auto simp: phase_traced_def phaseTaint_def push_def split: sum.split)

lemma phaseSchema_traced:
  assumes "passing q t" "q \<le> ph_schema"
  shows "phase_traced ph_schema (phaseSchema sha e acc (Some t))"
proof -
  have pass: "passing ph_schema (t @ [entry ph_schema Pass])"
    using passing_push [OF assms(1), of "entry ph_schema Pass"] assms(2) by simp
  have match: "finished (t @ [entry ph_schema Match])"
    using finished_push [OF assms(1), of "entry ph_schema Match"] assms(2) by simp
  have later: "finished (t @ [entry ph_schema Pass, entry ph_schema Match])"
    using finished_push [OF pass, of "entry ph_schema Match"] by simp
  show ?thesis using pass match later
    by (auto simp: phase_traced_def phaseSchema_def push_def Let_def split: sum.split)
qed

lemma phaseDefault_traced:
  assumes "passing q t" "q \<le> ph_default"
  shows "\<exists>t'. snd (phaseDefault dflt acc (Some t)) = Some t' \<and> finished t'"
  using finished_push [OF assms(1), of "entry ph_default Match"] assms(2)
  by (simp add: phaseDefault_def push_def)

lemma phase_less [simp]:
  "ph_kill \<le> p" "ph_schema \<le> ph_state" "ph_state \<le> ph_taint" "ph_taint \<le> ph_auth" "ph_auth \<le> ph_business" "p \<le> ph_default"
  by (cases p; simp add: less_eq_AdjudicationTracePhase_def)+

lemma adjudicateImpl_traced:
  "\<exists>t. snd (fst (adjudicateImpl sha env e st policy (Some []) ks)) = Some t \<and> finished t"
proof (cases "active (fst (getKillSwitchState env ks))")
  case True
  then show ?thesis
    by (auto simp: adjudicateImpl_def phaseKill_def isKilled_read Let_def next_phase_def push_def
        finished_def entry_def split: prod.splits)
next
  case False
  have start: "passing ph_kill [entry ph_kill Pass]"
    by (simp add: passing_def)
  have rest: "\<exists>t'. snd (next_phase (phaseSchema sha e [] (Some [entry ph_kill Pass])) (\<lambda>acc tr.
       next_phase (phaseGuards sha ph_state pass_state (stateGuards policy) e st acc tr) (\<lambda>acc tr.
       next_phase (phaseTaint (taint_policy policy) e acc tr) (\<lambda>acc tr.
       next_phase (phaseGuards sha ph_auth pass_auth (authGuards policy) e st acc tr) (\<lambda>acc tr.
       next_phase (phaseGuards sha ph_business pass_business (business policy) e st acc tr) (\<lambda>acc tr.
       phaseDefault (policy_default policy) acc tr)))))) = Some t' \<and> finished t'"
    using phase_less
    by (intro next_phase_traced [OF phaseSchema_traced [OF start]]
      next_phase_traced [OF phaseGuards_traced] next_phase_traced [OF phaseTaint_traced]
      phaseDefault_traced | assumption | simp)+
  from False have "phaseKill env ks (Some []) = ((Inr [], Some [entry ph_kill Pass]), snd (getKillSwitchState env ks))"
    by (simp add: phaseKill_def isKilled_read Let_def push_def)
  then have "fst (adjudicateImpl sha env e st policy (Some []) ks)
      = next_phase (phaseSchema sha e [] (Some [entry ph_kill Pass])) (\<lambda>acc tr.
       next_phase (phaseGuards sha ph_state pass_state (stateGuards policy) e st acc tr) (\<lambda>acc tr.
       next_phase (phaseTaint (taint_policy policy) e acc tr) (\<lambda>acc tr.
       next_phase (phaseGuards sha ph_auth pass_auth (authGuards policy) e st acc tr) (\<lambda>acc tr.
       next_phase (phaseGuards sha ph_business pass_business (business policy) e st acc tr) (\<lambda>acc tr.
       phaseDefault (policy_default policy) acc tr)))))"
    by (simp add: adjudicateImpl_def next_phase_def)
  with rest show ?thesis by simp
qed

lemma adjudicateWithTrace_faithful':
  "case adjudicateWithTrace sha env e st policy ks of ((d, t), ks') \<Rightarrow>
     adjudicate sha env e st policy ks = (d, ks')
     \<and> t \<noteq> [] \<and> (\<forall>x\<in>set (butlast t). t_outcome x = Pass) \<and> t_outcome (last t) = Match
     \<and> sorted (map t_phase t)"
proof -
  obtain d t ks' where run: "adjudicateImpl sha env e st policy (Some []) ks = ((d, Some t), ks')" "finished t"
    using adjudicateImpl_traced [of sha env e st policy ks]
    by (cases "adjudicateImpl sha env e st policy (Some []) ks") auto
  have "adjudicate sha env e st policy ks = (d, ks')"
    using adjudicateImpl_checks [of sha env e st policy "Some []" ks] run
      adjudicate_runs_pipeline [of sha env ks e st policy] by (simp add: prod_eq_iff)
  with run show ?thesis by (simp add: adjudicateWithTrace_def finished_def)
qed

lemma outcomes_shape:
  assumes "t \<noteq> []" "\<forall>x\<in>set (butlast t). t_outcome x = Pass" "t_outcome (last t) = Match"
  shows "map t_outcome t = replicate (length t - 1) Pass @ [Match]"
proof -
  have "map t_outcome (butlast t) = replicate (length (butlast t)) Pass"
    using assms(2) by (metis (mono_tags, lifting) length_map map_eq_conv map_replicate_const)
  moreover have "map t_outcome t = map t_outcome (butlast t) @ [t_outcome (last t)]"
    using assms(1) by (metis append_butlast_last_id list.simps(8,9) map_append)
  ultimately show ?thesis using assms by simp
qed

text \<open>
  The trace that the checks amount to, in their order: whether a step fires, the entries it leaves when it
  does not, and the entry with which it ends the trace. The hash check leaves an entry only when it fires.
\<close>

fun run_trace :: "(bool \<times> AdjudicationTraceEntry list \<times> AdjudicationTraceEntry) list \<Rightarrow> AdjudicationTraceEntry list" where
  "run_trace [] = []"
| "run_trace ((fires, passed, match) # steps) = (if fires then [match] else passed @ run_trace steps)"

definition guard_steps ::
  "IntentEnvelope \<Rightarrow> 's \<Rightarrow> AdjudicationTracePhase \<Rightarrow> nat \<Rightarrow> 's Guard list \<Rightarrow>
     (bool \<times> AdjudicationTraceEntry list \<times> AdjudicationTraceEntry) list" where
  "guard_steps e st p n gs = map (\<lambda>(i, g). (g_call g e st \<noteq> Inr None, [traceEntry p i g Pass], traceEntry p i g Match)) (enumerate n gs)"

definition trace_steps ::
  "(string \<Rightarrow> string) \<Rightarrow> KillSwitchState \<Rightarrow> IntentEnvelope \<Rightarrow> 's \<Rightarrow> 's PolicyBundle \<Rightarrow>
     (bool \<times> AdjudicationTraceEntry list \<times> AdjudicationTraceEntry) list" where
  "trace_steps sha kill e st policy =
     [(active kill, [entry ph_kill Pass], entry ph_kill Match),
      (e_version e \<noteq> INTENT_ENVELOPE_VERSION, [entry ph_schema Pass], entry ph_schema Match),
      (deriveIntentHash sha e \<noteq> Inr (e_intentHash e), [], entry ph_schema Match)]
     @ guard_steps e st ph_state 0 (stateGuards policy)
     @ [(canProposeWithOrigin (e_taint e) (e_kind e) (e_origin e) (taint_policy policy) \<noteq> Inr True,
         [entry ph_taint Pass], entry ph_taint Match)]
     @ guard_steps e st ph_auth 0 (authGuards policy)
     @ guard_steps e st ph_business 0 (business policy)
     @ [(True, [], entry ph_default Match)]"

lemma guard_loop_trace:
  assumes "\<And>acc t. snd (f acc (Some t)) = Some (t @ run_trace ds)"
  shows "snd (next_phase (case guard_loop sha p i gs e st acc (Some t) of (Inl d, tr) \<Rightarrow> (Inl d, tr)
      | (Inr acc', tr) \<Rightarrow> (Inr (acc' @ [makePassBasis c]), tr)) f) = Some (t @ run_trace (guard_steps e st p i gs @ ds))"
proof (induction gs arbitrary: i t)
  case Nil
  show ?case by (simp add: guard_steps_def next_phase_def assms)
next
  case (Cons g gs)
  from Cons [of "Suc i" "t @ [traceEntry p i g Pass]"] show ?case
    by (auto simp: guard_steps_def push_def next_phase_def split: sum.split option.split)
qed

lemma phaseGuards_trace:
  assumes "\<And>acc t. snd (f acc (Some t)) = Some (t @ run_trace ds)"
  shows "snd (next_phase (phaseGuards sha p c gs e st acc (Some t)) f) = Some (t @ run_trace (guard_steps e st p 0 gs @ ds))"
  unfolding phaseGuards_def by (rule guard_loop_trace) (rule assms)

lemma phaseTaint_trace:
  assumes "\<And>acc t. snd (f acc (Some t)) = Some (t @ run_trace ds)"
  shows "snd (next_phase (phaseTaint policy e acc (Some t)) f)
    = Some (t @ run_trace ((canProposeWithOrigin (e_taint e) (e_kind e) (e_origin e) policy \<noteq> Inr True,
         [entry ph_taint Pass], entry ph_taint Match) # ds))"
proof (cases "canPropose (e_taint e) (e_kind e) policy")
  case (Inl err)
  then have "canProposeWithOrigin (e_taint e) (e_kind e) (e_origin e) policy = Inl err" by (simp add: canProposeWithOrigin_def)
  with Inl show ?thesis by (simp add: next_phase_def phaseTaint_def push_def)
next
  case (Inr r)
  then show ?thesis using assms
    by (cases "canProposeWithOrigin (e_taint e) (e_kind e) (e_origin e) policy") (auto simp: next_phase_def phaseTaint_def push_def)
qed

lemma phaseSchema_trace:
  assumes "\<And>acc t. snd (f acc (Some t)) = Some (t @ run_trace ds)"
  shows "snd (next_phase (phaseSchema sha e acc (Some t)) f)
    = Some (t @ run_trace ((e_version e \<noteq> INTENT_ENVELOPE_VERSION, [entry ph_schema Pass], entry ph_schema Match)
        # (deriveIntentHash sha e \<noteq> Inr (e_intentHash e), [], entry ph_schema Match) # ds))"
  using assms by (auto simp: next_phase_def phaseSchema_def push_def Let_def split: sum.split)

lemma adjudicateImpl_trace:
  "snd (fst (adjudicateImpl sha env e st policy (Some []) ks))
     = Some (run_trace (trace_steps sha (fst (getKillSwitchState env ks)) e st policy))"
proof (cases "active (fst (getKillSwitchState env ks))")
  case True
  then show ?thesis
    by (auto simp: adjudicateImpl_def phaseKill_def isKilled_read Let_def next_phase_def push_def trace_steps_def split: prod.splits)
next
  case False
  have dflt: "snd (phaseDefault dflt acc (Some t)) = Some (t @ run_trace [(True, [], entry ph_default Match)])" for dflt acc t
    by (simp add: phaseDefault_def push_def)
  note rest = phaseSchema_trace [OF phaseGuards_trace [OF phaseTaint_trace
      [OF phaseGuards_trace [OF phaseGuards_trace [OF dflt]]]]]
  from False have kill: "phaseKill env ks (Some []) = ((Inr [], Some [entry ph_kill Pass]), snd (getKillSwitchState env ks))"
    by (simp add: phaseKill_def isKilled_read Let_def push_def)
  then have "fst (adjudicateImpl sha env e st policy (Some []) ks)
      = next_phase (phaseSchema sha e [] (Some [entry ph_kill Pass])) (\<lambda>acc tr.
       next_phase (phaseGuards sha ph_state pass_state (stateGuards policy) e st acc tr) (\<lambda>acc tr.
       next_phase (phaseTaint (taint_policy policy) e acc tr) (\<lambda>acc tr.
       next_phase (phaseGuards sha ph_auth pass_auth (authGuards policy) e st acc tr) (\<lambda>acc tr.
       next_phase (phaseGuards sha ph_business pass_business (business policy) e st acc tr) (\<lambda>acc tr.
       phaseDefault (policy_default policy) acc tr)))))"
    by (simp add: adjudicateImpl_def next_phase_def)
  then show ?thesis using False by (simp add: rest trace_steps_def)
qed

text \<open>C19: tracing is pure instrumentation, and the trace tells what was evaluated: tracing changes neither the
  decision nor the kill-switch state; the trace lists, in the order of the checks, one pass for the kill
  switch, the version, every guard that abstained (with its phase, position and name) and the taint gate,
  up to the first check that decided, which is its last entry and its only match.\<close>

theorem adjudicateWithTrace_faithful:
  "case adjudicateWithTrace sha env e st policy ks of ((d, t), ks') \<Rightarrow>
     adjudicate sha env e st policy ks = (d, ks')
     \<and> t = run_trace (trace_steps sha (fst (getKillSwitchState env ks)) e st policy)
     \<and> map t_outcome t = replicate (length t - 1) Pass @ [Match] \<and> sorted (map t_phase t)"
proof -
  have "snd (fst (adjudicateWithTrace sha env e st policy ks)) = run_trace (trace_steps sha (fst (getKillSwitchState env ks)) e st policy)"
    using adjudicateImpl_trace [of sha env e st policy ks]
    by (cases "adjudicateImpl sha env e st policy (Some []) ks") (auto simp: adjudicateWithTrace_def)
  then show ?thesis using adjudicateWithTrace_faithful' [of sha env e st policy ks] by (auto simp: outcomes_shape)
qed

subsection \<open>What an outcome other than a refusal requires\<close>

lemma guards_abstain:
  "run_checks (guard_checks sha e st p c i gs) acc = None \<longleftrightarrow> list_all (abstains e st) gs"
  by (induction gs arbitrary: i acc)
    (auto simp: guard_checks_def guard_fire_def abstains_def split: sum.splits option.splits)

lemma guards_pass: "concat (map ck_pass (guard_checks sha e st p c i gs)) = [makePassBasis c]"
  by (induction gs arbitrary: i) (auto simp: guard_checks_def)

text \<open>The guard that decides for a list of guards, and the guards before it.\<close>

lemma guards_fire:
  assumes "run_checks (guard_checks sha e st p c n gs) acc = Some d" "decision_kind d \<noteq> REFUSE"
  shows "\<exists>g\<in>set gs. \<exists>d'. g_call g e st = Inr (Some d') \<and> d = enrichBasis d' acc
    \<and> (\<forall>e' w b. d' = Rewrite e' w b \<longrightarrow> deriveIntentHash sha e' = Inr (e_intentHash e') \<and> e_taint e' \<le> e_taint e)"
  using assms(1)
proof (induction gs arbitrary: n)
  case (Cons g gs)
  show ?case
  proof (cases "guard_fire sha e st p n g")
    case None
    with Cons.prems have "run_checks (guard_checks sha e st p c (Suc n) gs) acc = Some d"
      by (simp add: guard_checks_def)
    with Cons.IH show ?thesis by auto
  next
    case (Some f)
    with Cons.prems have "d = f acc" by (simp add: guard_checks_def)
    with Some assms(2) show ?thesis
      using guard_fire_kind [of sha e st p n g f acc] by (metis list.set_intros(1))
  qed
qed (simp add: guard_checks_def)

definition entry_checks :: "(string \<Rightarrow> string) \<Rightarrow> KillSwitchState \<Rightarrow> IntentEnvelope \<Rightarrow> check list" where
  "entry_checks sha kill e = [kill_check kill, version_check e, hash_check sha e]"

lemma entry_pass:
  "run_checks (entry_checks sha kill e) acc = None \<longleftrightarrow>
     \<not> active kill \<and> e_version e = INTENT_ENVELOPE_VERSION \<and> deriveIntentHash sha e = Inr (e_intentHash e)"
  by (auto simp: run_checks_None entry_checks_def kill_check_def version_check_def hash_check_def split: sum.split)

lemma entry_fire:
  "run_checks (entry_checks sha kill e) acc = Some d \<Longrightarrow> decision_kind d = REFUSE"
  by (auto simp: entry_checks_def kill_check_def version_check_def hash_check_def killRefusal_def
      split: if_split_asm sum.split_asm)

definition version_supported :: DecisionBasis where
  "version_supported = basis cat_schema ''version_supported'' None"

lemma entry_bases: "concat (map ck_pass (entry_checks sha kill e)) = [version_supported]"
  by (simp add: entry_checks_def kill_check_def version_check_def hash_check_def version_supported_def)

definition taint_ok :: "TaintPolicy \<Rightarrow> IntentEnvelope \<Rightarrow> bool" where
  "taint_ok policy e \<longleftrightarrow> canProposeWithOrigin (e_taint e) (e_kind e) (e_origin e) policy = Inr True"

lemma taint_pass: "ck_fire (taint_check policy e) = None \<longleftrightarrow> taint_ok policy e"
  by (auto simp: taint_check_def taint_ok_def canProposeWithOrigin_def split: sum.splits bool.splits)

lemma taint_fire: "ck_fire (taint_check policy e) = Some f \<Longrightarrow> decision_kind (f acc) = REFUSE"
  by (auto simp: taint_check_def split: sum.split_asm bool.split_asm)

lemma adjudicate_unfold:
  "Some (fst (adjudicate sha env e st policy ks)) =
   (case run_checks (entry_checks sha (fst (getKillSwitchState env ks)) e) [] of Some d \<Rightarrow> Some d | None \<Rightarrow>
    case run_checks (guard_checks sha e st ph_state pass_state 0 (stateGuards policy)) [version_supported] of Some d \<Rightarrow> Some d | None \<Rightarrow>
    case ck_fire (taint_check (taint_policy policy) e) of Some f \<Rightarrow> Some (f [version_supported, makePassBasis pass_state]) | None \<Rightarrow>
    case run_checks (guard_checks sha e st ph_auth pass_auth 0 (authGuards policy))
        [version_supported, makePassBasis pass_state, makePassBasis pass_taint] of Some d \<Rightarrow> Some d | None \<Rightarrow>
    case run_checks (guard_checks sha e st ph_business pass_business 0 (business policy))
        [version_supported, makePassBasis pass_state, makePassBasis pass_taint, makePassBasis pass_auth] of Some d \<Rightarrow> Some d | None \<Rightarrow>
    Some (fst (phaseDefault (policy_default policy)
        [version_supported, makePassBasis pass_state, makePassBasis pass_taint, makePassBasis pass_auth,
         makePassBasis pass_business] None)))"
proof -
  have "pipeline sha kill e st policy = entry_checks sha kill e
     @ guard_checks sha e st ph_state pass_state 0 (stateGuards policy)
     @ [taint_check (taint_policy policy) e]
     @ guard_checks sha e st ph_auth pass_auth 0 (authGuards policy)
     @ guard_checks sha e st ph_business pass_business 0 (business policy)
     @ [default_check (policy_default policy)]" for kill
    by (simp add: pipeline_def entry_checks_def)
  moreover have "ck_pass (taint_check (taint_policy policy) e) = [makePassBasis pass_taint]"
    by (simp add: taint_check_def)
  ultimately show ?thesis
    using adjudicate_runs_pipeline [of sha env ks e st policy]
    by (simp add: run_checks_append entry_bases guards_pass default_check_def
        del: makePassBasis.simps cong: option.case_cong)
qed

lemma abstain_None [simp]:
  "list_all (abstains e st) gs \<Longrightarrow> run_checks (guard_checks sha e st p c i gs) acc = None"
  by (simp only: guards_abstain)

lemma taint_None [simp]: "taint_ok policy e \<Longrightarrow> ck_fire (taint_check policy e) = None"
  by (simp only: taint_pass)

lemma entry_None:
  "\<not> active kill \<Longrightarrow> e_version e = INTENT_ENVELOPE_VERSION \<Longrightarrow> deriveIntentHash sha e = Inr (e_intentHash e)
     \<Longrightarrow> run_checks (entry_checks sha kill e) acc = None"
  by (simp add: entry_pass)

abbreviation killed :: "env \<Rightarrow> KillSwitchModule \<Rightarrow> bool" where
  "killed env ks \<equiv> active (fst (getKillSwitchState env ks))"

abbreviation kernel_decision :: "(string \<Rightarrow> string) \<Rightarrow> env \<Rightarrow> IntentEnvelope \<Rightarrow> 's \<Rightarrow> 's PolicyBundle \<Rightarrow> KillSwitchModule \<Rightarrow> Decision" where
  "kernel_decision sha env e st policy ks \<equiv> fst (adjudicate sha env e st policy ks)"

text \<open>Where the decision came from, with the bases it started from.\<close>

definition bases_before :: "AdjudicationTracePhase \<Rightarrow> DecisionBasis list" where
  "bases_before p = take (phase_no p - 1) [version_supported, makePassBasis pass_state,
     makePassBasis pass_taint, makePassBasis pass_auth, makePassBasis pass_business]"

lemma adjudicate_cases:
  fixes sha env e st and policy :: "'s PolicyBundle" and ks
  defines "d \<equiv> kernel_decision sha env e st policy ks"
  defines "entered \<equiv> \<not> killed env ks \<and> e_version e = INTENT_ENVELOPE_VERSION
    \<and> deriveIntentHash sha e = Inr (e_intentHash e)"
  defines "S \<equiv> list_all (abstains e st) (stateGuards policy)" and "T \<equiv> taint_ok (taint_policy policy) e"
    and "A \<equiv> list_all (abstains e st) (authGuards policy)" and "B \<equiv> list_all (abstains e st) (business policy)"
  obtains
    (entry) "\<not> entered" "run_checks (entry_checks sha (fst (getKillSwitchState env ks)) e) [] = Some d"
  | (state) "entered" "run_checks (guard_checks sha e st ph_state pass_state 0 (stateGuards policy)) (bases_before ph_state) = Some d"
  | (taint) f where "entered" "S" "\<not> T" "ck_fire (taint_check (taint_policy policy) e) = Some f" "d = f (bases_before ph_taint)"
  | (auth) "entered" "S" "T" "run_checks (guard_checks sha e st ph_auth pass_auth 0 (authGuards policy)) (bases_before ph_auth) = Some d"
  | (business) "entered" "S" "T" "A" "run_checks (guard_checks sha e st ph_business pass_business 0 (business policy)) (bases_before ph_business) = Some d"
  | (default) "entered" "S" "T" "A" "B" "d = fst (phaseDefault (policy_default policy) (bases_before ph_default) None)"
proof -
  note gates = guards_abstain [of sha e st] taint_pass [of "taint_policy policy" e]
    entry_pass [of sha "fst (getKillSwitchState env ks)" e "[]"]
  from adjudicate_unfold [of sha env e st policy ks] gates that
  show thesis
    by (simp add: entered_def S_def T_def A_def B_def d_def bases_before_def del: makePassBasis.simps split: option.splits)
qed

text \<open>
  The first of some guards that does not abstain decides with a kind; a rewrite must carry its own hash and
  no more trust than the proposal.
\<close>

fun decides :: "(string \<Rightarrow> string) \<Rightarrow> IntentEnvelope \<Rightarrow> 's \<Rightarrow> DecisionKind \<Rightarrow> 's Guard list \<Rightarrow> bool" where
  "decides sha e st k [] = False"
| "decides sha e st k (g # gs) = (case g_call g e st of
      Inl err \<Rightarrow> False
    | Inr None \<Rightarrow> decides sha e st k gs
    | Inr (Some d) \<Rightarrow> decision_kind d = k \<and> (case d of
          Rewrite e' w b \<Rightarrow> deriveIntentHash sha e' = Inr (e_intentHash e') \<and> e_taint e' \<le> e_taint e
        | _ \<Rightarrow> True))"

lemma gateRewrite_kind:
  assumes "k \<noteq> REFUSE"
  shows "decision_kind (gateRewrite sha d e) = k \<longleftrightarrow> decision_kind d = k \<and> (case d of
      Rewrite e' w b \<Rightarrow> deriveIntentHash sha e' = Inr (e_intentHash e') \<and> e_taint e' \<le> e_taint e | _ \<Rightarrow> True)"
  using assms
  by (auto simp: gateRewrite_def less_eq_Taint_def not_less [symmetric] decision_constructors guardPanicRefusal_def Let_def
      split: Decision.split sum.split)

lemma guards_decide:
  assumes "k \<noteq> REFUSE"
  shows "map_option decision_kind (run_checks (guard_checks sha e st p c n gs @ ds) acc) = Some k
    \<longleftrightarrow> decides sha e st k gs
      \<or> list_all (abstains e st) gs \<and> map_option decision_kind (run_checks ds (acc @ [makePassBasis c])) = Some k"
proof (induction gs arbitrary: n)
  case Nil
  show ?case by (simp add: guard_checks_def)
next
  case (Cons g gs)
  have kind: "decision_kind (enrichBasis d acc) = decision_kind d" for d by (cases d) simp_all
  show ?case
  proof (cases "g_call g e st")
    case (Inl err)
    then show ?thesis using assms by (simp add: guard_checks_def guard_fire_def abstains_def)
  next
    case (Inr x)
    then show ?thesis using Cons.IH [of "Suc n"] gateRewrite_kind [OF assms, of sha _ e]
      by (cases x) (auto simp: guard_checks_def guard_fire_def abstains_def kind)
  qed
qed

text \<open>C13: what gets past the gates, exactly. The kernel decides something other than a refusal, of a given
  kind, if and only if the kill switch is off, the version is supported, the stored hash is the re-derived
  one, and the first state guard that does not abstain decides so (a rewrite being content-addressed and no
  more trusted); or all state guards abstain, the taint gate passes, and the first auth guard that does not
  abstain decides so; or these abstain too and it is a business guard; or every guard abstains, the kind is EXECUTE and it is
  the default.\<close>

theorem adjudicate_admits:
  assumes "k \<noteq> REFUSE"
  shows "decision_kind (kernel_decision sha env e st policy ks) = k
    \<longleftrightarrow> \<not> killed env ks \<and> e_version e = INTENT_ENVELOPE_VERSION
      \<and> deriveIntentHash sha e = Inr (e_intentHash e)
      \<and> (decides sha e st k (stateGuards policy)
         \<or> list_all (abstains e st) (stateGuards policy) \<and> taint_ok (taint_policy policy) e
           \<and> (decides sha e st k (authGuards policy)
              \<or> list_all (abstains e st) (authGuards policy)
                \<and> (decides sha e st k (business policy)
                   \<or> list_all (abstains e st) (business policy) \<and> policy_default policy = default_EXECUTE \<and> k = EXECUTE)))"
proof -
  have run: "Some (decision_kind (kernel_decision sha env e st policy ks))
      = map_option decision_kind (run_checks (pipeline sha (fst (getKillSwitchState env ks)) e st policy) [])"
    using adjudicate_runs_pipeline [of sha env ks e st policy] by simp
  have dflt: "decision_kind (fst (phaseDefault (policy_default policy) acc None)) = k
      \<longleftrightarrow> policy_default policy = default_EXECUTE \<and> k = EXECUTE" for acc
    using assms by (auto simp: phaseDefault_def decision_constructors split: PolicyDefault.split)
  have taint: "map_option decision_kind (run_checks (taint_check (taint_policy policy) e # ds) acc) = Some k
      \<longleftrightarrow> taint_ok (taint_policy policy) e \<and> map_option decision_kind (run_checks ds (acc @ [makePassBasis pass_taint])) = Some k" for ds acc
    using assms taint_pass [of "taint_policy policy" e] taint_fire [of "taint_policy policy" e _ acc]
    by (cases "ck_fire (taint_check (taint_policy policy) e)") (auto simp: taint_check_def simp del: makePassBasis.simps)
  show ?thesis
  proof (cases "run_checks (entry_checks sha (fst (getKillSwitchState env ks)) e) []")
    case None
    then have gates: "\<not> killed env ks \<and> e_version e = INTENT_ENVELOPE_VERSION \<and> deriveIntentHash sha e = Inr (e_intentHash e)"
      by (simp add: entry_pass)
    have "decision_kind (kernel_decision sha env e st policy ks) = k
        \<longleftrightarrow> map_option decision_kind (run_checks (pipeline sha (fst (getKillSwitchState env ks)) e st policy) []) = Some k"
      unfolding run [symmetric] by simp
    also have "\<dots> \<longleftrightarrow> map_option decision_kind (run_checks (guard_checks sha e st ph_state pass_state 0 (stateGuards policy)
        @ taint_check (taint_policy policy) e # guard_checks sha e st ph_auth pass_auth 0 (authGuards policy)
        @ guard_checks sha e st ph_business pass_business 0 (business policy) @ [default_check (policy_default policy)])
        [basis cat_schema ''version_supported'' None]) = Some k"
      using gates by (simp add: pipeline_def kill_check_def version_check_def hash_check_def del: map_option_eq_Some)
    finally show ?thesis
      using gates by (simp only: guards_decide [OF assms] taint) (simp add: default_check_def dflt)
  next
    case (Some d)
    then have "decision_kind (kernel_decision sha env e st policy ks) = REFUSE"
      using adjudicate_unfold [of sha env e st policy ks] entry_fire [OF Some] by simp
    moreover have "\<not> (\<not> killed env ks \<and> e_version e = INTENT_ENVELOPE_VERSION \<and> deriveIntentHash sha e = Inr (e_intentHash e))"
      using Some by (auto simp: entry_None)
    ultimately show ?thesis using assms by blast
  qed
qed

text \<open>C16: a rewritten envelope that leaves the kernel is content-addressed and never more trusted than
  the proposal, and some guard proposed it; a guard's rewrite that fails either test becomes a
  refusal.\<close>

theorem adjudicate_rewrite_safe:
  assumes "kernel_decision sha env e st policy ks = Rewrite e' w b"
  shows "verifyResourceBinding sha e' = Bound \<and> e_taint e' \<le> e_taint e
    \<and> (\<exists>g\<in>set (stateGuards policy @ authGuards policy @ business policy). \<exists>b'. g_call g e st = Inr (Some (Rewrite e' w b')))"
proof -
  have nr: "decision_kind (kernel_decision sha env e st policy ks) \<noteq> REFUSE" by (simp add: assms)
  have rw: "?thesis" if run: "run_checks (guard_checks sha e st p c 0 gs) acc = Some (kernel_decision sha env e st policy ks)"
    and sub: "set gs \<subseteq> set (stateGuards policy @ authGuards policy @ business policy)" for p c gs acc
  proof -
    obtain g d' where g: "g \<in> set gs" "g_call g e st = Inr (Some d')" "Rewrite e' w b = enrichBasis d' acc"
      "\<forall>e'' w b. d' = Rewrite e'' w b \<longrightarrow> deriveIntentHash sha e'' = Inr (e_intentHash e'') \<and> e_taint e'' \<le> e_taint e"
      using guards_fire [OF run nr] assms by auto
    then obtain b' where "d' = Rewrite e' w b'" by (cases d') auto
    with g sub show ?thesis by (auto simp: verifyResourceBinding_Bound)
  qed
  show ?thesis
  proof (cases rule: adjudicate_cases [of env ks e sha st policy])
    case entry
    then show ?thesis using entry_fire nr by blast
  next
    case (taint f)
    then show ?thesis using taint_fire nr by metis
  next
    case default
    then show ?thesis using assms by (simp add: phaseDefault_def split: PolicyDefault.splits)
  next
    case state
    from rw [OF state(2)] show ?thesis by auto
  next
    case auth
    from rw [OF auth(4)] show ?thesis by auto
  next
    case business
    from rw [OF business(5)] show ?thesis by auto
  qed
qed

text \<open>C17: the taint gate comes before authorisation. When the state guards abstain and the gate does not
  pass, the decision is a SECURITY refusal of the taint phase, and no auth guard, business guard or
  default could have made a difference.\<close>

theorem taint_gate_precedes_auth:
  assumes "\<not> killed env ks" "e_version e = INTENT_ENVELOPE_VERSION" "deriveIntentHash sha e = Inr (e_intentHash e)"
    and "list_all (abstains e st) (stateGuards policy)" "\<not> taint_ok (taint_policy policy) e"
  shows "\<exists>r b. kernel_decision sha env e st policy ks = Refuse r b \<and> r_kind r = SECURITY_REFUSAL
      \<and> r_code r = (case canProposeWithOrigin (e_taint e) (e_kind e) (e_origin e) (taint_policy policy) of
           Inl err \<Rightarrow> ''guard_panic'' | Inr ok \<Rightarrow> ''taint_level_insufficient'')
      \<and> (\<forall>ag bg dflt. kernel_decision sha env e st (policy\<lparr>authGuards := ag, business := bg, policy_default := dflt\<rparr>) ks
           = Refuse r b)"
proof -
  obtain f where f: "ck_fire (taint_check (taint_policy policy) e) = Some f"
    using assms(5) taint_pass by fastforce
  have "kernel_decision sha env e st (policy\<lparr>authGuards := ag, business := bg, policy_default := dflt\<rparr>) ks
      = f (bases_before ph_taint)" for ag bg dflt
    using assms f adjudicate_unfold [of sha env e st "policy\<lparr>authGuards := ag, business := bg, policy_default := dflt\<rparr>" ks]
    by (simp add: entry_None bases_before_def del: makePassBasis.simps)
  moreover from this [of "policy_default policy" "business policy" "authGuards policy"]
  have "kernel_decision sha env e st policy ks = f (bases_before ph_taint)" by simp
  moreover have "\<exists>r b. f acc = Refuse r b \<and> r_kind r = SECURITY_REFUSAL
      \<and> r_code r = (case canProposeWithOrigin (e_taint e) (e_kind e) (e_origin e) (taint_policy policy) of
           Inl err \<Rightarrow> ''guard_panic'' | Inr ok \<Rightarrow> ''taint_level_insufficient'')" for acc
    using f by (auto simp: taint_check_def guardPanicRefusal_def taintRefusal_def Let_def canProposeWithOrigin_def
        split: sum.split_asm bool.split_asm)
  ultimately show ?thesis by metis
qed

text \<open>The phases of guards that adjudication reaches past the entry gates, with the bases they start from.\<close>

definition reached_guards ::
  "IntentEnvelope \<Rightarrow> 's \<Rightarrow> 's PolicyBundle \<Rightarrow> (AdjudicationTracePhase \<times> 's Guard list \<times> DecisionBasis list) list" where
  "reached_guards e st policy =
     (ph_state, stateGuards policy, [version_supported])
     # (if \<not> (list_all (abstains e st) (stateGuards policy) \<and> taint_ok (taint_policy policy) e) then []
        else (ph_auth, authGuards policy, [version_supported, makePassBasis pass_state, makePassBasis pass_taint])
          # (if \<not> list_all (abstains e st) (authGuards policy) then []
             else [(ph_business, business policy,
                [version_supported, makePassBasis pass_state, makePassBasis pass_taint, makePassBasis pass_auth])]))"

lemma panic_run:
  assumes "g_call g e st = Inl err"
  shows "list_all (abstains e st) gs \<Longrightarrow> run_checks (guard_checks sha e st p c n (gs @ g # post)) acc
      = Some (guardPanicRefusal p (Some (n + length gs)) (Some g) err acc)"
proof (induction gs arbitrary: n)
  case Nil
  show ?case by (simp add: guard_checks_def guard_fire_def assms)
next
  case (Cons a gs)
  then have "guard_fire sha e st p n a = None" by (simp add: abstains_def guard_fire_def)
  with Cons.IH [of "Suc n"] Cons.prems show ?case by (simp add: guard_checks_def)
qed

text \<open>C18: the kernel fails closed on a throwing guard, be it a state, an auth or a business guard: when the phase is
  reached past the entry gates and the guards before it abstain, the outcome is a SECURITY refusal
  \<open>guard_panic\<close> that names the phase and the position and keeps the bases of the checks passed, whatever the
  default is and whatever guards follow.\<close>

theorem guard_panic_fails_closed:
  assumes "\<not> killed env ks" "e_version e = INTENT_ENVELOPE_VERSION" "deriveIntentHash sha e = Inr (e_intentHash e)"
    and "(p, pre @ g # post, acc) \<in> set (reached_guards e st policy)"
    and "list_all (abstains e st) pre" "g_call g e st = Inl err"
  shows "kernel_decision sha env e st policy ks = guardPanicRefusal p (Some (length pre)) (Some g) err acc"
proof -
  note run = panic_run [OF assms(6,5), of sha _ _ 0 post, simplified]
  have t: "ck_fire (taint_check (taint_policy policy) e) = None" if "taint_ok (taint_policy policy) e"
    using that by (simp add: taint_pass)
  from assms(4) consider
      "p = ph_state" "stateGuards policy = pre @ g # post" "acc = [version_supported]"
    | "p = ph_auth" "authGuards policy = pre @ g # post" "list_all (abstains e st) (stateGuards policy)"
        "taint_ok (taint_policy policy) e" "acc = [version_supported, makePassBasis pass_state, makePassBasis pass_taint]"
    | "p = ph_business" "business policy = pre @ g # post" "list_all (abstains e st) (stateGuards policy)"
        "taint_ok (taint_policy policy) e" "list_all (abstains e st) (authGuards policy)"
        "acc = [version_supported, makePassBasis pass_state, makePassBasis pass_taint, makePassBasis pass_auth]"
    by (auto simp: reached_guards_def split: if_splits)
  then show ?thesis
    using assms(1-3) adjudicate_unfold [of sha env e st policy ks]
    by cases (simp_all add: entry_None run t guards_abstain [THEN iffD2] del: makePassBasis.simps)
qed

subsection \<open>The vocabulary\<close>

lemma known_basis [simp]: "isKnownBasisCode (basis c k d) \<longleftrightarrow> k \<in> set (BASIS_CODES c)"
  by (simp add: isKnownBasisCode_def)

lemma known_panic: "list_all isKnownBasisCode (d_basis (guardPanicRefusal p i g err acc)) \<longleftrightarrow> list_all isKnownBasisCode acc"
  by (simp add: guardPanicRefusal_def Let_def)

lemma entry_fire_code:
  assumes "run_checks (entry_checks sha kill e) [] = Some d"
  shows "(\<exists>r b. d = Refuse r b \<and> r_kind r = SECURITY_REFUSAL
    \<and> r_code r = (if active kill then ''kill_switch_active''
        else if e_version e \<noteq> INTENT_ENVELOPE_VERSION then ''schema_version_unsupported''
        else case deriveIntentHash sha e of Inl err \<Rightarrow> ''guard_panic'' | Inr h \<Rightarrow> ''intent_hash_mismatch''))
    \<and> list_all isKnownBasisCode (d_basis d)"
  using assms
  by (auto simp: entry_checks_def kill_check_def version_check_def hash_check_def killRefusal_def
        guardPanicRefusal_def Let_def split: if_split_asm sum.split_asm)

lemma known_gateRewrite:
  "list_all isKnownBasisCode (d_basis d) \<Longrightarrow> list_all isKnownBasisCode (d_basis (gateRewrite sha d e))"
  by (cases d) (auto simp: gateRewrite_def known_panic split: sum.split)

lemma known_guards:
  assumes "\<forall>g\<in>set gs. \<forall>d. g_call g e st = Inr (Some d) \<longrightarrow> list_all isKnownBasisCode (d_basis d)"
    "list_all isKnownBasisCode acc" "run_checks (guard_checks sha e st p c n gs) acc = Some d"
  shows "list_all isKnownBasisCode (d_basis d)"
  using assms(1,3)
proof (induction gs arbitrary: n)
  case (Cons g gs)
  then show ?case using assms(2) known_gateRewrite
    by (auto simp: guard_checks_def guard_fire_def known_panic split: sum.split_asm option.split_asm)
qed (simp add: guard_checks_def)

lemma known_bases_before: "list_all isKnownBasisCode (bases_before p)"
  unfolding bases_before_def list_all_iff
  by (intro ballI, drule in_set_takeD) (auto simp: version_supported_def simp del: makePassBasis.simps)

text \<open>The vocabulary is closed under adjudication: if the guards only use known basis codes, so does
  every decision of the kernel, on every path, panics and gated rewrites included.\<close>

lemma adjudicate_vocabulary:
  assumes "\<And>g d. g \<in> set (stateGuards policy @ authGuards policy @ business policy) \<Longrightarrow>
      g_call g e st = Inr (Some d) \<Longrightarrow> list_all isKnownBasisCode (d_basis d)"
  shows "list_all isKnownBasisCode (d_basis (kernel_decision sha env e st policy ks))"
proof (cases rule: adjudicate_cases [of env ks e sha st policy])
  case entry
  then show ?thesis using entry_fire_code by blast
next
  case state
  with assms show ?thesis by (intro known_guards [OF _ known_bases_before]) auto
next
  case (taint f)
  have "list_all isKnownBasisCode (d_basis (f acc)) \<longleftrightarrow> list_all isKnownBasisCode acc" for acc
    using taint(4) by (auto simp: taint_check_def known_panic taintRefusal_def Let_def
        split: sum.split_asm bool.split_asm)
  with taint(5) known_bases_before show ?thesis by simp
next
  case auth
  with assms show ?thesis by (intro known_guards [OF _ known_bases_before]) auto
next
  case business
  with assms show ?thesis by (intro known_guards [OF _ known_bases_before]) auto
next
  case default
  then show ?thesis using known_bases_before by (auto simp: phaseDefault_def split: PolicyDefault.splits)
qed

text \<open>C20: the first gates answer for every policy: an engaged kill switch, an unsupported version, content
  that has no canonical form and a hash that is not the content's are each a SECURITY refusal with
  its own code, in this order, before any guard runs.\<close>

theorem adjudicate_entry_gates:
  assumes "killed env ks \<or> e_version e \<noteq> INTENT_ENVELOPE_VERSION \<or> deriveIntentHash sha e \<noteq> Inr (e_intentHash e)"
  shows "\<exists>r b. kernel_decision sha env e st policy ks = Refuse r b \<and> r_kind r = SECURITY_REFUSAL
    \<and> r_code r = (if killed env ks then ''kill_switch_active''
        else if e_version e \<noteq> INTENT_ENVELOPE_VERSION then ''schema_version_unsupported''
        else case deriveIntentHash sha e of Inl err \<Rightarrow> ''guard_panic'' | Inr h \<Rightarrow> ''intent_hash_mismatch'')"
proof -
  obtain d where d: "run_checks (entry_checks sha (fst (getKillSwitchState env ks)) e) [] = Some d"
    using assms entry_pass [of sha "fst (getKillSwitchState env ks)" e "[]"] by fastforce
  then have "kernel_decision sha env e st policy ks = d" using adjudicate_unfold [of sha env e st policy ks] by simp
  with entry_fire_code [OF d] show ?thesis by simp
qed

subsection \<open>The statements at concrete inputs\<close>

definition sample_policy :: "unit PolicyBundle" where
  "sample_policy = \<lparr>stateGuards = [], authGuards = [],
     taint_policy = \<lparr>minimumFor = (\<lambda>k. if k = ''pay'' then Inr UNTRUSTED else Inr SYSTEM), requiresUncontaminatedOrigin = None\<rparr>,
     business = [], policy_default = default_EXECUTE\<rparr>"

lemma sample_policy_sel [simp]:
  "stateGuards sample_policy = []" "authGuards sample_policy = []" "business sample_policy = []"
  "policy_default sample_policy = default_EXECUTE" "taint_ok (taint_policy sample_policy) sample_envelope"
  by (simp_all add: sample_policy_def taint_ok_def canProposeWithOrigin_def canPropose_def)

lemma sample_not_killed [simp]: "\<not> killed Map.empty initialKillSwitch"
  by (simp add: getKillSwitchState_def ensureKillSwitchSeeded_def killSwitchEnvActive_def
      initialKillSwitch_def INERT_STATE_def Let_def)

lemma sample_decision:
  "kernel_decision sample_sha Map.empty sample_envelope () (sample_policy\<lparr>business := gs\<rparr>) initialKillSwitch
   = (case run_checks (guard_checks sample_sha sample_envelope () ph_business pass_business 0 gs) (bases_before ph_business) of
        Some d \<Rightarrow> d | None \<Rightarrow> Execute (bases_before ph_default))"
proof -
  let ?p = "sample_policy\<lparr>business := gs\<rparr>"
  have "run_checks (entry_checks sample_sha (fst (getKillSwitchState Map.empty initialKillSwitch)) sample_envelope) [] = None"
    by (intro entry_None) simp_all
  then show ?thesis
    using adjudicate_unfold [of sample_sha Map.empty sample_envelope "()" ?p initialKillSwitch]
    by (auto simp: bases_before_def phaseDefault_def simp del: makePassBasis.simps split: option.splits)
qed

lemma sample_default:
  "kernel_decision sample_sha Map.empty sample_envelope () sample_policy initialKillSwitch = Execute (bases_before ph_default)"
proof -
  have "sample_policy\<lparr>business := []\<rparr> = sample_policy" by (simp add: sample_policy_def)
  with sample_decision [of "[]"] show ?thesis by (simp add: guard_checks_def)
qed

theorem adjudicate_admits_witness: "taint_ok (taint_policy sample_policy) sample_envelope"
proof -
  have "decision_kind (kernel_decision sample_sha Map.empty sample_envelope () sample_policy initialKillSwitch) = EXECUTE"
    by (simp add: sample_default)
  then show ?thesis using adjudicate_admits [of EXECUTE sample_sha Map.empty sample_envelope "()" sample_policy initialKillSwitch]
    by simp
qed

theorem adjudicate_rewrite_safe_witness:
  "verifyResourceBinding sample_sha (sample_envelope\<lparr>e_createdAt := ''later''\<rparr>) = Bound"
proof -
  let ?e = "sample_envelope\<lparr>e_createdAt := ''later''\<rparr>"
  let ?g = "constant_guard (Rewrite ?e ''cap'' [])"
  have "deriveIntentHash sample_sha ?e = deriveIntentHash sample_sha sample_envelope"
    by (simp add: deriveIntentHash_def intentHashInput_def)
  then have "kernel_decision sample_sha Map.empty sample_envelope () (sample_policy\<lparr>business := [?g]\<rparr>) initialKillSwitch
      = Rewrite ?e ''cap'' (bases_before ph_business)"
    unfolding sample_decision
    by (simp add: guard_checks_def guard_fire_def constant_guard_def gateRewrite_def)
  from adjudicate_rewrite_safe [OF this] show ?thesis by blast
qed

theorem taint_gate_precedes_auth_witness:
  "\<exists>r b. kernel_decision sample_sha Map.empty sample_envelope ()
      (sample_policy\<lparr>taint_policy := \<lparr>minimumFor = (\<lambda>k. Inr TRUSTED), requiresUncontaminatedOrigin = None\<rparr>\<rparr>)
      initialKillSwitch = Refuse r b \<and> r_code r = ''taint_level_insufficient''"
proof -
  let ?p = "sample_policy\<lparr>taint_policy := \<lparr>minimumFor = (\<lambda>k. Inr TRUSTED), requiresUncontaminatedOrigin = None\<rparr>\<rparr>"
  have deny: "canProposeWithOrigin (e_taint sample_envelope) (e_kind sample_envelope) (e_origin sample_envelope) (taint_policy ?p) = Inr False"
    by (simp add: canProposeWithOrigin_def canPropose_def)
  then have "\<not> taint_ok (taint_policy ?p) sample_envelope" by (simp add: taint_ok_def)
  from taint_gate_precedes_auth [OF sample_not_killed _ _ _ this, of sample_sha "()"] deny show ?thesis by auto
qed

theorem guard_panic_fails_closed_witness:
  "decision_kind (kernel_decision sample_sha Map.empty sample_envelope ()
      (sample_policy\<lparr>authGuards := [anonymous_guard (\<lambda>e s. Inr None), anonymous_guard (\<lambda>e s. Inl (ErrorObj ''TypeError'' ''boom''))]\<rparr>)
      initialKillSwitch) = REFUSE"
proof -
  let ?n = "anonymous_guard (\<lambda>e s. Inr None) :: unit Guard"
  let ?t = "anonymous_guard (\<lambda>e s. Inl (ErrorObj ''TypeError'' ''boom'')) :: unit Guard"
  let ?acc = "[version_supported, makePassBasis pass_state, makePassBasis pass_taint]"
  have "kernel_decision sample_sha Map.empty sample_envelope () (sample_policy\<lparr>authGuards := [?n, ?t]\<rparr>) initialKillSwitch
      = guardPanicRefusal ph_auth (Some (length [?n])) (Some ?t) (ErrorObj ''TypeError'' ''boom'') ?acc"
  proof (rule guard_panic_fails_closed)
    show "(ph_auth, [?n] @ ?t # [], ?acc) \<in> set (reached_guards sample_envelope () (sample_policy\<lparr>authGuards := [?n, ?t]\<rparr>))"
      by (simp add: reached_guards_def)
  qed (simp_all add: abstains_def)
  then show ?thesis by simp
qed

lemma adjudicate_vocabulary_witness:
  "list_all isKnownBasisCode (d_basis (kernel_decision sample_sha Map.empty sample_envelope () sample_policy initialKillSwitch))"
  by (rule adjudicate_vocabulary) simp

theorem adjudicate_entry_gates_witness:
  "\<exists>r b. kernel_decision sample_sha Map.empty (sample_envelope\<lparr>e_payload := BigInt 1\<rparr>) () sample_policy initialKillSwitch = Refuse r b
     \<and> r_code r = ''guard_panic''"
proof -
  let ?e = "sample_envelope\<lparr>e_payload := BigInt 1\<rparr>"
  obtain err where err: "deriveIntentHash sample_sha ?e = Inl err"
    by (simp add: deriveIntentHash_def intentHashInput_def sha256Canonical_def canonicalJson_def
        sample_envelope_def actor_js_def canonicalize_Obj by_key_def obj_put_def is_index_key_def is_digit_def
        JSON_stringify_def)
  then show ?thesis
    using adjudicate_entry_gates [of Map.empty initialKillSwitch ?e sample_sha "()" sample_policy] by auto
qed

end
