(* ===== verification/Process.thy ===== *)
theory Process
  imports Prelude
begin

text \<open>
  Asynchronous code as resumptions. A process has finished with a result, or it waits to take one
  atomic step on the shared world; between the steps of one call other calls may run. Every call
  that the code makes is one step, synchronous ones too, so the interleavings here include those of
  the event loop, which switches at \<open>await\<close> only. \<open>run\<close> executes a process alone.
\<close>

datatype ('w, 'a) proc = Done "'a result" | Step "'w \<Rightarrow> ('w, 'a) proc \<times> 'w"

primrec run :: "('w, 'a) proc \<Rightarrow> ('w, 'a) eff" where
  "run (Done r) = (\<lambda>w. (r, w))"
| "run (Step f) = (\<lambda>w. case map_prod run id (f w) of (k, w') \<Rightarrow> k w')"

definition effP :: "('w, 'a) eff \<Rightarrow> ('w, 'a) proc" where
  "effP m = Step (\<lambda>w. case m w of (r, w') \<Rightarrow> (Done r, w'))"

definition retP :: "'a \<Rightarrow> ('w, 'a) proc" where
  "retP x = Done (Inr x)"

definition throwP :: "thrown \<Rightarrow> ('w, 'a) proc" where
  "throwP e = Done (Inl e)"

text \<open>A synchronous computation without effect that may throw.\<close>

definition resultP :: "'a result \<Rightarrow> ('w, 'a) proc" where
  "resultP r = Done r"

primrec bindP :: "('w, 'a) proc \<Rightarrow> ('a \<Rightarrow> ('w, 'b) proc) \<Rightarrow> ('w, 'b) proc" where
  "bindP (Done r) = (\<lambda>f. case r of Inl e \<Rightarrow> Done (Inl e) | Inr x \<Rightarrow> f x)"
| "bindP (Step g) = (\<lambda>f. Step (\<lambda>w. map_prod (\<lambda>k. k f) id (map_prod bindP id (g w))))"

primrec tryP :: "('w, 'a) proc \<Rightarrow> (thrown \<Rightarrow> ('w, 'a) proc) \<Rightarrow> ('w, 'a) proc" where
  "tryP (Done r) = (\<lambda>h. case r of Inl e \<Rightarrow> h e | Inr x \<Rightarrow> Done (Inr x))"
| "tryP (Step g) = (\<lambda>h. Step (\<lambda>w. map_prod (\<lambda>k. k h) id (map_prod tryP id (g w))))"

text \<open>\<open>try p finally f\<close>: the outcome of \<open>p\<close> is kept unless \<open>f\<close> throws.\<close>

primrec finallyP :: "('w, 'a) proc \<Rightarrow> ('w, unit) proc \<Rightarrow> ('w, 'a) proc" where
  "finallyP (Done r) = (\<lambda>f. bindP f (\<lambda>_. Done r))"
| "finallyP (Step g) = (\<lambda>f. Step (\<lambda>w. map_prod (\<lambda>k. k f) id (map_prod finallyP id (g w))))"

lemma proc_step_induct [case_names Done Step]:
  assumes "\<And>r. P (Done r)" "\<And>g. (\<And>w. P (fst (g w))) \<Longrightarrow> P (Step g)"
  shows "P p"
proof (induction p)
  case (Step g)
  show ?case
  proof (rule assms(2))
    show "P (fst (g w))" for w
      by (rule Step [of "g w"]) (auto simp: prod_set_defs)
  qed
qed (rule assms(1))

lemma step_simps [simp]:
  "bindP (Step g) f = Step (\<lambda>w. (bindP (fst (g w)) f, snd (g w)))"
  "tryP (Step g) h = Step (\<lambda>w. (tryP (fst (g w)) h, snd (g w)))"
  "finallyP (Step g) p = Step (\<lambda>w. (finallyP (fst (g w)) p, snd (g w)))"
  by (simp_all add: map_prod_def case_prod_unfold)

declare bindP.simps(2) [simp del] tryP.simps(2) [simp del] finallyP.simps(2) [simp del]

lemma run_Step [simp]: "run (Step g) w = run (fst (g w)) (snd (g w))"
  by (simp add: case_prod_unfold)

declare run.simps(2) [simp del]

lemma run_effP [simp]: "run (effP m) = m"
  by (rule ext) (simp add: effP_def case_prod_unfold)

lemma run_retP [simp]: "run (retP x) = retE x"
  by (rule ext) (simp add: retP_def retE_def)

lemma run_throwP [simp]: "run (throwP e) = throwE e"
  by (rule ext) (simp add: throwP_def throwE_def)

lemma run_resultP [simp]: "run (resultP r) = (\<lambda>w. (r, w))"
  by (rule ext) (simp add: resultP_def)

lemma run_bindP [simp]: "run (bindP p f) = bindE (run p) (\<lambda>x. run (f x))"
proof (rule ext)
  show "run (bindP p f) w = bindE (run p) (\<lambda>x. run (f x)) w" for w
    by (induction p arbitrary: w rule: proc_step_induct) (auto simp: bindE_def split: sum.splits)
qed

lemma run_tryP [simp]: "run (tryP p h) = tryE (run p) (\<lambda>e. run (h e))"
proof (rule ext)
  show "run (tryP p h) w = tryE (run p) (\<lambda>e. run (h e)) w" for w
    by (induction p arbitrary: w rule: proc_step_induct) (auto simp: tryE_def split: sum.splits)
qed

lemma run_finallyP [simp]: "run (finallyP p f) = finallyE (run p) (run f)"
proof (rule ext)
  show "run (finallyP p f) w = finallyE (run p) (run f) w" for w
    by (induction p arbitrary: w rule: proc_step_induct)
      (auto simp: finallyE_def bindE_def split: sum.splits prod.splits)
qed

subsection \<open>Interleaving\<close>

text \<open>
  A system is the world and the calls in progress, by identity. A step lets one unfinished call
  take its next atomic step, starts a new call, or lets the environment act on the world.
\<close>

type_synonym ('w, 'a) system = "'w \<times> (nat \<rightharpoonup> ('w, 'a) proc)"

inductive system_step ::
  "('w, 'a) proc set \<Rightarrow> ('w \<Rightarrow> 'w \<Rightarrow> bool) \<Rightarrow> ('w, 'a) system \<Rightarrow> ('w, 'a) system \<Rightarrow> bool"
  for calls env_step where
  call_step: "ts i = Some (Step g) \<Longrightarrow> g w = (k, w') \<Longrightarrow> system_step calls env_step (w, ts) (w', ts(i \<mapsto> k))"
| call_start: "ts i = None \<Longrightarrow> p \<in> calls \<Longrightarrow> system_step calls env_step (w, ts) (w, ts(i \<mapsto> p))"
| environment: "env_step w w' \<Longrightarrow> system_step calls env_step (w, ts) (w', ts)"

definition reachable ::
  "('w, 'a) proc set \<Rightarrow> ('w \<Rightarrow> 'w \<Rightarrow> bool) \<Rightarrow> 'w \<Rightarrow> ('w, 'a) system \<Rightarrow> bool" where
  "reachable calls env_step w0 s = (system_step calls env_step)\<^sup>*\<^sup>* (w0, Map.empty) s"

inductive_cases system_stepE: "system_step calls env_step s s'"

lemma reachable_induct [consumes 1, case_names init step]:
  assumes "reachable calls env_step w0 s" "P (w0, Map.empty)"
    "\<And>s s'. reachable calls env_step w0 s \<Longrightarrow> P s \<Longrightarrow> system_step calls env_step s s' \<Longrightarrow> P s'"
  shows "P s"
  using assms(1) unfolding reachable_def
  by (induction rule: rtranclp_induct) (use assms(2,3) in \<open>auto simp: reachable_def\<close>)

text \<open>A call that runs alone to its end is one of the interleavings.\<close>

lemma run_reachable:
  assumes "reachable calls env_step w0 (w, ts)" "ts i = Some p"
  shows "reachable calls env_step w0 (snd (run p w), ts(i \<mapsto> Done (fst (run p w))))"
  using assms
proof (induction p arbitrary: w ts rule: proc_step_induct)
  case (Done r)
  then show ?case by (simp add: fun_upd_idem)
next
  case (Step g)
  have "system_step calls env_step (w, ts) (snd (g w), ts(i \<mapsto> fst (g w)))"
    by (rule call_step [where g = g]) (use Step.prems(2) in simp_all)
  then have "reachable calls env_step w0 (snd (g w), ts(i \<mapsto> fst (g w)))"
    using Step.prems(1) unfolding reachable_def by (rule rtranclp.rtrancl_into_rtrancl [rotated])
  from Step.IH [OF this] show ?case by (simp cong: if_cong only: fun_upd_same fun_upd_upd run_Step simp_thms)
qed

lemma start_reachable:
  assumes "p \<in> calls"
  shows "reachable calls env_step w0 (snd (run p w0), [i \<mapsto> Done (fst (run p w0))])"
proof -
  have "system_step calls env_step (w0, Map.empty) (w0, [i \<mapsto> p])"
    using call_start [of Map.empty i p calls env_step w0] assms by simp
  then have "reachable calls env_step w0 (w0, [i \<mapsto> p])"
    unfolding reachable_def by (rule r_into_rtranclp)
  from run_reachable [OF this, of i p] show ?thesis by simp
qed

end
