(* ===== verification/Telemetry.thy ===== *)
theory Telemetry
  imports Kernel Process
begin

text \<open>
  The events of the metrics and learning sinks (packages/core/src/kernel/metrics.ts, learning.ts)
  and what is read off a trace for them. A sink is adopter code: each of its methods is an effect
  that may throw.
\<close>

datatype ledger_op = op_check | op_record

datatype ledger_outcome = lo_hit | lo_miss | lo_ok | lo_duplicate | lo_error

record LedgerOpEvent =
  lo_op :: ledger_op
  lo_outcome :: ledger_outcome
  lo_intentKind :: string
  lo_latencyMs :: int
  lo_intentHash :: string

record DecisionEvent =
  de_intentKind :: string
  de_decision :: DecisionKind
  de_latencyMs :: int
  de_basisCount :: nat
  de_intentHash :: string

record RefusalEvent =
  re_intentKind :: string
  re_refusal :: Refusal
  re_intentHash :: string

record SinkFailureEvent =
  sf_sink :: string
  sf_subject :: string
  sf_errorClass :: string
  sf_consecutiveFailures :: nat

record LearningEvent =
  ln_intentKind :: string
  ln_decisionKind :: DecisionKind
  ln_basisCodes :: "string list"
  ln_taint :: Taint
  ln_durationMs :: int
  ln_intentHash :: string
  ln_guardId :: "string option"
  ln_guardName :: "string option"
  ln_guardPhase :: "AdjudicationTracePhase option"
  ln_planFingerprint :: "string option"
  ln_at :: string

record 'w Telemetry =
  recordLedgerOp :: "LedgerOpEvent \<Rightarrow> ('w, unit) eff"
  recordDecision :: "DecisionEvent \<Rightarrow> ('w, unit) eff"
  recordRefusal :: "RefusalEvent \<Rightarrow> ('w, unit) eff"
  recordSinkFailure :: "SinkFailureEvent \<Rightarrow> ('w, unit) eff"
  recordOutcome :: "LearningEvent \<Rightarrow> ('w, unit) eff"

text \<open>The sinks that are installed until an adopter sets others: they do nothing.\<close>

definition noopTelemetry :: "'w Telemetry" where
  "noopTelemetry = \<lparr>recordLedgerOp = (\<lambda>_. retE ()), recordDecision = (\<lambda>_. retE ()),
     recordRefusal = (\<lambda>_. retE ()), recordSinkFailure = (\<lambda>_. retE ()), recordOutcome = (\<lambda>_. retE ())\<rparr>"

definition sinkFailure :: "string \<Rightarrow> string \<Rightarrow> string \<Rightarrow> SinkFailureEvent" where
  "sinkFailure sink subject errorClass = \<lparr>sf_sink = sink, sf_subject = subject,
     sf_errorClass = errorClass, sf_consecutiveFailures = 1\<rparr>"

definition matchedGuardIdFromTrace :: "AdjudicationTraceEntry list \<Rightarrow> string option" where
  "matchedGuardIdFromTrace trace =
     (case List.find (\<lambda>e. t_outcome e = Match \<and> t_phase e \<in> {ph_state, ph_auth, ph_business}) trace of
        None \<Rightarrow> None | Some e \<Rightarrow> t_guardName e)"

definition matchedGuardPhaseFromTrace :: "AdjudicationTraceEntry list \<Rightarrow> AdjudicationTracePhase option" where
  "matchedGuardPhaseFromTrace trace =
     (case List.find (\<lambda>e. t_outcome e = Match \<and> t_phase e \<in> {ph_state, ph_taint, ph_auth, ph_business}) trace of
        None \<Rightarrow> None | Some e \<Rightarrow> Some (t_phase e))"

text \<open>
  The module-level state of the code: the digest, the environment snapshot, the kill switch inside
  the world, and the module-level sinks.
\<close>

record 'w Module =
  m_sha :: "string \<Rightarrow> string"
  m_env :: env
  m_getKill :: "'w \<Rightarrow> KillSwitchModule"
  m_putKill :: "KillSwitchModule \<Rightarrow> 'w \<Rightarrow> 'w"
  m_telemetry :: "'w Telemetry"

definition adjudicateE ::
  "'w Module \<Rightarrow> IntentEnvelope \<Rightarrow> 's \<Rightarrow> 's PolicyBundle \<Rightarrow> ('w, Decision) eff" where
  "adjudicateE m e st policy = (\<lambda>w.
     let (d, ks) = adjudicate (m_sha m) (m_env m) e st policy (m_getKill m w) in (Inr d, m_putKill m ks w))"

definition adjudicateWithTraceE ::
  "'w Module \<Rightarrow> IntentEnvelope \<Rightarrow> 's \<Rightarrow> 's PolicyBundle \<Rightarrow> ('w, Decision \<times> AdjudicationTraceEntry list) eff" where
  "adjudicateWithTraceE m e st policy = (\<lambda>w.
     let (r, ks) = adjudicateWithTrace (m_sha m) (m_env m) e st policy (m_getKill m w) in (Inr r, m_putKill m ks w))"

subsection \<open>Adjudication with a learning event\<close>

record 'w AdjudicateAndLearnOptions =
  al_planFingerprint :: "string option"
  al_now :: "('w, int) eff"
  al_clockIso :: "('w, string) eff"

definition adjudicateAndLearn ::
  "'w Module \<Rightarrow> IntentEnvelope \<Rightarrow> 's \<Rightarrow> 's PolicyBundle \<Rightarrow> 'w AdjudicateAndLearnOptions \<Rightarrow> ('w, Decision) eff" where
  "adjudicateAndLearn m envelope st policy options =
     bindE (al_now options) (\<lambda>start.
     bindE (adjudicateWithTraceE m envelope st policy) (\<lambda>(decision, trace).
     bindE (al_now options) (\<lambda>t.
     let guardId = matchedGuardIdFromTrace trace in
     thenE (tryE
        (bindE (al_clockIso options) (\<lambda>tnow. recordOutcome (m_telemetry m)
           \<lparr>ln_intentKind = e_kind envelope, ln_decisionKind = decision_kind decision,
            ln_basisCodes = flattenBasis (d_basis decision), ln_taint = e_taint envelope,
            ln_durationMs = t - start, ln_intentHash = e_intentHash envelope, ln_guardId = guardId,
            ln_guardName = guardId, ln_guardPhase = matchedGuardPhaseFromTrace trace,
            ln_planFingerprint = al_planFingerprint options, ln_at = tnow\<rparr>))
        (\<lambda>err. recordSinkFailure (m_telemetry m)
           (sinkFailure ''console'' (e_intentHash envelope)
              (case err of ErrorObj n msg \<Rightarrow> ''learning_sink_failure:'' @ n
               | ThrownValue s \<Rightarrow> ''learning_sink_failure''))))
     (retE decision))))"

lemma adjudicateWithTraceE_decision:
  "adjudicateWithTraceE m e st policy w = (Inr (d, t), w') \<longleftrightarrow>
     adjudicateE m e st policy w = (Inr d, w') \<and>
     t = snd (fst (adjudicateWithTrace (m_sha m) (m_env m) e st policy (m_getKill m w)))"
  using adjudicateWithTrace_faithful' [of "m_sha m" "m_env m" e st policy "m_getKill m w"]
  by (auto simp: adjudicateWithTraceE_def adjudicateE_def Let_def split: prod.splits)

end
