(* ===== verification/Claiming.thy ===== *)
theory Claiming
  imports Process
begin

text \<open>
  Keys that processes claim and release, on interleaved processes. Every process is followed with a
  ghost, the key it has claimed and not released; the claims of different processes stay distinct,
  so that at most one process can finish in the possession of a key.
\<close>

definition frame :: "('w \<Rightarrow> 'h) \<Rightarrow> ('w, 'a) eff \<Rightarrow> bool" where
  "frame held m \<longleftrightarrow> (\<forall>w. held (snd (m w)) = held w)"

subsection \<open>Following a process with its claim\<close>

text \<open>
  What one step may do to the own claim and to the held keys: keep, take a free key, or drop.
\<close>

definition claim_step :: "string option \<Rightarrow> string set \<Rightarrow> string option \<Rightarrow> string set \<Rightarrow> bool" where
  "claim_step c H c' H' \<longleftrightarrow>
     (c' = c \<and> H \<subseteq> H')
   \<or> (\<exists>h. c = None \<and> c' = Some h \<and> h \<notin> H \<and> insert h H \<subseteq> H')
   \<or> (\<exists>h. c = Some h \<and> c' = None \<and> H - {h} \<subseteq> H')"

primrec safe ::
  "('w \<Rightarrow> string set) \<Rightarrow> ('w, 'a) proc \<Rightarrow> string option \<Rightarrow> (string option \<Rightarrow> 'a result \<Rightarrow> bool) \<Rightarrow> bool" where
  "safe held (Done r) = (\<lambda>c Q. Q c r)"
| "safe held (Step g) = (\<lambda>c Q. \<forall>w. (\<forall>h. c = Some h \<longrightarrow> h \<in> held w) \<longrightarrow>
     (case map_prod (safe held) id (g w) of (s, w') \<Rightarrow>
        \<exists>c'. claim_step c (held w) c' (held w') \<and> s c' Q))"

lemma safe_Step [simp]:
  "safe held (Step g) c Q \<longleftrightarrow> (\<forall>w. (\<forall>h. c = Some h \<longrightarrow> h \<in> held w) \<longrightarrow>
     (\<exists>c'. claim_step c (held w) c' (held (snd (g w))) \<and> safe held (fst (g w)) c' Q))"
  by (simp add: case_prod_unfold)

declare safe.simps(2) [simp del]

lemma claim_step_refl: "H \<subseteq> H' \<Longrightarrow> claim_step c H c H'"
  by (simp add: claim_step_def)

lemma safe_mono:
  "safe held p c Q \<Longrightarrow> (\<And>c r. Q c r \<Longrightarrow> Q' c r) \<Longrightarrow> safe held p c Q'"
proof (induction p arbitrary: c rule: proc_step_induct)
  case (Step g)
  then show ?case unfolding safe_Step by metis
qed simp

lemma safe_bind:
  "safe held p c (\<lambda>c' r. case r of Inl e \<Rightarrow> Q c' (Inl e) | Inr x \<Rightarrow> safe held (f x) c' Q)
     \<Longrightarrow> safe held (bindP p f) c Q"
proof (induction p arbitrary: c rule: proc_step_induct)
  case (Done r)
  then show ?case by (cases r) simp_all
next
  case (Step g)
  then show ?case by fastforce
qed

lemma safe_try:
  "safe held p c (\<lambda>c' r. case r of Inl e \<Rightarrow> safe held (h e) c' Q | Inr x \<Rightarrow> Q c' (Inr x))
     \<Longrightarrow> safe held (tryP p h) c Q"
proof (induction p arbitrary: c rule: proc_step_induct)
  case (Done r)
  then show ?case by (cases r) simp_all
next
  case (Step g)
  then show ?case by fastforce
qed

lemma safe_finally:
  "safe held p c (\<lambda>c' r. safe held f c' (\<lambda>c'' u. case u of Inl e \<Rightarrow> Q c'' (Inl e) | Inr _ \<Rightarrow> Q c'' r))
     \<Longrightarrow> safe held (finallyP p f) c Q"
proof (induction p arbitrary: c rule: proc_step_induct)
  case (Done r)
  have "safe held f c (\<lambda>c' u. case u of Inl e \<Rightarrow> Q c' (Inl e) | Inr x \<Rightarrow> safe held (Done r) c' Q)"
    using Done by (simp cong: sum.case_cong)
  then show ?case by (simp add: safe_bind)
next
  case (Step g)
  then show ?case by fastforce
qed

lemma safe_eff:
  assumes "frame held m" "\<And>w. Q c (fst (m w))"
  shows "safe held (effP m) c Q"
  using assms by (auto simp: effP_def frame_def case_prod_unfold intro!: exI [of _ c] claim_step_refl)

text \<open>Parts that touch no key: the claim is kept, and the result satisfies \<open>R\<close>.\<close>

definition kept :: "('w \<Rightarrow> string set) \<Rightarrow> ('w, 'a) proc \<Rightarrow> ('a result \<Rightarrow> bool) \<Rightarrow> bool" where
  "kept held p R \<longleftrightarrow> (\<forall>c. safe held p c (\<lambda>c' r. c' = c \<and> R r))"

abbreviation quiet :: "('w \<Rightarrow> string set) \<Rightarrow> ('w, 'a) proc \<Rightarrow> bool" where
  "quiet held p \<equiv> kept held p (\<lambda>_. True)"

named_theorems quiet_intros \<open>introduction rules for processes that touch no ledger key\<close>

lemma kept_Done: "R r \<Longrightarrow> kept held (Done r) R"
  by (simp add: kept_def)

lemma kept_ret: "R (Inr x) \<Longrightarrow> kept held (retP x) R"
  by (simp add: retP_def kept_Done)

lemma kept_eff: "frame held m \<Longrightarrow> (\<And>w. R (fst (m w))) \<Longrightarrow> kept held (effP m) R"
  by (simp add: kept_def safe_eff)

lemma kept_bind:
  assumes "kept held p P" "\<And>e. P (Inl e) \<Longrightarrow> R (Inl e)" "\<And>x. P (Inr x) \<Longrightarrow> kept held (f x) R"
  shows "kept held (bindP p f) R"
  unfolding kept_def
proof
  fix c
  have "safe held p c (\<lambda>c' r. c' = c \<and> P r)" using assms(1) by (simp add: kept_def)
  then show "safe held (bindP p f) c (\<lambda>c' r. c' = c \<and> R r)"
  proof (rule safe_bind [OF safe_mono], goal_cases)
    case (1 c' r)
    then show ?case using assms(2,3) by (cases r) (simp_all add: kept_def)
  qed
qed

lemma kept_try:
  assumes "kept held p P" "\<And>x. P (Inr x) \<Longrightarrow> R (Inr x)" "\<And>e. P (Inl e) \<Longrightarrow> kept held (h e) R"
  shows "kept held (tryP p h) R"
  unfolding kept_def
proof
  fix c
  have "safe held p c (\<lambda>c' r. c' = c \<and> P r)" using assms(1) by (simp add: kept_def)
  then show "safe held (tryP p h) c (\<lambda>c' r. c' = c \<and> R r)"
  proof (rule safe_try [OF safe_mono], goal_cases)
    case (1 c' r)
    then show ?case using assms(2,3) by (cases r) (simp_all add: kept_def)
  qed
qed

lemma kept_mono:
  assumes "kept held p P" "\<And>r. P r \<Longrightarrow> R r"
  shows "kept held p R"
  unfolding kept_def
proof
  fix c
  have "safe held p c (\<lambda>c' r. c' = c \<and> P r)" using assms(1) by (simp add: kept_def)
  then show "safe held p c (\<lambda>c' r. c' = c \<and> R r)"
    by (rule safe_mono) (simp add: assms(2))
qed

lemma quiet_finally:
  assumes "kept held p R" "\<And>e. R (Inl e)" "quiet held f"
  shows "kept held (finallyP p f) R"
  unfolding kept_def
proof
  fix c
  have f: "safe held f c (\<lambda>c' r. c' = c)" using assms(3) by (simp add: kept_def)
  have "safe held f c (\<lambda>c'' u. case u of Inl e \<Rightarrow> c'' = c \<and> R (Inl e) | Inr _ \<Rightarrow> c'' = c \<and> R r)" if "R r" for r
    by (rule safe_mono [OF f]) (use that assms(2) in \<open>auto split: sum.split\<close>)
  moreover have "safe held p c (\<lambda>c' r. c' = c \<and> R r)" using assms(1) by (simp add: kept_def)
  ultimately show "safe held (finallyP p f) c (\<lambda>c' r. c' = c \<and> R r)"
    by (intro safe_finally) (erule safe_mono, simp)
qed

lemma quiet_basic [quiet_intros]:
  "quiet held (retP x)" "quiet held (throwP e)" "quiet held (resultP r)"
  by (simp_all add: retP_def throwP_def resultP_def kept_Done)

lemma quiet_eff [quiet_intros]: "frame held m \<Longrightarrow> quiet held (effP m)"
  by (simp add: kept_eff)

lemma quiet_bind [quiet_intros]: "quiet held p \<Longrightarrow> (\<And>x. quiet held (f x)) \<Longrightarrow> quiet held (bindP p f)"
  by (rule kept_bind)

lemma quiet_try [quiet_intros]: "quiet held p \<Longrightarrow> (\<And>e. quiet held (h e)) \<Longrightarrow> quiet held (tryP p h)"
  by (rule kept_try)

lemma quiet_finallyP [quiet_intros]: "quiet held p \<Longrightarrow> quiet held f \<Longrightarrow> quiet held (finallyP p f)"
  by (rule quiet_finally) simp_all

text \<open>Continuing after a part that touches no key.\<close>

lemma safe_kept_bind:
  assumes "kept held p P" "\<And>e. P (Inl e) \<Longrightarrow> Q c (Inl e)" "\<And>x. P (Inr x) \<Longrightarrow> safe held (f x) c Q"
  shows "safe held (bindP p f) c Q"
proof -
  have "safe held p c (\<lambda>c' r. c' = c \<and> P r)" using assms(1) by (simp add: kept_def)
  then show ?thesis
  proof (rule safe_bind [OF safe_mono], goal_cases)
    case (1 c' r)
    then show ?case using assms(2,3) by (cases r) simp_all
  qed
qed

subsection \<open>Frames\<close>

lemma frame_simps [simp]:
  "frame held (retE x)" "frame held (throwE e)"
  by (simp_all add: frame_def retE_def throwE_def)

lemma frame_bind: "frame held m \<Longrightarrow> (\<And>x. frame held (f x)) \<Longrightarrow> frame held (bindE m f)"
  by (auto simp: frame_def bindE_def split: prod.splits sum.splits) (metis snd_conv)+

lemma frame_try: "frame held m \<Longrightarrow> (\<And>e. frame held (h e)) \<Longrightarrow> frame held (tryE m h)"
  by (auto simp: frame_def tryE_def split: prod.splits sum.splits) (metis snd_conv)+

subsection \<open>All calls together\<close>

text \<open>The claims of the calls in progress are held, distinct, and each call is safe with its own.\<close>

definition coordinated ::
  "('w \<Rightarrow> string set) \<Rightarrow> (string option \<Rightarrow> 'a result \<Rightarrow> bool) \<Rightarrow> ('w, 'a) system \<Rightarrow> bool" where
  "coordinated held settled s \<longleftrightarrow> (case s of (w, ts) \<Rightarrow> \<exists>C. (\<forall>i h. C i = Some h \<longrightarrow> h \<in> held w \<and> ts i \<noteq> None)
     \<and> (\<forall>i j h. C i = Some h \<longrightarrow> C j = Some h \<longrightarrow> i = j)
     \<and> (\<forall>i p. ts i = Some p \<longrightarrow> safe held p (C i) settled))"

lemma coordinated_step:
  assumes "coordinated held settled s" "system_step calls env_step s s'"
    and calls: "\<And>p. p \<in> calls \<Longrightarrow> safe held p None settled"
    and env: "\<And>w w'. env_step w w' \<Longrightarrow> held w \<subseteq> held w'"
  shows "coordinated held settled s'"
  using assms(2)
proof cases
  case (call_step ts i g w k w')
  with assms(1) obtain C where C: "\<And>i h. C i = Some h \<Longrightarrow> h \<in> held w \<and> ts i \<noteq> None"
    "\<And>i j h. C i = Some h \<Longrightarrow> C j = Some h \<Longrightarrow> i = j" "\<And>i p. ts i = Some p \<Longrightarrow> safe held p (C i) settled"
    unfolding coordinated_def by blast
  have "safe held (Step g) (C i) settled" using C(3) call_step by blast
  with C(1) call_step obtain c' where c': "claim_step (C i) (held w) c' (held w')" "safe held k c' settled"
    by fastforce
  let ?C = "C(i := c')"
  have "h \<in> held w' \<and> (ts(i \<mapsto> k)) j \<noteq> None" if "?C j = Some h" for j h
    using that c'(1) C(1) [of j h] C(1) [of i] C(2) [of i h j] by (auto simp: claim_step_def split: if_splits)
  moreover have "j = j'" if "?C j = Some h" "?C j' = Some h" for j j' h
    using that c'(1) C(1) [of _ h] C(2) [of _ h] by (auto simp: claim_step_def split: if_splits)
  moreover have "safe held p (?C j) settled" if "(ts(i \<mapsto> k)) j = Some p" for j p
    using that c'(2) C(3) by (auto split: if_splits)
  ultimately show ?thesis unfolding call_step coordinated_def prod.case by blast
next
  case (call_start ts i p w)
  with assms(1) obtain C where C: "\<And>i h. C i = Some h \<Longrightarrow> h \<in> held w \<and> ts i \<noteq> None"
    "\<And>i j h. C i = Some h \<Longrightarrow> C j = Some h \<Longrightarrow> i = j" "\<And>i p. ts i = Some p \<Longrightarrow> safe held p (C i) settled"
    unfolding coordinated_def by blast
  have "C i = None" using C(1) [of i] call_start by (cases "C i") auto
  then have "safe held q (C j) settled" if "(ts(i \<mapsto> p)) j = Some q" for j q
    using that C(3) calls call_start by (auto split: if_splits)
  moreover have "h \<in> held w \<and> (ts(i \<mapsto> p)) j \<noteq> None" if "C j = Some h" for j h
    using C(1) [OF that] by auto
  ultimately show ?thesis unfolding call_start coordinated_def prod.case using C(2) by blast
next
  case (environment w w' ts)
  with assms(1) env show ?thesis unfolding coordinated_def prod.case by blast
qed

lemma coordinated_reachable:
  assumes "reachable calls env_step w0 s" "\<And>p. p \<in> calls \<Longrightarrow> safe held p None settled"
    "\<And>w w'. env_step w w' \<Longrightarrow> held w \<subseteq> held w'"
  shows "coordinated held settled s"
  using assms(1)
proof (induction rule: reachable_induct)
  case init
  show ?case unfolding coordinated_def prod.case by (intro exI [of _ "\<lambda>_. None"]) simp
next
  case (step s s')
  from coordinated_step [OF step(3,2) assms(2,3)] show ?case .
qed

text \<open>Two finished calls in the possession of the same key are the same call.\<close>

lemma one_holder:
  assumes "reachable calls env_step w0 (w, ts)" "\<And>p. p \<in> calls \<Longrightarrow> safe held p None settled"
    and "\<And>w w'. env_step w w' \<Longrightarrow> held w \<subseteq> held w'"
    and "ts i = Some (Done r)" "ts j = Some (Done r')"
    and "\<And>c. settled c r \<Longrightarrow> c = Some h" "\<And>c. settled c r' \<Longrightarrow> c = Some h"
  shows "i = j"
proof -
  from coordinated_reachable [OF assms(1-3)] obtain C where
    C: "\<And>i j h. C i = Some h \<Longrightarrow> C j = Some h \<Longrightarrow> i = j" "\<And>i p. ts i = Some p \<Longrightarrow> safe held p (C i) settled"
    unfolding coordinated_def by auto
  have "C i = Some h" "C j = Some h"
    using C(2) [OF assms(4)] C(2) [OF assms(5)] assms(6,7) by simp_all
  with C(1) show ?thesis by metis
qed

end
