(* ===== verification/Ledger.thy ===== *)
theory Ledger
  imports Claiming
begin

text \<open>
  The execution ledger: the interface of packages/core/src/ledger.ts, its contract as a locale, and
  the in-memory ledger (packages/audit/src/ledger-memory.ts).
\<close>

record LedgerHit =
  lh_resourceVersion :: string
  lh_at :: string
  lh_sessionId :: string
  lh_kind :: string

record LedgerRecordInput =
  le_intentHash :: string
  le_resourceVersion :: string
  le_sessionId :: string
  le_kind :: string

datatype LedgerRecordOutcome = acquired | exists

record 'w Ledger =
  checkLedger :: "string \<Rightarrow> ('w, LedgerHit option) eff"
  recordExecution :: "LedgerRecordInput \<Rightarrow> ('w, LedgerRecordOutcome) eff"
  release :: "(string \<Rightarrow> ('w, unit) eff) option"

subsection \<open>The in-memory ledger\<close>

text \<open>
  Each ledger closes over its own \<open>Map\<close>. The world of the model is any type with a lens to that
  store and a clock for \<open>new Date().toISOString()\<close>.
\<close>

type_synonym ledger_store = "string \<rightharpoonup> LedgerHit"

definition mem_checkLedger :: "('w \<Rightarrow> ledger_store) \<Rightarrow> string \<Rightarrow> ('w, LedgerHit option) eff" where
  "mem_checkLedger getS intentHash = (\<lambda>w. (Inr (getS w intentHash), w))"

definition mem_recordExecution ::
  "('w \<Rightarrow> ledger_store) \<Rightarrow> (ledger_store \<Rightarrow> 'w \<Rightarrow> 'w) \<Rightarrow> ('w \<Rightarrow> string) \<Rightarrow> LedgerRecordInput \<Rightarrow>
     ('w, LedgerRecordOutcome) eff" where
  "mem_recordExecution getS putS nowIso entry = (\<lambda>w.
     if getS w (le_intentHash entry) \<noteq> None then (Inr exists, w)
     else (Inr acquired, putS ((getS w)(le_intentHash entry \<mapsto>
        \<lparr>lh_resourceVersion = le_resourceVersion entry, lh_at = nowIso w,
         lh_sessionId = le_sessionId entry, lh_kind = le_kind entry\<rparr>)) w))"

definition mem_release ::
  "('w \<Rightarrow> ledger_store) \<Rightarrow> (ledger_store \<Rightarrow> 'w \<Rightarrow> 'w) \<Rightarrow> string \<Rightarrow> ('w, unit) eff" where
  "mem_release getS putS intentHash = (\<lambda>w. (Inr (), putS ((getS w)(intentHash := None)) w))"

definition createMemoryLedger ::
  "('w \<Rightarrow> ledger_store) \<Rightarrow> (ledger_store \<Rightarrow> 'w \<Rightarrow> 'w) \<Rightarrow> ('w \<Rightarrow> string) \<Rightarrow> 'w Ledger" where
  "createMemoryLedger getS putS nowIso = \<lparr>checkLedger = mem_checkLedger getS,
     recordExecution = mem_recordExecution getS putS nowIso, release = Some (mem_release getS putS)\<rparr>"

subsection \<open>The contract\<close>

text \<open>
  \<open>held w\<close> are the claimed keys. A claim succeeds only on a free key and takes it; a refused claim
  changes nothing; a claim that throws has either taken the key or not. Only a release frees a key,
  and only its own.
\<close>

text \<open>Claims made one after the other, as the database sees them: at most one per key succeeds.\<close>

fun claims :: "'w Ledger \<Rightarrow> LedgerRecordInput list \<Rightarrow> 'w \<Rightarrow> (string \<times> LedgerRecordOutcome result) list" where
  "claims L [] w = []"
| "claims L (e # es) w = (let (r, w') = recordExecution L e w in (le_intentHash e, r) # claims L es w')"

locale ledger =
  fixes L :: "'w Ledger" and held :: "'w \<Rightarrow> string set"
  assumes check_frame: "held (snd (checkLedger L h w)) = held w"
    and check_hit: "fst (checkLedger L h w) = Inr (Some hit) \<Longrightarrow> h \<in> held w"
    and claim_acquired: "recordExecution L e w = (Inr acquired, w') \<Longrightarrow>
        le_intentHash e \<notin> held w \<and> held w' = insert (le_intentHash e) (held w)"
    and claim_exists: "recordExecution L e w = (Inr exists, w') \<Longrightarrow> le_intentHash e \<in> held w \<and> held w' = held w"
    and claim_throws: "recordExecution L e w = (Inl err, w') \<Longrightarrow>
        held w' = held w \<or> held w' = insert (le_intentHash e) (held w)"
    and released: "release L = Some rel \<Longrightarrow> held (snd (rel h w)) = held w \<or> held (snd (rel h w)) = held w - {h}"
begin

lemma claims_held: "h \<in> held w \<Longrightarrow> (h, Inr acquired) \<notin> set (claims L es w)"
proof (induction es arbitrary: w)
  case (Cons e es)
  obtain r w' where r: "recordExecution L e w = (r, w')" by (cases "recordExecution L e w")
  have "h \<in> held w'"
  proof (cases r)
    case (Inl err)
    with r Cons.prems claim_throws show ?thesis by blast
  next
    case (Inr out)
    with r Cons.prems claim_acquired [of e w w'] claim_exists [of e w w'] show ?thesis by (cases out) auto
  qed
  moreover have "(h, Inr acquired) \<noteq> (le_intentHash e, r)" using r Cons.prems claim_acquired by blast
  ultimately show ?case using Cons.IH r by auto
qed simp

lemma claims_once: "length (filter (\<lambda>c. c = (h, Inr acquired)) (claims L es w)) \<le> 1"
proof (induction es arbitrary: w)
  case (Cons e es)
  obtain r w' where r: "recordExecution L e w = (r, w')" by (cases "recordExecution L e w")
  show ?case
  proof (cases "(le_intentHash e, r) = (h, Inr acquired)")
    case True
    then have "h \<in> held w'" using r claim_acquired by blast
    then have "filter (\<lambda>c. c = (h, Inr acquired)) (claims L es w') = []"
      using claims_held by (auto simp: filter_empty_conv)
    with r True show ?thesis by simp
  next
    case False
    with r Cons.IH [of w'] show ?thesis by auto
  qed
qed simp

end

text \<open>The store as a world of its own, with a fixed clock reading.\<close>

interpretation mem_ledger: ledger "createMemoryLedger id (\<lambda>s _. s) (\<lambda>_. t)" dom for t
  by unfold_locales
    (auto simp: createMemoryLedger_def mem_checkLedger_def mem_recordExecution_def mem_release_def
      dom_def split: if_split_asm)

text \<open>The in-memory ledger admits one execution per intent: in any sequence of claims at most one
  claim of a key is acquired.\<close>

lemma memory_ledger_claims_once:
  "length (filter (\<lambda>c. c = (h, Inr acquired))
     (claims (createMemoryLedger id (\<lambda>s _. s) (\<lambda>_. t)) es (s :: ledger_store))) \<le> 1"
  by (rule mem_ledger.claims_once)

end
