(* ===== verification/AuditRecords.thy ===== *)
theory AuditRecords
  imports Decision
begin

text \<open>
  The audit record (packages/core/src/audit.ts): its construction with the tamper-evident hash and
  the optional signature, verification, advisory metadata, and the reconstruction of an envelope
  from a record.
\<close>

definition AUDIT_RECORD_VERSION :: int where
  "AUDIT_RECORD_VERSION = 5"

datatype SupersessionReason =
    confirmation_resolved | defer_resumed | rewrite_executed | replay | budget_satisfied | lgpd_scrub

fun reason_name :: "SupersessionReason \<Rightarrow> string" where
  "reason_name confirmation_resolved = ''confirmation_resolved''"
| "reason_name defer_resumed = ''defer_resumed''"
| "reason_name rewrite_executed = ''rewrite_executed''"
| "reason_name replay = ''replay''"
| "reason_name budget_satisfied = ''budget_satisfied''"
| "reason_name lgpd_scrub = ''lgpd_scrub''"

record BudgetGrant =
  bg_budgetId :: string
  bg_intentKind :: string
  bg_limit :: int
  bg_windowSeconds :: int

record SupersessionBinding =
  sb_capability :: "string option"
  sb_approver :: "string option"
  sb_channel :: "string option"

record Supersession =
  ss_predecessorIntentHash :: string
  ss_predecessorAt :: string
  ss_reason :: SupersessionReason
  ss_token :: "string option"
  ss_binding :: "SupersessionBinding option"

definition rewriteExecutedSupersession :: "string \<Rightarrow> string \<Rightarrow> Supersession" where
  "rewriteExecutedSupersession originalIntentHash t =
     \<lparr>ss_predecessorIntentHash = originalIntentHash, ss_predecessorAt = t, ss_reason = rewrite_executed,
      ss_token = None, ss_binding = None\<rparr>"

text \<open>A plan as handed in; the snapshot adds the fingerprint.\<close>

record Plan =
  visibleReadTools :: "string list"
  allowedIntents :: "string list"

record AuditPlanSnapshot =
  pl_plan :: Plan
  planFingerprint :: string

record AuditSignature =
  sig_keyId :: string
  sig_alg :: string
  sig_value :: string

definition AUDIT_HASHBIND_ALG :: string where
  "AUDIT_HASHBIND_ALG = ''sha256-hashbind''"

definition AUDIT_SIGNATURE_PREIMAGE_VERSION :: string where
  "AUDIT_SIGNATURE_PREIMAGE_VERSION = ''adjudicate-audit-signature-v1''"

text \<open>A signer's \<open>sign\<close> may throw.\<close>

record AuditSigner =
  sg_keyId :: string
  sg_sign :: "string \<Rightarrow> AuditSignature result"

definition auditSignaturePreimage :: "(string \<Rightarrow> string) \<Rightarrow> string \<Rightarrow> string \<Rightarrow> string result" where
  "auditSignaturePreimage sha auditHash keyId =
     mapR (\<lambda>bodyHash. AUDIT_SIGNATURE_PREIMAGE_VERSION @ [CHR 0x0A] @ bodyHash)
       (sha256Canonical sha (Obj [(''auditHash'', Str auditHash), (''keyId'', Str keyId)]))"

definition bindAuditSignature :: "(string \<Rightarrow> string) \<Rightarrow> string \<Rightarrow> string \<Rightarrow> AuditSignature result" where
  "bindAuditSignature sha auditHash keyId =
     bindR (auditSignaturePreimage sha auditHash keyId) (\<lambda>pre.
       mapR (\<lambda>v. \<lparr>sig_keyId = keyId, sig_alg = AUDIT_HASHBIND_ALG, sig_value = v\<rparr>)
         (sha256Canonical sha (Str pre)))"

definition hashBindAuditSigner :: "(string \<Rightarrow> string) \<Rightarrow> string \<Rightarrow> AuditSigner" where
  "hashBindAuditSigner sha keyId =
     \<lparr>sg_keyId = keyId, sg_sign = (\<lambda>auditHash. bindAuditSignature sha auditHash keyId)\<rparr>"

record AuditRecord =
  ar_version :: int
  ar_intentHash :: string
  ar_envelope :: IntentEnvelope
  ar_decision :: Decision
  ar_decision_basis :: "DecisionBasis list"
  ar_resourceVersion :: "string option"
  ar_at :: string
  ar_durationMs :: int
  ar_plan :: "AuditPlanSnapshot option"
  ar_supersedes :: "Supersession option"
  ar_kernelIdentity :: "(string \<times> string) option"
  ar_policyVersion :: "string option"
  ar_kernelVersion :: "string option"
  ar_authoritySnapshot :: "RecordedAuthoritySnapshot option"
  ar_aggregateSnapshot :: "RecordedAggregateSnapshot option"
  ar_auditHash :: "string option"
  ar_signature :: "AuditSignature option"
  ar_prevAuditHash :: "string option"
  ar_metadata :: "(string \<times> js) list option"

subsection \<open>The record as a JavaScript value\<close>

fun refusal_kind_name :: "RefusalKind \<Rightarrow> string" where
  "refusal_kind_name SECURITY_REFUSAL = ''SECURITY''"
| "refusal_kind_name BUSINESS_RULE = ''BUSINESS_RULE''"
| "refusal_kind_name AUTH = ''AUTH''"
| "refusal_kind_name STATE = ''STATE''"

definition refusal_js :: "Refusal \<Rightarrow> js" where
  "refusal_js r = Obj [(''kind'', Str (refusal_kind_name (r_kind r))), (''code'', Str (r_code r)),
     (''userFacing'', Str (r_userFacing r)), (''detail'', opt_js Str (r_detail r))]"

definition basis_js :: "DecisionBasis \<Rightarrow> js" where
  "basis_js b = Obj [(''category'', Str (category_name (b_category b))), (''code'', Str (b_code b)),
     (''detail'', opt_js id (b_detail b))]"

definition bases_js :: "DecisionBasis list \<Rightarrow> js" where
  "bases_js bs = Arr (map basis_js bs)"

fun escalate_name :: "EscalateTo \<Rightarrow> string" where
  "escalate_name human = ''human''"
| "escalate_name supervisor = ''supervisor''"

fun kind_name :: "DecisionKind \<Rightarrow> string" where
  "kind_name EXECUTE = ''EXECUTE''"
| "kind_name REFUSE = ''REFUSE''"
| "kind_name ESCALATE = ''ESCALATE''"
| "kind_name REQUEST_CONFIRMATION = ''REQUEST_CONFIRMATION''"
| "kind_name DEFER = ''DEFER''"
| "kind_name REWRITE = ''REWRITE''"

fun decision_fields :: "Decision \<Rightarrow> (string \<times> js) list" where
  "decision_fields (Execute b) = []"
| "decision_fields (Refuse r b) = [(''refusal'', refusal_js r)]"
| "decision_fields (Escalate t w b) = [(''to'', Str (escalate_name t)), (''reason'', Str w)]"
| "decision_fields (RequestConfirmation p b) = [(''prompt'', Str p)]"
| "decision_fields (Defer s t b) = [(''signal'', Str s), (''timeoutMs'', num t)]"
| "decision_fields (Rewrite e w b) = [(''rewritten'', envelope_js e), (''reason'', Str w)]"

definition decision_js :: "Decision \<Rightarrow> js" where
  "decision_js d = Obj ((''kind'', Str (kind_name (decision_kind d))) # decision_fields d
     @ [(''basis'', bases_js (d_basis d))])"

definition plan_fields :: "Plan \<Rightarrow> (string \<times> js) list" where
  "plan_fields p = [(''visibleReadTools'', Arr (map Str (visibleReadTools p))),
     (''allowedIntents'', Arr (map Str (allowedIntents p)))]"

definition plan_js :: "AuditPlanSnapshot \<Rightarrow> js" where
  "plan_js p = Obj (plan_fields (pl_plan p) @ [(''planFingerprint'', Str (planFingerprint p))])"

definition binding_js :: "SupersessionBinding \<Rightarrow> js" where
  "binding_js b = Obj [(''capability'', opt_js Str (sb_capability b)),
     (''approver'', opt_js Str (sb_approver b)), (''channel'', opt_js Str (sb_channel b))]"

definition supersession_js :: "Supersession \<Rightarrow> js" where
  "supersession_js s = Obj
     [(''predecessorIntentHash'', Str (ss_predecessorIntentHash s)),
      (''predecessorAt'', Str (ss_predecessorAt s)), (''reason'', Str (reason_name (ss_reason s))),
      (''token'', opt_js Str (ss_token s)), (''binding'', opt_js binding_js (ss_binding s))]"

definition identity_js :: "string \<times> string \<Rightarrow> js" where
  "identity_js i = Obj [(''id'', Str (fst i)), (''version'', Str (snd i))]"

definition authority_js :: "RecordedAuthoritySnapshot \<Rightarrow> js" where
  "authority_js a = Obj [(''graph'', graph_js (graph a)), (''snapshotHash'', Str (snapshotHash a))]"

definition recorded_aggregate_js :: "RecordedAggregateSnapshot \<Rightarrow> js" where
  "recorded_aggregate_js a = Obj
     [(''snapshot'', aggregate_js (ag_snapshot a)), (''snapshotHash'', Str (ag_snapshotHash a))]"

text \<open>
  The hashed part of a record: every field but the hash, the signature, the metadata and the chain
  link. An absent optional field is \<open>undefined\<close> here and so is not in the canonical text.
\<close>

definition hashed_js :: "AuditRecord \<Rightarrow> js" where
  "hashed_js r = Obj
     [(''version'', num (ar_version r)), (''intentHash'', Str (ar_intentHash r)),
      (''envelope'', envelope_js (ar_envelope r)), (''decision'', decision_js (ar_decision r)),
      (''decision_basis'', bases_js (ar_decision_basis r)),
      (''resourceVersion'', opt_js Str (ar_resourceVersion r)), (''at'', Str (ar_at r)),
      (''durationMs'', num (ar_durationMs r)), (''plan'', opt_js plan_js (ar_plan r)),
      (''supersedes'', opt_js supersession_js (ar_supersedes r)),
      (''kernelIdentity'', opt_js identity_js (ar_kernelIdentity r)),
      (''policyVersion'', opt_js Str (ar_policyVersion r)),
      (''kernelVersion'', opt_js Str (ar_kernelVersion r)),
      (''authoritySnapshot'', opt_js authority_js (ar_authoritySnapshot r)),
      (''aggregateSnapshot'', opt_js recorded_aggregate_js (ar_aggregateSnapshot r))]"

subsection \<open>Construction\<close>

record BuildAuditInput =
  bi_metadata :: "(string \<times> js) list option"
  bi_envelope :: IntentEnvelope
  bi_decision :: Decision
  bi_durationMs :: int
  bi_resourceVersion :: "string option"
  bi_at :: "string option"
  bi_plan :: "Plan option"
  bi_supersedes :: "Supersession option"
  bi_policyVersion :: "string option"
  bi_kernelVersion :: "string option"
  bi_kernelIdentity :: "(string \<times> string) option"
  bi_authoritySnapshot :: "RecordedAuthoritySnapshot option"
  bi_aggregateSnapshot :: "RecordedAggregateSnapshot option"
  bi_prevAuditHash :: "string option"
  bi_signer :: "AuditSigner option"

definition planFingerprintOf :: "(string \<Rightarrow> string) \<Rightarrow> Plan \<Rightarrow> string result" where
  "planFingerprintOf sha p = sha256Canonical sha (Obj (plan_fields p))"

text \<open>An optional part that may throw: absent stays absent.\<close>

fun optR :: "('a \<Rightarrow> 'b result) \<Rightarrow> 'a option \<Rightarrow> 'b option result" where
  "optR f None = Inr None"
| "optR f (Some x) = mapR Some (f x)"

definition buildAuditRecord ::
  "(string \<Rightarrow> string) \<Rightarrow> string \<Rightarrow> BuildAuditInput \<Rightarrow> AuditRecord result" where
  "buildAuditRecord sha nowIso input =
     bindR (optR (\<lambda>p. mapR (\<lambda>fp. \<lparr>pl_plan = p, planFingerprint = fp\<rparr>) (planFingerprintOf sha p)) (bi_plan input)) (\<lambda>plan.
     let baseRecord = \<lparr>ar_version = AUDIT_RECORD_VERSION,
           ar_intentHash = e_intentHash (bi_envelope input), ar_envelope = bi_envelope input,
           ar_decision = bi_decision input, ar_decision_basis = d_basis (bi_decision input),
           ar_resourceVersion = bi_resourceVersion input,
           ar_at = (case bi_at input of Some t \<Rightarrow> t | None \<Rightarrow> nowIso),
           ar_durationMs = bi_durationMs input, ar_plan = plan, ar_supersedes = bi_supersedes input,
           ar_kernelIdentity = bi_kernelIdentity input, ar_policyVersion = bi_policyVersion input,
           ar_kernelVersion = bi_kernelVersion input, ar_authoritySnapshot = bi_authoritySnapshot input,
           ar_aggregateSnapshot = bi_aggregateSnapshot input, ar_auditHash = None, ar_signature = None,
           ar_prevAuditHash = None, ar_metadata = None\<rparr>
     in bindR (sha256Canonical sha (hashed_js baseRecord)) (\<lambda>auditHash.
        bindR (optR (\<lambda>signer. sg_sign signer auditHash) (bi_signer input)) (\<lambda>signature.
        Inr (baseRecord\<lparr>ar_auditHash := Some auditHash, ar_signature := signature,
               ar_prevAuditHash := bi_prevAuditHash input, ar_metadata := bi_metadata input\<rparr>))))"

text \<open>
  \<open>{...a, ...b}\<close> defines own properties, so here \<open>__proto__\<close> is an ordinary key.
\<close>

definition attachAuditMetadata :: "AuditRecord \<Rightarrow> (string \<times> js) list \<Rightarrow> AuditRecord" where
  "attachAuditMetadata r m =
     r\<lparr>ar_metadata := Some (foldl own_put (foldl own_put [] (case ar_metadata r of None \<Rightarrow> [] | Some es \<Rightarrow> es)) m)\<rparr>"

subsection \<open>Verification\<close>

datatype AuditRecordVerification =
    Verified
  | Tampered string string
  | EnvelopeIntentMismatch string string
  | InvalidSignature string string
  | MissingHash

definition verifyAuditRecord ::
  "(string \<Rightarrow> string) \<Rightarrow> (string \<Rightarrow> AuditSignature \<Rightarrow> bool result) option \<Rightarrow> AuditRecord \<Rightarrow> AuditRecordVerification result" where
  "verifyAuditRecord sha verifySignature r =
     bindR (deriveIntentHash sha (ar_envelope r)) (\<lambda>derivedIntent.
     if \<not> timingSafeHexEqual derivedIntent (e_intentHash (ar_envelope r))
     then Inr (EnvelopeIntentMismatch derivedIntent (e_intentHash (ar_envelope r)))
     else (case ar_auditHash r of
       None \<Rightarrow> Inr MissingHash
     | Some sth \<Rightarrow>
         bindR (sha256Canonical sha (hashed_js r)) (\<lambda>drv.
         if \<not> timingSafeHexEqual drv sth then Inr (Tampered drv sth)
         else (case ar_signature r of
           None \<Rightarrow> Inr Verified
         | Some sig \<Rightarrow>
             if sig_alg sig = AUDIT_HASHBIND_ALG then
               bindR (auditSignaturePreimage sha sth (sig_keyId sig)) (\<lambda>pre.
               bindR (sha256Canonical sha (Str pre)) (\<lambda>expected.
               if \<not> timingSafeHexEqual (sig_value sig) expected
               then Inr (InvalidSignature (sig_keyId sig) (sig_alg sig)) else Inr Verified))
             else (case verifySignature of
               None \<Rightarrow> Inr Verified
             | Some vs \<Rightarrow> bindR (vs sth sig) (\<lambda>ok.
                 if \<not> ok then Inr (InvalidSignature (sig_keyId sig) (sig_alg sig)) else Inr Verified))))))"

definition replay_mismatch :: "string \<Rightarrow> string \<Rightarrow> thrown" where
  "replay_mismatch rebuilt stored' = ErrorObj ''Error''
     (''replayEnvelopeFromAudit: envelope_intent_mismatch - reconstructed intentHash '' @ rebuilt
      @ '' does not match stored '' @ stored')"

definition replayEnvelopeFromAudit ::
  "(string \<Rightarrow> string) \<Rightarrow> string \<Rightarrow> AuditRecord \<Rightarrow> IntentEnvelope result" where
  "replayEnvelopeFromAudit sha nowIso r =
     (let e = ar_envelope r in
      bindR (buildEnvelope sha nowIso
        \<lparr>i_kind = e_kind e, i_payload = e_payload e, i_actor = e_actor e, i_taint = e_taint e,
         i_nonce = e_nonce e, i_createdAt = Some (e_createdAt e), i_origin = None, i_resourceRefs = None\<rparr>) (\<lambda>env.
      if \<not> timingSafeHexEqual (e_intentHash env) (e_intentHash e)
      then Inl (replay_mismatch (e_intentHash env) (e_intentHash e)) else Inr env))"

subsection \<open>Properties\<close>

lemma hashed_js_excludes [simp]:
  "hashed_js (r\<lparr>ar_auditHash := h\<rparr>) = hashed_js r" "hashed_js (r\<lparr>ar_signature := s\<rparr>) = hashed_js r"
  "hashed_js (r\<lparr>ar_prevAuditHash := p\<rparr>) = hashed_js r" "hashed_js (r\<lparr>ar_metadata := m\<rparr>) = hashed_js r"
  by (simp_all add: hashed_js_def)

lemma buildAuditRecord_Inr:
  assumes "buildAuditRecord sha now i = Inr r"
  shows "ar_envelope r = bi_envelope i" "ar_decision r = bi_decision i"
    "\<exists>h. ar_auditHash r = Some h \<and> sha256Canonical sha (hashed_js r) = Inr h
       \<and> (case bi_signer i of None \<Rightarrow> ar_signature r = None
          | Some s \<Rightarrow> \<exists>sig. sg_sign s h = Inr sig \<and> ar_signature r = Some sig)"
proof -
  from assms obtain base h s where
    h: "sha256Canonical sha (hashed_js base) = Inr h" "optR (\<lambda>signer. sg_sign signer h) (bi_signer i) = Inr s"
    and base: "ar_envelope base = bi_envelope i" "ar_decision base = bi_decision i"
    and r: "r = base\<lparr>ar_auditHash := Some h, ar_signature := s, ar_prevAuditHash := bi_prevAuditHash i, ar_metadata := bi_metadata i\<rparr>"
    unfolding buildAuditRecord_def bindR_Inr Let_def by fastforce
  from h(2) have "case bi_signer i of None \<Rightarrow> s = None | Some g \<Rightarrow> \<exists>sig. sg_sign g h = Inr sig \<and> s = Some sig"
    by (cases "bi_signer i") (auto simp: mapR_Inr)
  with h(1) base show "ar_envelope r = bi_envelope i" "ar_decision r = bi_decision i"
    "\<exists>h. ar_auditHash r = Some h \<and> sha256Canonical sha (hashed_js r) = Inr h
       \<and> (case bi_signer i of None \<Rightarrow> ar_signature r = None
          | Some s \<Rightarrow> \<exists>sig. sg_sign s h = Inr sig \<and> ar_signature r = Some sig)"
    by (simp_all add: r cong: option.case_cong)
qed

lemma bindAuditSignature_verifies:
  assumes "bindAuditSignature sha h k = Inr sig"
  shows "sig_alg sig = AUDIT_HASHBIND_ALG
    \<and> (\<exists>pre. auditSignaturePreimage sha h (sig_keyId sig) = Inr pre \<and> sha256Canonical sha (Str pre) = Inr (sig_value sig))"
  using assms by (auto simp: bindAuditSignature_def bindR_Inr mapR_Inr)

text \<open>C24: what is built verifies, and keeps verifying: a record built from a content-addressed envelope,
  unsigned or signed by the hash-binding signer, is verified, and remains so when advisory metadata
  are attached any number of times and when its chain link is set.\<close>

theorem buildAuditRecord_verifies:
  assumes "buildAuditRecord sha now i = Inr r" "verifyResourceBinding sha (bi_envelope i) = Bound"
    and "bi_signer i = None \<or> bi_signer i = Some (hashBindAuditSigner sha key)"
  shows "verifyAuditRecord sha vs ((foldl attachAuditMetadata r ms)\<lparr>ar_prevAuditHash := p\<rparr>) = Inr Verified"
proof -
  obtain h where h: "ar_auditHash r = Some h" "sha256Canonical sha (hashed_js r) = Inr h"
    "case bi_signer i of None \<Rightarrow> ar_signature r = None | Some s \<Rightarrow> \<exists>sig. sg_sign s h = Inr sig \<and> ar_signature r = Some sig"
    using buildAuditRecord_Inr [OF assms(1)] by blast
  have env: "deriveIntentHash sha (ar_envelope r) = Inr (e_intentHash (ar_envelope r))"
    using assms(2) buildAuditRecord_Inr [OF assms(1)] by (simp add: verifyResourceBinding_Bound)
  have "ar_signature r = None \<or> (\<exists>sig. bindAuditSignature sha h key = Inr sig \<and> ar_signature r = Some sig)"
    using assms(3) h(3) by (auto simp: hashBindAuditSigner_def)
  then have sig: "verifyAuditRecord sha vs (r\<lparr>ar_metadata := m, ar_prevAuditHash := p\<rparr>) = Inr Verified" for m
    using h(1,2) env by (auto simp: verifyAuditRecord_def dest!: bindAuditSignature_verifies)
  have "\<exists>m. foldl attachAuditMetadata r' ms = r'\<lparr>ar_metadata := m\<rparr>" for r'
  proof (induction ms arbitrary: r')
    case Nil
    show ?case by (intro exI [of _ "ar_metadata r'"]) simp
  next
    case (Cons a ms)
    from Cons [of "attachAuditMetadata r' a"] show ?case by (auto simp: attachAuditMetadata_def)
  qed
  then obtain m where "foldl attachAuditMetadata r ms = r\<lparr>ar_metadata := m\<rparr>" by blast
  with sig show ?thesis by simp
qed

lemma decision_kind_name_inject: "kind_name j = kind_name k \<longleftrightarrow> j = k"
  by (cases j; cases k) simp_all

lemma decision_js_kind:
  assumes "canonicalize (decision_js d) = Inr c" "canonicalize (decision_js d') = Inr c"
  shows "decision_kind d = decision_kind d'"
proof -
  have dis: "distinct (map fst ((''kind'', Str (kind_name (decision_kind x))) # decision_fields x @ [(''basis'', bases_js (d_basis x))]))" for x
    by (cases x) simp_all
  from canonicalize_Obj_determines [OF assms [unfolded decision_js_def] dis dis, of "''kind''"]
  show ?thesis by (simp add: own_canon_def nfc_def decision_kind_name_inject)
qed

lemma identity_js_inject:
  assumes "canonicalize (opt_js identity_js i) = canonicalize (opt_js identity_js j)"
  shows "i = j"
  using assms
  by (cases i; cases j)
    (auto simp: identity_js_def canonicalize_Obj by_key_def obj_put_def is_index_key_def is_digit_def nfc_def)

text \<open>C23: a stored record cannot be altered under its hash: two verified records with the same audit hash
  have the same canonical form of envelope, decision, bases, plan, supersession, authority and aggregate
  snapshot, and the same version, intent hash, decision kind, resource version, times, kernel identity and
  version pins (or the digest collides on the records).\<close>

theorem verified_records_agree:
  assumes "verifyAuditRecord sha vs r = Inr Verified" "verifyAuditRecord sha vs' r' = Inr Verified"
    and "ar_auditHash r = ar_auditHash r'" "\<not> collision sha (hashed_js r) (hashed_js r')"
  shows "ar_version r = ar_version r'
    \<and> canonicalize (envelope_js (ar_envelope r)) = canonicalize (envelope_js (ar_envelope r'))
    \<and> canonicalize (decision_js (ar_decision r)) = canonicalize (decision_js (ar_decision r'))
    \<and> decision_kind (ar_decision r) = decision_kind (ar_decision r')
    \<and> canonicalize (bases_js (ar_decision_basis r)) = canonicalize (bases_js (ar_decision_basis r'))
    \<and> ar_resourceVersion r = ar_resourceVersion r'
    \<and> canonicalize (opt_js plan_js (ar_plan r)) = canonicalize (opt_js plan_js (ar_plan r'))
    \<and> canonicalize (opt_js supersession_js (ar_supersedes r)) = canonicalize (opt_js supersession_js (ar_supersedes r'))
    \<and> ar_at r = ar_at r' \<and> ar_durationMs r = ar_durationMs r' \<and> ar_intentHash r = ar_intentHash r'
    \<and> ar_kernelIdentity r = ar_kernelIdentity r'
    \<and> ar_policyVersion r = ar_policyVersion r' \<and> ar_kernelVersion r = ar_kernelVersion r'
    \<and> canonicalize (opt_js authority_js (ar_authoritySnapshot r)) = canonicalize (opt_js authority_js (ar_authoritySnapshot r'))
    \<and> canonicalize (opt_js recorded_aggregate_js (ar_aggregateSnapshot r))
      = canonicalize (opt_js recorded_aggregate_js (ar_aggregateSnapshot r'))"
proof -
  obtain h where h: "sha256Canonical sha (hashed_js r) = Inr h" "sha256Canonical sha (hashed_js r') = Inr h"
    using assms by (auto simp: verifyAuditRecord_def bindR_Inr split: option.splits if_splits)
  obtain c where c: "canonicalize (hashed_js r) = Inr c" using sha256Canonical_form [OF h(1)] by blast
  have c': "canonicalize (hashed_js r') = Inr c"
    using sha256Canonical_inject [OF assms(4) h] c by simp
  note det = canonicalize_Obj_determines [OF c [unfolded hashed_js_def] c' [unfolded hashed_js_def]]
  have dec: "canonicalize (decision_js (ar_decision r)) = canonicalize (decision_js (ar_decision r'))"
    using det [of "''decision''"] by (simp add: own_canon_def decision_js_def)
  obtain d where "canonicalize (decision_js (ar_decision r)) = Inr d"
    using canonicalize_entry_Inr [OF c [unfolded hashed_js_def], of "''decision''" "decision_js (ar_decision r)"]
    by (auto simp: decision_js_def)
  with dec decision_js_kind have "decision_kind (ar_decision r) = decision_kind (ar_decision r')" by metis
  moreover have "canonicalize (envelope_js (ar_envelope r)) = canonicalize (envelope_js (ar_envelope r'))"
    using det [of "''envelope''"] by (simp add: own_canon_def envelope_js_def)
  moreover have "canonicalize (opt_js plan_js (ar_plan r)) = canonicalize (opt_js plan_js (ar_plan r'))"
    using det [of "''plan''"] by (auto simp: own_canon_def split: if_splits)
  moreover have "canonicalize (opt_js supersession_js (ar_supersedes r)) = canonicalize (opt_js supersession_js (ar_supersedes r'))"
    using det [of "''supersedes''"] by (auto simp: own_canon_def split: if_splits)
  moreover have "ar_at r = ar_at r'" using det [of "''at''"] by (simp add: own_canon_def nfc_def)
  moreover have "ar_durationMs r = ar_durationMs r'" using det [of "''durationMs''"] by (simp add: own_canon_def)
  moreover have "ar_intentHash r = ar_intentHash r'" using det [of "''intentHash''"] by (simp add: own_canon_def nfc_def)
  moreover have "ar_policyVersion r = ar_policyVersion r'" using det [of "''policyVersion''"]
    by (cases "ar_policyVersion r"; cases "ar_policyVersion r'") (simp_all add: own_canon_def nfc_def)
  moreover have "ar_kernelVersion r = ar_kernelVersion r'" using det [of "''kernelVersion''"]
    by (cases "ar_kernelVersion r"; cases "ar_kernelVersion r'") (simp_all add: own_canon_def nfc_def)
  moreover have "ar_version r = ar_version r'" using det [of "''version''"] by (simp add: own_canon_def)
  moreover have "canonicalize (bases_js (ar_decision_basis r)) = canonicalize (bases_js (ar_decision_basis r'))"
    using det [of "''decision_basis''"] by (simp add: own_canon_def bases_js_def)
  moreover have "ar_resourceVersion r = ar_resourceVersion r'" using det [of "''resourceVersion''"]
    by (cases "ar_resourceVersion r"; cases "ar_resourceVersion r'") (simp_all add: own_canon_def nfc_def)
  moreover have "ar_kernelIdentity r = ar_kernelIdentity r'"
  proof (rule identity_js_inject)
    show "canonicalize (opt_js identity_js (ar_kernelIdentity r)) = canonicalize (opt_js identity_js (ar_kernelIdentity r'))"
      using det [of "''kernelIdentity''"] by (auto simp: own_canon_def split: if_splits)
  qed
  moreover have "canonicalize (opt_js authority_js (ar_authoritySnapshot r)) = canonicalize (opt_js authority_js (ar_authoritySnapshot r'))"
    using det [of "''authoritySnapshot''"] by (auto simp: own_canon_def split: if_splits)
  moreover have "canonicalize (opt_js recorded_aggregate_js (ar_aggregateSnapshot r))
      = canonicalize (opt_js recorded_aggregate_js (ar_aggregateSnapshot r'))"
    using det [of "''aggregateSnapshot''"] by (auto simp: own_canon_def split: if_splits)
  ultimately show ?thesis using dec by (intro conjI)
qed

text \<open>C25: reconstruction from the audit row: for a verified row it returns the stored envelope exactly
  when the envelope has the default origin and no resource references; for every other verified row
  it throws (or the digest collides), as the rebuild passes neither field on.\<close>

theorem replayEnvelopeFromAudit_scope:
  assumes "verifyResourceBinding sha (ar_envelope r) = Bound" "e_version (ar_envelope r) = INTENT_ENVELOPE_VERSION"
    and "\<not> collision sha (intentHashInput ((ar_envelope r)\<lparr>e_origin := LLM, e_resourceRefs := None\<rparr>))
             (intentHashInput (ar_envelope r))"
  shows "if e_origin (ar_envelope r) = LLM \<and> e_resourceRefs (ar_envelope r) = None
    then replayEnvelopeFromAudit sha now r = Inr (ar_envelope r)
    else \<exists>err. replayEnvelopeFromAudit sha now r = Inl err"
proof -
  let ?e = "ar_envelope r"
  let ?f = "?e\<lparr>e_origin := LLM, e_resourceRefs := None\<rparr>"
  have bound: "deriveIntentHash sha ?e = Inr (e_intentHash ?e)" using assms(1) by (simp add: verifyResourceBinding_Bound)
  have run: "replayEnvelopeFromAudit sha now r = bindR (deriveIntentHash sha ?f) (\<lambda>h.
      if h \<noteq> e_intentHash ?e then Inl (replay_mismatch h (e_intentHash ?e)) else Inr (?f\<lparr>e_intentHash := h\<rparr>))"
    using assms(2)
    by (cases "deriveIntentHash sha ?f")
      (auto simp: replayEnvelopeFromAudit_def buildEnvelope_def Let_def deriveIntentHash_def intentHashInput_def DEFAULT_ORIGIN_def)
  show ?thesis
  proof (cases "e_origin ?e = LLM \<and> e_resourceRefs ?e = None")
    case True
    have "deriveIntentHash sha ?f = Inr (e_intentHash ?e)"
      using bound True by (simp add: deriveIntentHash_def intentHashInput_def)
    then have "replayEnvelopeFromAudit sha now r = Inr (?f\<lparr>e_intentHash := e_intentHash ?e\<rparr>)"
      by (simp add: run)
    also have "?f\<lparr>e_intentHash := e_intentHash ?e\<rparr> = ?e" using True by (cases ?e) auto
    finally have "replayEnvelopeFromAudit sha now r = Inr ?e" .
    with True show ?thesis by simp
  next
    case False
    have "deriveIntentHash sha ?f \<noteq> Inr (e_intentHash ?e)"
    proof
      assume "deriveIntentHash sha ?f = Inr (e_intentHash ?e)"
      from intentHash_determines [OF assms(3) this bound]
      have "e_origin ?e = LLM" "canonicalize (opt_js refs_js (e_resourceRefs ?e)) = Inr Null"
        by simp_all
      with False show False by (cases "e_resourceRefs ?e") (auto simp: refs_js_def canonicalize_Obj mapR_Inr)
    qed
    then show ?thesis using False unfolding run by (cases "deriveIntentHash sha ?f") auto
  qed
qed

subsection \<open>The statements at concrete inputs\<close>

definition sample_audit_input :: BuildAuditInput where
  "sample_audit_input = \<lparr>bi_metadata = None, bi_envelope = sample_envelope, bi_decision = Execute [],
     bi_durationMs = 3, bi_resourceVersion = None, bi_at = Some ''t'', bi_plan = None, bi_supersedes = None,
     bi_policyVersion = Some ''1'', bi_kernelVersion = None, bi_kernelIdentity = None,
     bi_authoritySnapshot = None, bi_aggregateSnapshot = None, bi_prevAuditHash = None, bi_signer = None\<rparr>"


lemma sample_audit: "\<exists>r. buildAuditRecord sample_sha ''now'' sample_audit_input = Inr r"
  by (simp add: buildAuditRecord_def sample_audit_input_def Let_def hashed_js_def sha256Canonical_def canonicalJson_def
      envelope_js_def sample_envelope_def actor_js_def decision_js_def bases_js_def canonicalize_Obj by_key_def
      obj_put_def is_index_key_def is_digit_def JSON_stringify_def)

lemma sample_bound: "verifyResourceBinding sample_sha (bi_envelope sample_audit_input) = Bound"
  by (simp add: sample_audit_input_def verifyResourceBinding_Bound)

theorem buildAuditRecord_verifies_witness:
  "\<exists>r. buildAuditRecord sample_sha ''now'' sample_audit_input = Inr r
     \<and> verifyAuditRecord sample_sha None
           ((attachAuditMetadata r [(''note'', Str ''late'')])\<lparr>ar_prevAuditHash := None\<rparr>) = Inr Verified"
proof -
  obtain r where r: "buildAuditRecord sample_sha ''now'' sample_audit_input = Inr r" using sample_audit by blast
  from buildAuditRecord_verifies [where key = "''k''" and vs = None and ms = "[[(''note'', Str ''late'')]]" and p = None, OF r sample_bound]
  have "verifyAuditRecord sample_sha None ((attachAuditMetadata r [(''note'', Str ''late'')])\<lparr>ar_prevAuditHash := None\<rparr>) = Inr Verified"
    by (simp add: sample_audit_input_def)
  with r show ?thesis by blast
qed

theorem verified_records_agree_witness:
  "\<exists>r r'. r \<noteq> r' \<and> verifyAuditRecord sample_sha None r = Inr Verified \<and> verifyAuditRecord sample_sha None r' = Inr Verified
     \<and> decision_kind (ar_decision r) = decision_kind (ar_decision r')"
proof -
  obtain r where r: "buildAuditRecord sample_sha ''now'' sample_audit_input = Inr r" using sample_audit by blast
  obtain h where h: "ar_auditHash r = Some h" "sha256Canonical sample_sha (hashed_js r) = Inr h" "ar_signature r = None"
    using buildAuditRecord_Inr [OF r] by (auto simp: sample_audit_input_def)
  have env: "deriveIntentHash sample_sha (ar_envelope r) = Inr (e_intentHash (ar_envelope r))"
    using buildAuditRecord_Inr(1) [OF r] by (simp add: sample_audit_input_def)
  have v: "verifyAuditRecord sample_sha None (r\<lparr>ar_metadata := m\<rparr>) = Inr Verified" for m
    using h env by (simp add: verifyAuditRecord_def)
  have "\<not> collision sample_sha (hashed_js (r\<lparr>ar_metadata := None\<rparr>)) (hashed_js (r\<lparr>ar_metadata := Some []\<rparr>))"
    by (simp add: collision_def split: sum.split)
  from verified_records_agree [OF v v _ this]
  have "decision_kind (ar_decision (r\<lparr>ar_metadata := None\<rparr>)) = decision_kind (ar_decision (r\<lparr>ar_metadata := Some []\<rparr>))"
    by simp
  moreover have "r\<lparr>ar_metadata := None\<rparr> \<noteq> r\<lparr>ar_metadata := Some []\<rparr>"
    by (metis AuditRecord.select_convs(19) AuditRecord.surjective AuditRecord.update_convs(19) option.distinct(1))
  ultimately show ?thesis using v by blast
qed

theorem replayEnvelopeFromAudit_scope_witness:
  "\<exists>r. buildAuditRecord sample_sha ''now'' sample_audit_input = Inr r
     \<and> replayEnvelopeFromAudit sample_sha ''later'' r = Inr sample_envelope"
proof -
  obtain r where r: "buildAuditRecord sample_sha ''now'' sample_audit_input = Inr r" using sample_audit by blast
  have e: "ar_envelope r = sample_envelope" using buildAuditRecord_Inr(1) [OF r] by (simp add: sample_audit_input_def)
  have "sample_envelope\<lparr>e_origin := LLM, e_resourceRefs := None\<rparr> = sample_envelope"
    by (simp add: sample_envelope_def)
  then have "\<not> collision sample_sha (intentHashInput ((ar_envelope r)\<lparr>e_origin := LLM, e_resourceRefs := None\<rparr>))
             (intentHashInput (ar_envelope r))"
    by (simp add: e collision_def split: sum.split)
  moreover have "verifyResourceBinding sample_sha (ar_envelope r) = Bound"
    by (simp add: e verifyResourceBinding_Bound)
  moreover have "e_resourceRefs sample_envelope = None" by (simp add: sample_envelope_def)
  ultimately have "replayEnvelopeFromAudit sample_sha ''later'' r = Inr (ar_envelope r)"
    using replayEnvelopeFromAudit_scope [of sample_sha r "''later''"] by (simp add: e)
  with r e show ?thesis by auto
qed

end
