(* ===== verification/Shell.thy ===== *)
theory Shell
  imports Telemetry Ledger AuditRecords
begin

text \<open>
  The asynchronous shell around the kernel (packages/core/src/kernel/adjudicate-and-audit.ts):
  tenant kill switch, replay check, adjudication, confirmation receipt, budget grant, one-pass
  rewrite execution, ledger claim, telemetry, audit emission with release and rollback. What the
  caller passes in (clock, sinks, ledger, signer, callbacks) are effects of the record \<open>Deps\<close>.
\<close>

subsection \<open>Dependencies\<close>

record ConfirmationBindingField =
  confirmed :: string
  requested :: "string option"

record ConfirmationBinding =
  cb_capability :: "ConfirmationBindingField option"
  cb_approver :: "ConfirmationBindingField option"
  cb_channel :: "ConfirmationBindingField option"

record ConfirmationReceipt =
  cr_intentHash :: string
  cr_at :: string
  cr_originalAt :: "string option"
  cr_token :: "string option"
  cr_binding :: "ConfirmationBinding option"

text \<open>A tenant's kill switch as the shell sees it: \<open>isKilled\<close> may be missing, and both may throw.\<close>

record 'w KillSwitchPort =
  kp_isKilled :: "('w, bool) eff option"
  kp_state :: "('w, KillSwitchState) eff"

record 'w RuntimeContext =
  ctx_id :: string
  ctx_killSwitch :: "'w KillSwitchPort option"
  ctx_telemetry :: "'w Telemetry"
  ctx_kernelIdentity :: "(string \<times> string) option"

record ('w, 's) Deps =
  sink_emit :: "AuditRecord \<Rightarrow> ('w, unit) eff"
  metadataProvider :: "(AuditRecord \<Rightarrow> ('w, (string \<times> js) list option) eff) option"
  dep_signer :: "AuditSigner option"
  dep_ledger :: "'w Ledger option"
  clock_nowIso :: "('w, string) eff"
  clock_nowMs :: "('w, int) eff"
  resolveResourceVersion :: "(IntentEnvelope \<Rightarrow> 's \<Rightarrow> ('w, string option) eff) option"
  dep_plan :: "('w, Plan option) eff option"
  dep_context :: "'w RuntimeContext option"
  dep_policyVersion :: "string option"
  dep_kernelVersion :: "string option"
  dep_aggregateSnapshot :: "RecordedAggregateSnapshot option"
  rateLimitRollback :: "('w, unit) eff option"
  confirmationReceipt :: "ConfirmationReceipt option"
  budgetGrant :: "(BudgetGrant \<times> string option) option"
  dep_supersedes :: "Supersession option"

record AdjudicateAndAuditResult =
  rs_decision :: Decision
  rs_record :: AuditRecord
  rs_ledgerHit :: "LedgerHit option"

definition telemetry_of :: "'w Module \<Rightarrow> ('w, 's) Deps \<Rightarrow> 'w Telemetry" where
  "telemetry_of m deps = (case dep_context deps of Some ctx \<Rightarrow> ctx_telemetry ctx | None \<Rightarrow> m_telemetry m)"

definition failureE :: "'w Module \<Rightarrow> ('w, 's) Deps \<Rightarrow> string \<Rightarrow> string \<Rightarrow> string \<Rightarrow> ('w, unit) eff" where
  "failureE m deps sink subject errorClass =
     recordSinkFailure (telemetry_of m deps) (sinkFailure sink subject errorClass)"

subsection \<open>The parts of a call\<close>

definition fixed_kill :: "string \<Rightarrow> KillSwitchState" where
  "fixed_kill r = \<lparr>active = True, reason = r, toggledAt = ''1970-01-01T00:00:00.000Z''\<rparr>"

definition readTenantKillState :: "'w KillSwitchPort option \<Rightarrow> ('w, KillSwitchState option) eff" where
  "readTenantKillState ks =
     (case ks of
        None \<Rightarrow> retE (Some (fixed_kill ''kill_switch_control_absent''))
      | Some port \<Rightarrow> (case kp_isKilled port of
          None \<Rightarrow> retE (Some (fixed_kill ''kill_switch_control_absent''))
        | Some isk \<Rightarrow> tryE
            (bindE isk (\<lambda>k. if \<not> k then retE None else bindE (kp_state port) (\<lambda>s. retE (Some s))))
            (\<lambda>_. retE (Some (fixed_kill ''kill_switch_control_unreadable'')))))"

definition binding_field_ok :: "ConfirmationBindingField option \<Rightarrow> bool" where
  "binding_field_ok f = (case f of None \<Rightarrow> True | Some x \<Rightarrow>
     (case requested x of None \<Rightarrow> True | Some r \<Rightarrow> r = confirmed x))"

definition confirmationBindingMatches :: "ConfirmationBinding option \<Rightarrow> bool" where
  "confirmationBindingMatches b = (case b of None \<Rightarrow> True | Some x \<Rightarrow>
     binding_field_ok (cb_capability x) \<and> binding_field_ok (cb_approver x) \<and> binding_field_ok (cb_channel x))"

definition confirmationBindingRecord :: "ConfirmationBinding option \<Rightarrow> SupersessionBinding option" where
  "confirmationBindingRecord b = (case b of None \<Rightarrow> None | Some x \<Rightarrow>
     (if cb_capability x = None \<and> cb_approver x = None \<and> cb_channel x = None then None
      else Some \<lparr>sb_capability = map_option confirmed (cb_capability x),
                 sb_approver = map_option confirmed (cb_approver x),
                 sb_channel = map_option confirmed (cb_channel x)\<rparr>))"

definition replaySuppressedRefusal :: "string \<Rightarrow> LedgerHit \<Rightarrow> Decision" where
  "replaySuppressedRefusal intentHash hit = decisionRefuse
     (refuse STATE ''ledger_replay_suppressed'' ''This action has already been processed.''
        (Some (''intentHash='' @ intentHash @ '' previousAt='' @ lh_at hit)))
     [basis cat_ledger ''replay_suppressed'' (Some (Obj
        [(''previousAt'', Str (lh_at hit)), (''sessionId'', Str (lh_sessionId hit)),
         (''kind'', Str (lh_kind hit)), (''resourceVersion'', Str (lh_resourceVersion hit))]))]"

text \<open>Advisory metadata: a provider that throws is reported and the record is kept as it is.\<close>

definition applyMeta :: "'w Module \<Rightarrow> ('w, 's) Deps \<Rightarrow> AuditRecord \<Rightarrow> ('w, AuditRecord) eff" where
  "applyMeta m deps record =
     (case metadataProvider deps of
        None \<Rightarrow> retE record
      | Some provider \<Rightarrow> tryE
          (bindE (provider record) (\<lambda>md. retE (case md of
             Some x \<Rightarrow> attachAuditMetadata record x | None \<Rightarrow> record)))
          (\<lambda>err. thenE (failureE m deps ''metadata'' (ar_intentHash record) (err_name err)) (retE record)))"

definition audit_input :: "('w, 's) Deps \<Rightarrow> IntentEnvelope \<Rightarrow> Decision \<Rightarrow> int \<Rightarrow> string \<Rightarrow> BuildAuditInput" where
  "audit_input deps envelope decision durationMs tnow =
     \<lparr>bi_metadata = None, bi_envelope = envelope, bi_decision = decision, bi_durationMs = durationMs,
      bi_resourceVersion = None, bi_at = Some tnow, bi_plan = None, bi_supersedes = dep_supersedes deps,
      bi_policyVersion = dep_policyVersion deps, bi_kernelVersion = dep_kernelVersion deps,
      bi_kernelIdentity = None, bi_authoritySnapshot = None,
      bi_aggregateSnapshot = dep_aggregateSnapshot deps, bi_prevAuditHash = None, bi_signer = dep_signer deps\<rparr>"

text \<open>Build, annotate and emit one record: the body of both \<open>try\<close> blocks.\<close>

definition emitRecord ::
  "'w Module \<Rightarrow> ('w, 's) Deps \<Rightarrow> (string \<Rightarrow> BuildAuditInput) \<Rightarrow> ('w, AuditRecord) proc" where
  "emitRecord m deps input =
     bindP (effP (clock_nowIso deps)) (\<lambda>tnow.
     bindP (resultP (buildAuditRecord (m_sha m) [] (input tnow))) (\<lambda>built.
     bindP (effP (applyMeta m deps built)) (\<lambda>record.
     bindP (effP (sink_emit deps record)) (\<lambda>_. retP record))))"

definition rollback :: "'w Module \<Rightarrow> ('w, 's) Deps \<Rightarrow> IntentEnvelope \<Rightarrow> ('w, unit) proc" where
  "rollback m deps envelope =
     (case rateLimitRollback deps of
        None \<Rightarrow> retP ()
      | Some rb \<Rightarrow> tryP (effP rb)
          (\<lambda>err. effP (failureE m deps ''rate-limit'' (e_intentHash envelope) (err_name err))))"

definition emitDecisionEvents ::
  "'w Module \<Rightarrow> ('w, 's) Deps \<Rightarrow> IntentEnvelope \<Rightarrow> Decision \<Rightarrow> int \<Rightarrow> ('w, unit) proc" where
  "emitDecisionEvents m deps envelope decision durationMs =
     bindP (effP (recordDecision (telemetry_of m deps)
        \<lparr>de_intentKind = e_kind envelope, de_decision = decision_kind decision, de_latencyMs = durationMs,
         de_basisCount = length (d_basis decision), de_intentHash = e_intentHash envelope\<rparr>)) (\<lambda>_.
     case decision of
       Refuse r b \<Rightarrow> effP (recordRefusal (telemetry_of m deps)
         \<lparr>re_intentKind = e_kind envelope, re_refusal = r, re_intentHash = e_intentHash envelope\<rparr>)
     | _ \<Rightarrow> retP ())"

definition emitOutcome ::
  "'w Module \<Rightarrow> ('w, 's) Deps \<Rightarrow> IntentEnvelope \<Rightarrow> Decision \<Rightarrow> int \<Rightarrow> AdjudicationTraceEntry list \<Rightarrow> Plan option \<Rightarrow>
     ('w, unit) proc" where
  "emitOutcome m deps envelope decision durationMs trace plan =
     tryP
       (bindP (resultP (optR (planFingerprintOf (m_sha m)) plan)) (\<lambda>fp.
        bindP (effP (clock_nowIso deps)) (\<lambda>tnow.
        effP (recordOutcome (telemetry_of m deps)
          \<lparr>ln_intentKind = e_kind envelope, ln_decisionKind = decision_kind decision,
           ln_basisCodes = flattenBasis (d_basis decision), ln_taint = e_taint envelope,
           ln_durationMs = durationMs, ln_intentHash = e_intentHash envelope,
           ln_guardId = matchedGuardIdFromTrace trace, ln_guardName = matchedGuardIdFromTrace trace,
           ln_guardPhase = matchedGuardPhaseFromTrace trace, ln_planFingerprint = fp, ln_at = tnow\<rparr>))))
       (\<lambda>err. effP (failureE m deps ''learning'' (e_intentHash envelope) (err_name err)))"

subsection \<open>The tenant kill path\<close>

definition tenantKillRefusal :: "string \<Rightarrow> KillSwitchState \<Rightarrow> Decision" where
  "tenantKillRefusal tenant kill = decisionRefuse
     (refuse SECURITY_REFUSAL ''kill_switch_active'' ''System is temporarily unavailable.''
        (Some (''Tenant kill switch active: '' @ reason kill @ '' (toggledAt '' @ toggledAt kill @ '')'')))
     [basis cat_kill ''active'' (Some (Obj [(''reason'', Str (reason kill)),
        (''toggledAt'', Str (toggledAt kill)), (''tenant'', Str tenant)]))]"

definition killPath ::
  "'w Module \<Rightarrow> ('w, 's) Deps \<Rightarrow> IntentEnvelope \<Rightarrow> string \<Rightarrow> int \<Rightarrow> KillSwitchState \<Rightarrow>
     ('w, AdjudicateAndAuditResult) proc" where
  "killPath m deps envelope tenant start kill =
     (let decision = tenantKillRefusal tenant kill in
      bindP (effP (clock_nowMs deps)) (\<lambda>t.
      let durationMs = t - start in
      bindP (emitDecisionEvents m deps envelope decision durationMs) (\<lambda>_.
      bindP (emitOutcome m deps envelope decision durationMs [] None) (\<lambda>_.
      bindP (finallyP (emitRecord m deps (audit_input deps envelope decision durationMs))
               (rollback m deps envelope)) (\<lambda>record.
      retP \<lparr>rs_decision = decision, rs_record = record, rs_ledgerHit = None\<rparr>)))))"

subsection \<open>Deciding\<close>

text \<open>What the deciding part hands on: the locals of the code at step 3.\<close>

record Decided =
  dc_decision :: Decision
  dc_trace :: "AdjudicationTraceEntry list"
  dc_executed :: IntentEnvelope
  dc_supersedes :: "Supersession option"
  dc_acquired :: bool

definition confirmation_supersession :: "ConfirmationReceipt \<Rightarrow> Supersession" where
  "confirmation_supersession r =
     \<lparr>ss_predecessorIntentHash = cr_intentHash r,
      ss_predecessorAt = (case cr_originalAt r of Some t \<Rightarrow> t | None \<Rightarrow> cr_at r),
      ss_reason = confirmation_resolved, ss_token = cr_token r,
      ss_binding = confirmationBindingRecord (cr_binding r)\<rparr>"

definition confirm :: "('w, 's) Deps \<Rightarrow> IntentEnvelope \<Rightarrow> Decision \<Rightarrow> Decision \<times> Supersession option" where
  "confirm deps envelope decision =
     (case (decision, confirmationReceipt deps) of
        (RequestConfirmation prompt b, Some r) \<Rightarrow>
          if cr_intentHash r = e_intentHash envelope \<and> confirmationBindingMatches (cr_binding r)
          then (decisionExecute (b @ [basis cat_confirmation ''received'' (Some (Obj
                  [(''confirmedAt'', Str (cr_at r)), (''originalPrompt'', Str prompt)]))]),
                Some (confirmation_supersession r))
          else (decision, None)
      | _ \<Rightarrow> (decision, None))"

definition spend_budget ::
  "('w, 's) Deps \<Rightarrow> IntentEnvelope \<Rightarrow> Decision \<Rightarrow> ('w, Decision \<times> Supersession option) proc" where
  "spend_budget deps envelope decision =
     (case (decision, budgetGrant deps) of
        (RequestConfirmation prompt b, Some (g, originalAt)) \<Rightarrow>
          if bg_intentKind g = e_kind envelope
          then bindP (case originalAt of Some t \<Rightarrow> retP t | None \<Rightarrow> effP (clock_nowIso deps)) (\<lambda>t.
            retP (decisionExecute (b @ [basis cat_budget ''satisfied'' (Some (Obj
                    [(''budgetId'', Str (bg_budgetId g)), (''intentKind'', Str (bg_intentKind g)),
                     (''limit'', num (bg_limit g)), (''windowSeconds'', num (bg_windowSeconds g)),
                     (''originalPrompt'', Str prompt)]))]),
                  Some \<lparr>ss_predecessorIntentHash = e_intentHash envelope, ss_predecessorAt = t,
                        ss_reason = budget_satisfied, ss_token = Some (bg_budgetId g), ss_binding = None\<rparr>))
          else retP (decision, None)
      | _ \<Rightarrow> retP (decision, None))"

definition rewriteLoopRefusal :: "DecisionBasis list \<Rightarrow> Decision" where
  "rewriteLoopRefusal b = decisionRefuse
     (refuse SECURITY_REFUSAL ''guard_panic'' ''System is temporarily unavailable.''
        (Some ''REWRITE re-adjudicated to a second REWRITE; bounded to a single pass (refused)''))
     (b @ [basis cat_kernel ''guard_panic'' (Some (Obj
        [(''phase'', Str ''rewrite''), (''reason'', Str ''rewrite_loop_bounded'')]))])"

text \<open>One pass of re-adjudication: the decision, the envelope to execute and the supersession.\<close>

definition execute_rewrite ::
  "'w Module \<Rightarrow> ('w, 's) Deps \<Rightarrow> IntentEnvelope \<Rightarrow> 's \<Rightarrow> 's PolicyBundle \<Rightarrow> Decision \<Rightarrow>
     ('w, Decision \<times> IntentEnvelope \<times> Supersession option) proc" where
  "execute_rewrite m deps envelope st policy decision =
     (case decision of
        Rewrite rewritten why b \<Rightarrow>
          bindP (effP (adjudicateE m rewritten st policy)) (\<lambda>second.
          case second of
            Execute b2 \<Rightarrow> bindP (effP (clock_nowIso deps)) (\<lambda>tnow.
              retP (decision, rewritten, Some (rewriteExecutedSupersession (e_intentHash envelope) tnow)))
          | Rewrite e2 why2 b2 \<Rightarrow> retP (rewriteLoopRefusal b2, envelope, None)
          | _ \<Rightarrow> retP (second, envelope, None))
      | _ \<Rightarrow> retP (decision, envelope, None))"

text \<open>
  The claim. The code compares the executed envelope with the given one by identity; a rewritten
  envelope equal to the given one would have been re-adjudicated to the same REWRITE, so equality
  of values decides the same.
\<close>

definition claims_ledger :: "Decision \<Rightarrow> IntentEnvelope \<Rightarrow> IntentEnvelope \<Rightarrow> bool" where
  "claims_ledger decision executed envelope \<longleftrightarrow>
     decision_kind decision = EXECUTE \<or> (decision_kind decision = REWRITE \<and> executed \<noteq> envelope)"

definition claim_entry :: "IntentEnvelope \<Rightarrow> string \<Rightarrow> LedgerRecordInput" where
  "claim_entry executed rv = \<lparr>le_intentHash = e_intentHash executed, le_resourceVersion = rv,
     le_sessionId = sessionId (e_actor executed), le_kind = e_kind executed\<rparr>"

definition claim ::
  "'w Module \<Rightarrow> ('w, 's) Deps \<Rightarrow> IntentEnvelope \<Rightarrow> 's \<Rightarrow> Decision \<Rightarrow> IntentEnvelope \<Rightarrow>
     ('w, Decision \<times> bool) proc" where
  "claim m deps envelope st decision executed =
     (case dep_ledger deps of
        None \<Rightarrow> retP (decision, False)
      | Some L \<Rightarrow>
          if \<not> claims_ledger decision executed envelope then retP (decision, False)
          else
            bindP (effP (clock_nowMs deps)) (\<lambda>recordStart.
            bindP (case resolveResourceVersion deps of None \<Rightarrow> retP None | Some f \<Rightarrow> effP (f executed st)) (\<lambda>rvo.
            let rv = (case rvo of Some v \<Rightarrow> v | None \<Rightarrow> []) in
            bindP (effP (recordExecution L (claim_entry executed rv))) (\<lambda>outcome.
            bindP (effP (clock_nowMs deps)) (\<lambda>t.
            bindP (effP (recordLedgerOp (telemetry_of m deps)
               \<lparr>lo_op = op_record, lo_outcome = (if outcome = acquired then lo_ok else lo_duplicate),
                lo_intentKind = e_kind executed, lo_latencyMs = t - recordStart,
                lo_intentHash = e_intentHash executed\<rparr>)) (\<lambda>_.
            case outcome of
              acquired \<Rightarrow> retP (decision, True)
            | exists \<Rightarrow> bindP (effP (clock_nowIso deps)) (\<lambda>tnow.
                retP (replaySuppressedRefusal (e_intentHash executed)
                  \<lparr>lh_resourceVersion = rv, lh_at = tnow, lh_sessionId = sessionId (e_actor executed),
                   lh_kind = e_kind executed\<rparr>, False))))))))"

fun first_some :: "'a option list \<Rightarrow> 'a option" where
  "first_some [] = None"
| "first_some (Some x # xs) = Some x"
| "first_some (None # xs) = first_some xs"

definition decide ::
  "'w Module \<Rightarrow> ('w, 's) Deps \<Rightarrow> IntentEnvelope \<Rightarrow> 's \<Rightarrow> 's PolicyBundle \<Rightarrow> ('w, Decided) proc" where
  "decide m deps envelope st policy =
     bindP (effP (adjudicateWithTraceE m envelope st policy)) (\<lambda>(decision0, trace).
     let (decision1, confirmationSupersedes) = confirm deps envelope decision0 in
     bindP (spend_budget deps envelope decision1) (\<lambda>(decision2, budgetSupersedes).
     bindP (execute_rewrite m deps envelope st policy decision2) (\<lambda>(decision3, executed, rewriteSupersedes).
     bindP (claim m deps envelope st decision3 executed) (\<lambda>(decision4, ledgerAcquired).
     retP \<lparr>dc_decision = decision4, dc_trace = trace, dc_executed = executed,
       dc_supersedes = first_some [rewriteSupersedes, confirmationSupersedes, budgetSupersedes],
       dc_acquired = ledgerAcquired\<rparr>))))"

definition consult_ledger ::
  "'w Module \<Rightarrow> ('w, 's) Deps \<Rightarrow> IntentEnvelope \<Rightarrow> ('w, LedgerHit option) proc" where
  "consult_ledger m deps envelope =
     (case dep_ledger deps of
        None \<Rightarrow> retP None
      | Some L \<Rightarrow>
          bindP (effP (clock_nowMs deps)) (\<lambda>checkStart.
          bindP (effP (checkLedger L (e_intentHash envelope))) (\<lambda>hit.
          bindP (effP (clock_nowMs deps)) (\<lambda>t.
          bindP (effP (recordLedgerOp (telemetry_of m deps)
             \<lparr>lo_op = op_check, lo_outcome = (if hit \<noteq> None then lo_hit else lo_miss),
              lo_intentKind = e_kind envelope, lo_latencyMs = t - checkStart,
              lo_intentHash = e_intentHash envelope\<rparr>)) (\<lambda>_. retP hit)))))"

subsection \<open>Audit and clean-up\<close>

definition release_claim ::
  "'w Module \<Rightarrow> ('w, 's) Deps \<Rightarrow> Decided \<Rightarrow> ('w, unit) proc" where
  "release_claim m deps dc =
     (case dep_ledger deps of
        None \<Rightarrow> retP ()
      | Some L \<Rightarrow>
          if \<not> dc_acquired dc then retP ()
          else (case release L of
              Some rel \<Rightarrow> tryP (effP (rel (e_intentHash (dc_executed dc))))
                (\<lambda>err. effP (failureE m deps ''ledger'' (e_intentHash (dc_executed dc)) (err_name err)))
            | None \<Rightarrow> effP (failureE m deps ''ledger'' (e_intentHash (dc_executed dc)) ''ledger_orphaned'')))"

definition main_audit_input ::
  "('w, 's) Deps \<Rightarrow> Decided \<Rightarrow> int \<Rightarrow> Plan option \<Rightarrow> string \<Rightarrow> BuildAuditInput" where
  "main_audit_input deps dc durationMs plan tnow =
     (audit_input deps (dc_executed dc) (dc_decision dc) durationMs tnow)
       \<lparr>bi_plan := plan,
        bi_supersedes := first_some [dep_supersedes deps, dc_supersedes dc],
        bi_kernelIdentity := (case dep_context deps of None \<Rightarrow> None | Some ctx \<Rightarrow> ctx_kernelIdentity ctx)\<rparr>"

definition auditPath ::
  "'w Module \<Rightarrow> ('w, 's) Deps \<Rightarrow> IntentEnvelope \<Rightarrow> Decided \<Rightarrow> int \<Rightarrow> Plan option \<Rightarrow> ('w, AuditRecord) proc" where
  "auditPath m deps envelope dc durationMs plan =
     finallyP
       (tryP (emitRecord m deps (main_audit_input deps dc durationMs plan))
          (\<lambda>emitErr. bindP (release_claim m deps dc) (\<lambda>_. throwP emitErr)))
       (if decision_kind (dc_decision dc) \<noteq> EXECUTE
           \<and> \<not> (decision_kind (dc_decision dc) = REWRITE \<and> dc_executed dc \<noteq> envelope)
        then rollback m deps envelope else retP ())"

definition mainPath ::
  "'w Module \<Rightarrow> ('w, 's) Deps \<Rightarrow> IntentEnvelope \<Rightarrow> 's \<Rightarrow> 's PolicyBundle \<Rightarrow> int \<Rightarrow>
     ('w, AdjudicateAndAuditResult) proc" where
  "mainPath m deps envelope st policy start =
     bindP (consult_ledger m deps envelope) (\<lambda>ledgerHit.
     bindP (case ledgerHit of
         Some hit \<Rightarrow> retP \<lparr>dc_decision = replaySuppressedRefusal (e_intentHash envelope) hit, dc_trace = [],
             dc_executed = envelope, dc_supersedes = None, dc_acquired = False\<rparr>
       | None \<Rightarrow> decide m deps envelope st policy) (\<lambda>dc.
     bindP (effP (clock_nowMs deps)) (\<lambda>t.
     let durationMs = t - start in
     bindP (emitDecisionEvents m deps envelope (dc_decision dc) durationMs) (\<lambda>_.
     bindP (case dep_plan deps of None \<Rightarrow> retP None | Some p \<Rightarrow> effP p) (\<lambda>planSnapshot.
     bindP (emitOutcome m deps envelope (dc_decision dc) durationMs (dc_trace dc) planSnapshot) (\<lambda>_.
     bindP (auditPath m deps envelope dc durationMs planSnapshot) (\<lambda>record.
     retP \<lparr>rs_decision = dc_decision dc, rs_record = record, rs_ledgerHit = ledgerHit\<rparr>)))))))"

definition adjudicateAndAudit ::
  "'w Module \<Rightarrow> IntentEnvelope \<Rightarrow> 's \<Rightarrow> 's PolicyBundle \<Rightarrow> ('w, 's) Deps \<Rightarrow> ('w, AdjudicateAndAuditResult) proc" where
  "adjudicateAndAudit m envelope st policy deps =
     bindP (effP (clock_nowMs deps)) (\<lambda>start.
     case dep_context deps of
       None \<Rightarrow> mainPath m deps envelope st policy start
     | Some ctx \<Rightarrow> bindP (effP (readTenantKillState (ctx_killSwitch ctx))) (\<lambda>killState.
         case killState of
           Some kill \<Rightarrow> killPath m deps envelope (ctx_id ctx) start kill
         | None \<Rightarrow> mainPath m deps envelope st policy start))"

end
