(* ===== verification/ShellProps.thy ===== *)
theory ShellProps
  imports Shell
begin

text \<open>
  What a call of the shell guarantees when it returns, alone and interleaved with other calls.
\<close>

lemma retE_Inr [simp]: "retE x w = (r, w') \<longleftrightarrow> r = Inr x \<and> w' = w"
  by (auto simp: retE_def)

lemma throwE_Inr [simp]: "throwE e w = (r, w') \<longleftrightarrow> r = Inl e \<and> w' = w"
  by (auto simp: throwE_def)

lemma finallyE_Inr:
  "finallyE p f w = (Inr x, w'') \<longleftrightarrow> (\<exists>w'. p w = (Inr x, w') \<and> f w' = (Inr (), w''))"
  by (auto simp: finallyE_def split: prod.splits sum.splits)

lemma tryE_Inr:
  "tryE p h w = (Inr x, w'') \<longleftrightarrow> p w = (Inr x, w'') \<or> (\<exists>e w'. p w = (Inl e, w') \<and> h e w' = (Inr x, w''))"
  by (auto simp: tryE_def split: prod.splits sum.splits)

lemma run_Done [simp]: "run (Done r) w = (r, w)"
  by simp

lemmas run_Inr = bindE_Inr finallyE_Inr tryE_Inr

subsection \<open>Emission\<close>

lemma applyMeta_Inr:
  "applyMeta m deps built w = (Inr r, w') \<Longrightarrow> r = built \<or> (\<exists>md. r = attachAuditMetadata built md)"
  by (auto simp: applyMeta_def thenE_def run_Inr split: option.splits)

lemma attachAuditMetadata_sel [simp]:
  "ar_decision (attachAuditMetadata r md) = ar_decision r"
  "ar_envelope (attachAuditMetadata r md) = ar_envelope r"
  "ar_auditHash (attachAuditMetadata r md) = ar_auditHash r"
  "ar_signature (attachAuditMetadata r md) = ar_signature r"
  "hashed_js (attachAuditMetadata r md) = hashed_js r"
  by (simp_all add: attachAuditMetadata_def)

definition audited :: "(string \<Rightarrow> string) \<Rightarrow> ('w, 's) Deps \<Rightarrow> IntentEnvelope \<Rightarrow> Decision \<Rightarrow> AuditRecord \<Rightarrow> bool" where
  "audited sha deps executed d r \<longleftrightarrow> ar_decision r = d \<and> ar_envelope r = executed
     \<and> (\<exists>h. ar_auditHash r = Some h \<and> sha256Canonical sha (hashed_js r) = Inr h
          \<and> (case dep_signer deps of None \<Rightarrow> ar_signature r = None
             | Some s \<Rightarrow> \<exists>sig. sg_sign s h = Inr sig \<and> ar_signature r = Some sig))
     \<and> (\<exists>w1 w2. sink_emit deps r w1 = (Inr (), w2))"

lemma emitRecord_Inr:
  assumes "run (emitRecord m deps input) w = (Inr r, w')"
    and "\<And>t. bi_envelope (input t) = executed" "\<And>t. bi_decision (input t) = d" "\<And>t. bi_signer (input t) = dep_signer deps"
  shows "audited (m_sha m) deps executed d r"
proof -
  from assms(1) obtain t built w0 w1 where built: "buildAuditRecord (m_sha m) [] (input t) = Inr built"
    and meta: "applyMeta m deps built w0 = (Inr r, w1)" and emit: "sink_emit deps r w1 = (Inr (), w')"
    by (auto simp: emitRecord_def run_Inr)
  from applyMeta_Inr [OF meta] buildAuditRecord_Inr [OF built] assms(2-4) emit show ?thesis
    by (auto simp: audited_def cong: option.case_cong)
qed

subsection \<open>Deciding\<close>

text \<open>While the kill switch is off, the kernel's decision does not depend on its state.\<close>

lemma kernel_decision_unkilled:
  assumes "\<not> killed env ks" "\<not> killed env ks'"
  shows "kernel_decision sha env e st policy ks = kernel_decision sha env e st policy ks'"
proof -
  have "run_checks (entry_checks sha (fst (getKillSwitchState env ks)) e) []
      = run_checks (entry_checks sha (fst (getKillSwitchState env ks')) e) []"
    using assms by (simp add: entry_checks_def kill_check_def)
  then have "Some (kernel_decision sha env e st policy ks) = Some (kernel_decision sha env e st policy ks')"
    unfolding adjudicate_unfold by simp
  then show ?thesis by simp
qed

lemma refuse_if_killed: "killed env ks \<Longrightarrow> decision_kind (kernel_decision sha env e st policy ks) = REFUSE"
  using adjudicate_unfold [of sha env e st policy ks]
  by (simp add: entry_checks_def kill_check_def killRefusal_def)

definition executing :: "Decision \<Rightarrow> bool" where
  "executing d \<longleftrightarrow> decision_kind d = EXECUTE \<or> decision_kind d = REWRITE"

definition receipt_accepted :: "('w, 's) Deps \<Rightarrow> IntentEnvelope \<Rightarrow> bool" where
  "receipt_accepted deps e \<longleftrightarrow> (\<exists>r. confirmationReceipt deps = Some r \<and> cr_intentHash r = e_intentHash e
     \<and> confirmationBindingMatches (cr_binding r))"

definition grant_accepted :: "('w, 's) Deps \<Rightarrow> IntentEnvelope \<Rightarrow> bool" where
  "grant_accepted deps e \<longleftrightarrow> (\<exists>g t. budgetGrant deps = Some (g, t) \<and> bg_intentKind g = e_kind e)"

text \<open>
  Where an executing decision may come from: the kernel's EXECUTE; its REQUEST_CONFIRMATION, with a
  receipt for this envelope or a grant for its kind; or its REWRITE, and then the envelope that
  runs is the rewritten one, on which the kernel itself decided EXECUTE.
\<close>

definition authorised ::
  "'w Module \<Rightarrow> ('w, 's) Deps \<Rightarrow> IntentEnvelope \<Rightarrow> 's \<Rightarrow> 's PolicyBundle \<Rightarrow> Decision \<Rightarrow> IntentEnvelope \<Rightarrow> bool" where
  "authorised m deps e st policy d x \<longleftrightarrow>
     (\<exists>ks. let k = kernel_decision (m_sha m) (m_env m) e st policy ks in
        x = e \<and> decision_kind d = EXECUTE
          \<and> (decision_kind k = EXECUTE
             \<or> decision_kind k = REQUEST_CONFIRMATION \<and> (receipt_accepted deps e \<or> grant_accepted deps e))
      \<or> d = k \<and> x \<noteq> e \<and> (\<exists>why b ks'. k = Rewrite x why b
          \<and> decision_kind (kernel_decision (m_sha m) (m_env m) x st policy ks') = EXECUTE))"

lemma adjudicateE_Inr:
  "adjudicateE m e st policy w = (Inr d, w') \<longleftrightarrow> d = kernel_decision (m_sha m) (m_env m) e st policy (m_getKill m w)
     \<and> w' = m_putKill m (snd (adjudicate (m_sha m) (m_env m) e st policy (m_getKill m w))) w"
  by (auto simp: adjudicateE_def Let_def split: prod.splits)

lemma confirm_cases:
  "confirm deps e d = (d, None)
   \<or> decision_kind d = REQUEST_CONFIRMATION \<and> receipt_accepted deps e \<and> decision_kind (fst (confirm deps e d)) = EXECUTE"
  by (cases d) (auto simp: confirm_def receipt_accepted_def split: option.splits)

lemma spend_budget_Inr:
  "run (spend_budget deps e d) w = (Inr (d', s), w') \<Longrightarrow>
     d' = d \<or> decision_kind d = REQUEST_CONFIRMATION \<and> grant_accepted deps e \<and> decision_kind d' = EXECUTE"
  by (cases d) (auto simp: spend_budget_def grant_accepted_def run_Inr split: option.splits if_splits)

lemma execute_rewrite_Inr:
  assumes "run (execute_rewrite m deps e st policy d) w = (Inr (d', x, s), w')" "executing d'"
  shows "d' = d \<and> (decision_kind d = EXECUTE \<and> x = e
      \<or> (\<exists>why b ks. d = Rewrite x why b \<and> decision_kind (kernel_decision (m_sha m) (m_env m) x st policy ks) = EXECUTE))"
proof (cases d)
  case (Rewrite e' why b)
  show ?thesis
  proof (cases "kernel_decision (m_sha m) (m_env m) e' st policy (m_getKill m w)")
    case (Execute b2)
    then have "decision_kind (kernel_decision (m_sha m) (m_env m) e' st policy (m_getKill m w)) = EXECUTE" by simp
    moreover have "d' = d" "x = e'"
      using assms Rewrite Execute by (auto simp: execute_rewrite_def run_Inr adjudicateE_Inr)
    ultimately show ?thesis using Rewrite by blast
  qed (use assms Rewrite in \<open>auto simp: execute_rewrite_def run_Inr adjudicateE_Inr executing_def rewriteLoopRefusal_def\<close>)
qed (use assms in \<open>auto simp: execute_rewrite_def executing_def\<close>)

lemma claim_Inr:
  assumes "run (claim m deps e st d x) w = (Inr (d', acq), w')" "executing d'"
  shows "d' = d \<and> (case dep_ledger deps of None \<Rightarrow> \<not> acq
     | Some L \<Rightarrow> claims_ledger d x e \<longrightarrow> acq \<and> (\<exists>rv w1 w2. recordExecution L (claim_entry x rv) w1 = (Inr acquired, w2)))"
proof (cases "dep_ledger deps")
  case (Some L)
  show ?thesis
  proof (cases "claims_ledger d x e")
    case True
    with assms(1) Some obtain rv w1 out w2 w3 where
      rec: "recordExecution L (claim_entry x rv) w1 = (Inr out, w2)"
      and out: "run (case out of acquired \<Rightarrow> retP (d, True)
            | exists \<Rightarrow> bindP (effP (clock_nowIso deps)) (\<lambda>tnow.
                retP (replaySuppressedRefusal (e_intentHash x)
                  \<lparr>lh_resourceVersion = rv, lh_at = tnow, lh_sessionId = sessionId (e_actor x),
                   lh_kind = e_kind x\<rparr>, False))) w3 = (Inr (d', acq), w')"
      by (auto simp: claim_def bindE_Inr Let_def)
    show ?thesis
    proof (cases out)
      case acquired
      with out rec Some show ?thesis by auto
    next
      case exists
      with out assms(2) show ?thesis by (auto simp: executing_def replaySuppressedRefusal_def bindE_Inr)
    qed
  qed (use assms Some in \<open>simp add: claim_def\<close>)
qed (use assms in \<open>simp add: claim_def\<close>)

lemma decide_Inr:
  assumes "run (decide m deps e st policy) w = (Inr dc, w')" "executing (dc_decision dc)"
  shows "authorised m deps e st policy (dc_decision dc) (dc_executed dc)
    \<and> (\<forall>L. dep_ledger deps = Some L \<longrightarrow> dc_acquired dc
        \<and> (\<exists>rv w1 w2. recordExecution L (claim_entry (dc_executed dc) rv) w1 = (Inr acquired, w2)))"
proof -
  let ?k = "kernel_decision (m_sha m) (m_env m) e st policy (m_getKill m w)"
  obtain d1 s1 where c: "confirm deps e ?k = (d1, s1)" by (cases "confirm deps e ?k")
  with assms(1) obtain w0 d2 s2 w2 d3 x s3 w3 where
    b: "run (spend_budget deps e d1) w0 = (Inr (d2, s2), w2)"
    and r: "run (execute_rewrite m deps e st policy d2) w2 = (Inr (d3, x, s3), w3)"
    and l: "run (claim m deps e st d3 x) w3 = (Inr (dc_decision dc, dc_acquired dc), w')" and x: "dc_executed dc = x"
    by (auto simp: decide_def bindE_Inr adjudicateWithTraceE_decision adjudicateE_Inr)
  note L = claim_Inr [OF l assms(2)]
  have ex3: "executing d3" and d3: "dc_decision dc = d3" using L assms(2) by auto
  note R = execute_rewrite_Inr [OF r ex3]
  have auth: "authorised m deps e st policy d3 x"
  proof (cases "decision_kind d3 = EXECUTE")
    case True
    with R have d2: "d2 = d3" "x = e" by (auto simp: executing_def)
    have "decision_kind ?k = EXECUTE \<or> decision_kind ?k = REQUEST_CONFIRMATION \<and> (receipt_accepted deps e \<or> grant_accepted deps e)"
      using spend_budget_Inr [OF b] confirm_cases [of deps e ?k] c d2 True by auto
    with True d2 show ?thesis unfolding authorised_def Let_def by blast
  next
    case False
    with ex3 have rw: "decision_kind d3 = REWRITE" by (simp add: executing_def)
    with R obtain why bs ks where d2: "d2 = d3" "d3 = Rewrite x why bs"
      and second: "decision_kind (kernel_decision (m_sha m) (m_env m) x st policy ks) = EXECUTE" by auto
    have "d3 = ?k" using spend_budget_Inr [OF b] confirm_cases [of deps e ?k] c d2 by auto
    moreover have "x \<noteq> e"
    proof
      assume "x = e"
      have "\<not> killed (m_env m) ks" "\<not> killed (m_env m) (m_getKill m w)"
        using refuse_if_killed second rw \<open>d3 = ?k\<close> by (metis DecisionKind.distinct(1) DecisionKind.distinct(17))+
      from kernel_decision_unkilled [OF this, of "m_sha m" e st policy] second rw \<open>d3 = ?k\<close> \<open>x = e\<close>
      show False by simp
    qed
    ultimately show ?thesis using d2 second unfolding authorised_def Let_def by blast
  qed
  have "claims_ledger d3 x e" using auth ex3
    by (auto simp: authorised_def claims_ledger_def Let_def executing_def)
  with L auth d3 x show ?thesis by auto
qed

subsection \<open>A call alone\<close>

lemma auditPath_Inr:
  assumes "run (auditPath m deps e dc dur plan) w = (Inr r, w')"
  shows "audited (m_sha m) deps (dc_executed dc) (dc_decision dc) r"
proof -
  from assms obtain w1 where "run (emitRecord m deps (main_audit_input deps dc dur plan)) w = (Inr r, w1)"
    by (auto simp: auditPath_def run_Inr)
  then show ?thesis by (rule emitRecord_Inr) (simp_all add: main_audit_input_def audit_input_def)
qed

lemma mainPath_Inr:
  assumes "run (mainPath m deps e st policy start) w = (Inr res, w')"
  shows "\<exists>dc. audited (m_sha m) deps (dc_executed dc) (dc_decision dc) (rs_record res)
    \<and> rs_decision res = dc_decision dc
    \<and> (executing (dc_decision dc) \<longrightarrow> rs_ledgerHit res = None \<and> (\<exists>w1 w2. run (decide m deps e st policy) w1 = (Inr dc, w2)))"
proof -
  from assms obtain hit dc w1 w2 w3 w4 dur plan where
    dc: "run (case hit of Some hit \<Rightarrow> retP \<lparr>dc_decision = replaySuppressedRefusal (e_intentHash e) hit, dc_trace = [],
             dc_executed = e, dc_supersedes = None, dc_acquired = False\<rparr>
       | None \<Rightarrow> decide m deps e st policy) w1 = (Inr dc, w2)"
    and audit: "run (auditPath m deps e dc dur plan) w3 = (Inr (rs_record res), w4)"
    and res: "rs_decision res = dc_decision dc" "rs_ledgerHit res = hit"
    unfolding mainPath_def run_bindP run_effP bindE_Inr Let_def run_retP retE_Inr by fastforce
  have "executing (dc_decision dc) \<longrightarrow> rs_ledgerHit res = None \<and> (\<exists>w1 w2. run (decide m deps e st policy) w1 = (Inr dc, w2))"
    using dc res(2) by (cases hit) (auto simp: executing_def replaySuppressedRefusal_def)
  with auditPath_Inr [OF audit] res(1) show ?thesis by blast
qed

lemma killPath_Inr:
  assumes "run (killPath m deps e tenant start kill) w = (Inr res, w')"
  shows "rs_decision res = tenantKillRefusal tenant kill \<and> rs_ledgerHit res = None
    \<and> audited (m_sha m) deps e (tenantKillRefusal tenant kill) (rs_record res)"
proof -
  from assms obtain r dur w1 w2 where
    "run (emitRecord m deps (audit_input deps e (tenantKillRefusal tenant kill) dur)) w1 = (Inr r, w2)"
    "res = \<lparr>rs_decision = tenantKillRefusal tenant kill, rs_record = r, rs_ledgerHit = None\<rparr>"
    unfolding killPath_def run_bindP run_effP run_finallyP bindE_Inr finallyE_Inr Let_def run_retP retE_Inr by fastforce
  moreover from this(1) have "audited (m_sha m) deps e (tenantKillRefusal tenant kill) r"
    by (rule emitRecord_Inr) (simp_all add: audit_input_def)
  ultimately show ?thesis by simp
qed

lemma tenantKillRefusal_kind: "\<not> executing (tenantKillRefusal t k)"
  by (simp add: executing_def tenantKillRefusal_def)

lemma adjudicateAndAudit_cases:
  assumes "run (adjudicateAndAudit m e st policy deps) w = (Inr res, w')"
  obtains (main) start w1 where "run (mainPath m deps e st policy start) w1 = (Inr res, w')"
      "\<And>ctx. dep_context deps = Some ctx \<Longrightarrow> \<exists>w0. readTenantKillState (ctx_killSwitch ctx) w0 = (Inr None, w1)"
  | (kill) ctx k start w1 where "dep_context deps = Some ctx" "run (killPath m deps e (ctx_id ctx) start k) w1 = (Inr res, w')"
proof (cases "dep_context deps")
  case None
  with assms main show thesis by (auto simp: adjudicateAndAudit_def run_Inr)
next
  case (Some ctx)
  with assms obtain start ks w1 w2 where ks: "readTenantKillState (ctx_killSwitch ctx) w1 = (Inr ks, w2)"
    and rest: "run (case ks of Some kill \<Rightarrow> killPath m deps e (ctx_id ctx) start kill
         | None \<Rightarrow> mainPath m deps e st policy start) w2 = (Inr res, w')"
    by (auto simp: adjudicateAndAudit_def run_Inr)
  with Some main kill show thesis by (cases ks) auto
qed

text \<open>C12: no decision without its audit row. Whenever a call of the shell returns, the record it returns
  carries the returned decision and a correct tamper-evident hash, is signed if a signer was
  configured, and the sink accepted that very record.\<close>

theorem shell_audit_complete:
  assumes "run (adjudicateAndAudit m e st policy deps) w = (Inr res, w')"
  shows "\<exists>x. audited (m_sha m) deps x (rs_decision res) (rs_record res)"
  using assms
proof (cases rule: adjudicateAndAudit_cases)
  case main
  then show ?thesis by (metis mainPath_Inr)
next
  case kill
  then show ?thesis using killPath_Inr by metis
qed

lemma executed_decided:
  assumes "run (adjudicateAndAudit m e st policy deps) w = (Inr res, w')" "executing (rs_decision res)"
  shows "\<exists>dc w1 w2. run (decide m deps e st policy) w1 = (Inr dc, w2) \<and> executing (dc_decision dc)
    \<and> rs_decision res = dc_decision dc \<and> ar_envelope (rs_record res) = dc_executed dc \<and> rs_ledgerHit res = None"
  using assms(1)
proof (cases rule: adjudicateAndAudit_cases)
  case main
  with mainPath_Inr [OF main(1)] assms(2) show ?thesis unfolding audited_def by metis
next
  case kill
  from killPath_Inr [OF kill(2)] assms(2) tenantKillRefusal_kind show ?thesis by metis
qed

text \<open>C11: an executing outcome is authorised by the kernel. If a call returns EXECUTE or REWRITE, the kernel
  decided EXECUTE on the given envelope; or it asked for confirmation and a receipt for this very
  envelope or a budget grant for its kind was presented; or it decided REWRITE and, on the
  rewritten envelope, which is the one recorded, EXECUTE. Every other outcome of the kernel stays
  non-executing whatever receipts and grants are supplied.\<close>

theorem shell_execution_authorised:
  assumes "run (adjudicateAndAudit m e st policy deps) w = (Inr res, w')" "executing (rs_decision res)"
  shows "authorised m deps e st policy (rs_decision res) (ar_envelope (rs_record res))"
  using executed_decided [OF assms] decide_Inr by metis

text \<open>C14: with a ledger, nothing executes unclaimed. If a call with a ledger returns EXECUTE or REWRITE,
  the ledger had no entry for the envelope at the replay check, and the claim of the executed
  envelope's hash was acquired by this call.\<close>

theorem shell_execution_claimed:
  assumes "run (adjudicateAndAudit m e st policy deps) w = (Inr res, w')" "executing (rs_decision res)"
    and "dep_ledger deps = Some L"
  shows "rs_ledgerHit res = None
    \<and> (\<exists>rv w1 w2. recordExecution L (claim_entry (ar_envelope (rs_record res)) rv) w1 = (Inr acquired, w2))"
  using executed_decided [OF assms(1,2)] decide_Inr assms(3) by metis

text \<open>The path of a killed tenant uses neither the ledger nor the policy nor the state.\<close>

lemma killPath_ledger: "killPath m (deps\<lparr>dep_ledger := L\<rparr>) = killPath m deps"
proof -
  have t: "telemetry_of m (deps\<lparr>dep_ledger := L\<rparr>) = telemetry_of m deps" by (simp add: telemetry_of_def)
  then have f: "failureE m (deps\<lparr>dep_ledger := L\<rparr>) = failureE m deps" by (simp add: fun_eq_iff failureE_def)
  show ?thesis
    by (simp add: fun_eq_iff killPath_def emitDecisionEvents_def emitOutcome_def emitRecord_def rollback_def audit_input_def
        applyMeta_def t f cong: Decision.case_cong option.case_cong)
qed

lemma tenant_killed_run:
  assumes "dep_context deps = Some ctx"
    and "\<forall>w0 w1 port isk. ctx_killSwitch ctx = Some port \<longrightarrow> kp_isKilled port = Some isk \<longrightarrow> isk w0 \<noteq> (Inr False, w1)"
  shows "run (adjudicateAndAudit m e st policy deps) w
    = bindE (clock_nowMs deps) (\<lambda>start. bindE (readTenantKillState (ctx_killSwitch ctx)) (\<lambda>k.
        run (killPath m deps e (ctx_id ctx) start (the k)))) w"
proof -
  have "r \<noteq> Inr None" if "readTenantKillState (ctx_killSwitch ctx) v = (r, v')" for v r v'
    using that assms(2) by (auto simp: readTenantKillState_def run_Inr split: option.splits if_splits)
  then show ?thesis
    using assms(1) by (auto simp: adjudicateAndAudit_def bindE_def split: prod.split sum.split option.split)
qed

text \<open>C21: the tenant kill switch fails closed. With a context whose switch is engaged, missing, without an
  \<open>isKilled\<close>, or throwing when it is read, a call that returns has refused with \<open>kill_switch_active\<close>; and
  the call, returning or not, consults neither the ledger nor the policy nor the state: it has the same outcome
  and leaves the same world whatever they are.\<close>

theorem tenant_kill_fails_closed:
  assumes "dep_context deps = Some ctx"
    and "\<And>w0 w1 port isk. ctx_killSwitch ctx = Some port \<Longrightarrow> kp_isKilled port = Some isk \<Longrightarrow> isk w0 \<noteq> (Inr False, w1)"
  shows "(\<forall>res w'. run (adjudicateAndAudit m e st policy deps) w = (Inr res, w') \<longrightarrow> rs_ledgerHit res = None
      \<and> (\<exists>r b. rs_decision res = Refuse r b \<and> r_kind r = SECURITY_REFUSAL \<and> r_code r = ''kill_switch_active''))
    \<and> (\<forall>L st' policy'. run (adjudicateAndAudit m e st' policy' (deps\<lparr>dep_ledger := L\<rparr>)) w
        = run (adjudicateAndAudit m e st policy deps) w)"
proof -
  have k: "\<forall>w0 w1 port isk. ctx_killSwitch ctx = Some port \<longrightarrow> kp_isKilled port = Some isk \<longrightarrow> isk w0 \<noteq> (Inr False, w1)"
    using assms(2) by blast
  note killed = tenant_killed_run [OF assms(1) k]
  show ?thesis
  proof (intro conjI allI impI)
    fix L st' policy'
    have "run (adjudicateAndAudit m e st' policy' (deps\<lparr>dep_ledger := L\<rparr>)) w
        = bindE (clock_nowMs (deps\<lparr>dep_ledger := L\<rparr>)) (\<lambda>start. bindE (readTenantKillState (ctx_killSwitch ctx)) (\<lambda>k.
            run (killPath m (deps\<lparr>dep_ledger := L\<rparr>) e (ctx_id ctx) start (the k)))) w"
      by (rule tenant_killed_run [OF _ k]) (simp add: assms(1))
    with killed show "run (adjudicateAndAudit m e st' policy' (deps\<lparr>dep_ledger := L\<rparr>)) w = run (adjudicateAndAudit m e st policy deps) w"
      by (simp add: killPath_ledger)
  next
    fix res w'
    assume "run (adjudicateAndAudit m e st policy deps) w = (Inr res, w')"
    then obtain start k w1 where "run (killPath m deps e (ctx_id ctx) start k) w1 = (Inr res, w')"
      by (auto simp: killed bindE_Inr)
    from killPath_Inr [OF this] show "rs_ledgerHit res = None"
        "\<exists>r b. rs_decision res = Refuse r b \<and> r_kind r = SECURITY_REFUSAL \<and> r_code r = ''kill_switch_active''"
      by (simp_all add: tenantKillRefusal_def)
  qed
qed

end
