(* ===== verification/Concurrency.thy ===== *)
theory Concurrency
  imports ShellProps
begin

text \<open>
  Interleaved calls of the shell over one ledger: each call is followed with the key it has claimed,
  and of all calls that return an executing outcome for one hash there is at most one.
\<close>

text \<open>The telemetry, and all callbacks of a call, leave the ledger's keys alone.\<close>

definition framed_telemetry :: "('w \<Rightarrow> 'h) \<Rightarrow> 'w Telemetry \<Rightarrow> bool" where
  "framed_telemetry held T \<longleftrightarrow> (\<forall>x. frame held (recordLedgerOp T x)) \<and> (\<forall>x. frame held (recordDecision T x))
     \<and> (\<forall>x. frame held (recordRefusal T x)) \<and> (\<forall>x. frame held (recordSinkFailure T x))
     \<and> (\<forall>x. frame held (recordOutcome T x))"

definition framed_context :: "('w \<Rightarrow> 'h) \<Rightarrow> 'w RuntimeContext \<Rightarrow> bool" where
  "framed_context held ctx \<longleftrightarrow> framed_telemetry held (ctx_telemetry ctx)
     \<and> (\<forall>port. ctx_killSwitch ctx = Some port \<longrightarrow> frame held (kp_state port)
          \<and> (\<forall>isk. kp_isKilled port = Some isk \<longrightarrow> frame held isk))"

definition framed_call :: "('w \<Rightarrow> 'h) \<Rightarrow> 'w Module \<Rightarrow> ('w, 's) Deps \<Rightarrow> bool" where
  "framed_call held m deps \<longleftrightarrow>
     framed_telemetry held (m_telemetry m) \<and> (\<forall>ks w. held (m_putKill m ks w) = held w)
   \<and> (\<forall>ctx. dep_context deps = Some ctx \<longrightarrow> framed_context held ctx)
   \<and> (\<forall>r. frame held (sink_emit deps r)) \<and> frame held (clock_nowIso deps) \<and> frame held (clock_nowMs deps)
   \<and> (\<forall>f r. metadataProvider deps = Some f \<longrightarrow> frame held (f r))
   \<and> (\<forall>f e st. resolveResourceVersion deps = Some f \<longrightarrow> frame held (f e st))
   \<and> (\<forall>p. dep_plan deps = Some p \<longrightarrow> frame held p) \<and> (\<forall>r. rateLimitRollback deps = Some r \<longrightarrow> frame held r)"

subsection \<open>The parts of a call touch no key\<close>

lemma framed_telemetry_of: "framed_call held m deps \<Longrightarrow> framed_telemetry held (telemetry_of m deps)"
  by (cases "dep_context deps") (auto simp: framed_call_def telemetry_of_def framed_context_def)

lemma framed_callD [quiet_intros]:
  assumes "framed_call held m deps"
  shows "frame held (recordLedgerOp (telemetry_of m deps) x1)" "frame held (recordDecision (telemetry_of m deps) x2)"
    "frame held (recordRefusal (telemetry_of m deps) x3)" "frame held (failureE m deps a b c)"
    "frame held (recordOutcome (telemetry_of m deps) x4)"
    "frame held (clock_nowIso deps)" "frame held (clock_nowMs deps)" "frame held (sink_emit deps r)"
  using assms framed_telemetry_of [OF assms]
  by (simp_all add: framed_call_def framed_telemetry_def failureE_def)

lemma frame_adjudicateE [quiet_intros]: "framed_call held m deps \<Longrightarrow> frame held (adjudicateE m e st policy)"
  by (auto simp: framed_call_def frame_def adjudicateE_def Let_def split: prod.split)

lemma frame_adjudicateWithTraceE [quiet_intros]:
  "framed_call held m deps \<Longrightarrow> frame held (adjudicateWithTraceE m e st policy)"
  by (auto simp: framed_call_def frame_def adjudicateWithTraceE_def Let_def split: prod.split)

lemma frame_applyMeta [quiet_intros]:
  assumes "framed_call held m deps"
  shows "frame held (applyMeta m deps r)"
  using assms framed_callD(4) [OF assms]
  by (auto simp: applyMeta_def thenE_def framed_call_def split: option.split intro!: frame_try frame_bind)

lemma frame_readTenantKillState:
  "framed_call held m deps \<Longrightarrow> dep_context deps = Some ctx \<Longrightarrow> frame held (readTenantKillState (ctx_killSwitch ctx))"
  by (auto simp: readTenantKillState_def framed_call_def framed_context_def
      split: option.split intro!: frame_try frame_bind)

lemma quiet_rollback [quiet_intros]: "framed_call held m deps \<Longrightarrow> quiet held (rollback m deps e)"
  unfolding rollback_def by (auto split: option.split intro!: quiet_intros) (simp add: framed_call_def)

lemma quiet_emitDecisionEvents [quiet_intros]:
  "framed_call held m deps \<Longrightarrow> quiet held (emitDecisionEvents m deps e d dur)"
  unfolding emitDecisionEvents_def by (intro quiet_intros) (auto split: Decision.split intro!: quiet_intros)

lemma quiet_emitOutcome [quiet_intros]:
  "framed_call held m deps \<Longrightarrow> quiet held (emitOutcome m deps e d dur tr plan)"
  unfolding emitOutcome_def by (intro quiet_intros)

lemma kept_emitRecord:
  assumes fr: "framed_call held m deps" and input: "\<And>t. bi_envelope (input t) = x"
  shows "kept held (emitRecord m deps input) (\<lambda>r. \<forall>a. r = Inr a \<longrightarrow> ar_envelope a = x)"
proof -
  let ?P = "\<lambda>r. \<forall>a. r = Inr a \<longrightarrow> ar_envelope a = x"
  have meta: "kept held (effP (applyMeta m deps b)) ?P" if "ar_envelope b = x" for b
  proof (rule kept_eff [OF frame_applyMeta [OF fr]])
    show "\<forall>a. fst (applyMeta m deps b w) = Inr a \<longrightarrow> ar_envelope a = x" for w
      using applyMeta_Inr [of m deps b w _ "snd (applyMeta m deps b w)"] that
      by (metis attachAuditMetadata_sel(2) prod.collapse)
  qed
  have build: "kept held (resultP (buildAuditRecord (m_sha m) [] (input t))) ?P" for t
    unfolding resultP_def by (rule kept_Done) (use buildAuditRecord_Inr(1) input in auto)
  have emit: "kept held (bindP (effP (sink_emit deps a)) (\<lambda>_. retP a)) ?P" if "ar_envelope a = x" for a
    by (rule kept_bind [OF quiet_eff [OF framed_callD(8) [OF fr]]]) (use that in \<open>auto simp: retP_def intro: kept_Done\<close>)
  show ?thesis unfolding emitRecord_def
    by (rule kept_bind [OF quiet_eff [OF framed_callD(6) [OF fr]]], simp,
        rule kept_bind [OF build], simp, rule kept_bind [OF meta], simp, simp, rule emit) simp
qed

subsection \<open>The deciding part\<close>

lemma confirm_rewrite: "decision_kind (fst (confirm deps e d)) = REWRITE \<Longrightarrow> fst (confirm deps e d) = d"
  using confirm_cases [of deps e d] by auto

lemma kept_spend_budget:
  assumes "framed_call held m deps"
  shows "kept held (spend_budget deps e d) (\<lambda>r. \<forall>d' s. r = Inr (d', s) \<longrightarrow> decision_kind d' = REWRITE \<longrightarrow> d' = d)"
proof -
  have clock: "quiet held (case t of Some t \<Rightarrow> retP t | None \<Rightarrow> effP (clock_nowIso deps))" for t
    using assms by (auto split: option.split intro!: quiet_intros)
  show ?thesis
    by (cases d; cases "budgetGrant deps")
      (auto simp: spend_budget_def intro!: kept_ret kept_bind [OF clock])
qed

lemma kept_execute_rewrite:
  assumes fr: "framed_call held m deps"
    and d: "decision_kind d = REWRITE \<Longrightarrow> d = kernel_decision (m_sha m) (m_env m) e st policy ks"
  shows "kept held (execute_rewrite m deps e st policy d)
    (\<lambda>r. \<forall>d' x s. r = Inr (d', x, s) \<longrightarrow> executing d' \<longrightarrow> claims_ledger d' x e)"
proof (cases "decision_kind d = REWRITE")
  case True
  then obtain x why b where dx: "d = Rewrite x why b" by (auto simp: decision_kind_REWRITE)
  let ?second = "\<lambda>k. kernel_decision (m_sha m) (m_env m) x st policy k"
  have neq: "x \<noteq> e" if second: "decision_kind (?second ks') = EXECUTE" for ks'
  proof
    assume "x = e"
    have "\<not> killed (m_env m) ks'" "\<not> killed (m_env m) ks"
      using refuse_if_killed second True d by (metis DecisionKind.distinct(1) DecisionKind.distinct(17))+
    from kernel_decision_unkilled [OF this, of "m_sha m" e st policy] second d [OF True] \<open>x = e\<close>
    have "decision_kind d = EXECUTE" by simp
    with True show False by simp
  qed
  have call: "kept held (effP (adjudicateE m x st policy)) (\<lambda>r. \<forall>k. r = Inr k \<longrightarrow> (\<exists>ks'. k = ?second ks'))"
  proof (rule kept_eff [OF frame_adjudicateE [OF fr]])
    have "fst (adjudicateE m x st policy w) = Inr (?second (m_getKill m w))" for w
      by (simp add: adjudicateE_def Let_def case_prod_unfold)
    then show "\<forall>k. fst (adjudicateE m x st policy w) = Inr k \<longrightarrow> (\<exists>ks'. k = ?second ks')" for w
      by auto
  qed
  show ?thesis unfolding execute_rewrite_def dx Decision.case
  proof (rule kept_bind [OF call], simp)
    fix k
    assume k: "\<forall>k'. Inr k = Inr k' \<longrightarrow> (\<exists>ks'. k' = ?second ks')"
    show "kept held (case k of Execute b2 \<Rightarrow> bindP (effP (clock_nowIso deps)) (\<lambda>tnow.
              retP (Rewrite x why b, x, Some (rewriteExecutedSupersession (e_intentHash e) tnow)))
          | Rewrite e2 why2 b2 \<Rightarrow> retP (rewriteLoopRefusal b2, e, None)
          | _ \<Rightarrow> retP (k, e, None)) (\<lambda>r. \<forall>d' x s. r = Inr (d', x, s) \<longrightarrow> executing d' \<longrightarrow> claims_ledger d' x e)"
    proof (cases k)
      case (Execute b2)
      with k obtain ks' where "decision_kind (?second ks') = EXECUTE" by (metis decision_kind.simps(1))
      then have "x \<noteq> e" by (rule neq)
      with Execute show ?thesis
        by (auto simp: retP_def claims_ledger_def intro!: kept_bind [OF quiet_eff [OF framed_callD(6) [OF fr]]] kept_Done)
    qed (auto simp: retP_def claims_ledger_def executing_def rewriteLoopRefusal_def intro!: kept_Done)
  qed
next
  case False
  then show ?thesis
    by (cases d) (auto simp: execute_rewrite_def retP_def claims_ledger_def executing_def intro!: kept_Done)
qed

subsection \<open>The claim and its release\<close>

context ledger
begin

lemma frame_check: "frame held (checkLedger L h)"
  by (simp add: frame_def check_frame)

text \<open>A claim: an acquired outcome leaves the key with the caller, every other outcome leaves none.\<close>

lemma safe_recordExecution:
  assumes "Q (Some (le_intentHash e)) (Inr acquired)" "Q None (Inr exists)" "\<And>err. Q None (Inl err)"
  shows "safe held (effP (recordExecution L e)) None Q"
proof -
  have "\<exists>c'. claim_step None (held w) c' (held (snd (recordExecution L e w))) \<and> Q c' (fst (recordExecution L e w))" for w
  proof (cases "fst (recordExecution L e w)")
    case (Inl err)
    then have "recordExecution L e w = (Inl err, snd (recordExecution L e w))" by (metis prod.collapse)
    with claim_throws [OF this] assms(3) Inl show ?thesis
      by (intro exI [of _ None]) (auto intro: claim_step_refl)
  next
    case (Inr out)
    then have out: "recordExecution L e w = (Inr out, snd (recordExecution L e w))" by (metis prod.collapse)
    show ?thesis
    proof (cases out)
      case acquired
      with out claim_acquired [of e w "snd (recordExecution L e w)"] assms(1) Inr show ?thesis
        by (intro exI [of _ "Some (le_intentHash e)"]) (auto simp: claim_step_def)
    next
      case exists
      with out claim_exists [of e w "snd (recordExecution L e w)"] assms(2) Inr show ?thesis
        by (intro exI [of _ None]) (auto intro: claim_step_refl)
    qed
  qed
  then show ?thesis by (simp add: effP_def case_prod_unfold)
qed

lemma safe_release:
  assumes "release L = Some rel" "c = Some h" "\<And>c r. Q c r"
  shows "safe held (effP (rel h)) c Q"
proof -
  have "\<exists>c'. claim_step c (held w) c' (held (snd (rel h w)))" for w
    using released [OF assms(1), of h w] assms(2) by (auto simp: claim_step_def)
  then show ?thesis using assms(3) by (simp add: effP_def case_prod_unfold)
qed

lemma safe_claim:
  assumes fr: "framed_call held m deps" and L: "dep_ledger deps = Some L"
    and d: "executing d \<Longrightarrow> claims_ledger d x e"
  shows "safe held (claim m deps e st d x) None
    (\<lambda>c r. \<forall>d' acq. r = Inr (d', acq) \<longrightarrow> c = (if acq then Some (e_intentHash x) else None) \<and> (executing d' \<longrightarrow> acq))"
    (is "safe held _ None ?Q")
proof (cases "claims_ledger d x e")
  case True
  have resolve: "quiet held (case resolveResourceVersion deps of None \<Rightarrow> retP None | Some f \<Rightarrow> effP (f x st))"
    using fr by (auto simp: framed_call_def split: option.split intro!: quiet_intros)
  note clock = quiet_eff [OF framed_callD(7) [OF fr]] and emit = quiet_eff [OF framed_callD(1) [OF fr]]
    and date = quiet_eff [OF framed_callD(6) [OF fr]]
  have acq: "safe held (bindP (effP (clock_nowMs deps)) (\<lambda>t.
       bindP (effP (recordLedgerOp (telemetry_of m deps) (ev t))) (\<lambda>_. retP (d, True))))
     (Some (e_intentHash x)) ?Q" for ev
    by (rule safe_kept_bind [OF clock], simp, rule safe_kept_bind [OF emit], simp) (simp add: retP_def)
  have sup: "safe held (bindP (effP (clock_nowMs deps)) (\<lambda>t.
       bindP (effP (recordLedgerOp (telemetry_of m deps) (ev t))) (\<lambda>_.
       bindP (effP (clock_nowIso deps)) (\<lambda>tnow.
         retP (replaySuppressedRefusal (e_intentHash x) (hit tnow), False))))) None ?Q" for ev hit
    by (rule safe_kept_bind [OF clock], simp, rule safe_kept_bind [OF emit], simp,
        rule safe_kept_bind [OF date], simp)
      (simp add: retP_def executing_def replaySuppressedRefusal_def)
  have hash: "le_intentHash (claim_entry x rv) = e_intentHash x" for rv by (simp add: claim_entry_def)
  show ?thesis
    unfolding claim_def L option.case Let_def using True
    by (simp only: not_True_eq_False if_False)
      (rule safe_kept_bind [OF clock], simp, rule safe_kept_bind [OF resolve], simp,
        rule safe_bind, rule safe_recordExecution;
        simp only: sum.case LedgerRecordOutcome.case LedgerRecordOutcome.distinct refl if_True if_False hash acq sup;
        simp)
next
  case False
  with d L show ?thesis by (auto simp: claim_def retP_def)
qed

end

subsection \<open>A whole call\<close>

text \<open>
  What the deciding part leaves: the claim is held exactly if it was acquired, and an executing
  decision has acquired it.
\<close>

definition decided :: "string option \<Rightarrow> Decided \<Rightarrow> bool" where
  "decided c dc \<longleftrightarrow> c = (if dc_acquired dc then Some (e_intentHash (dc_executed dc)) else None)
     \<and> (executing (dc_decision dc) \<longrightarrow> dc_acquired dc)"

text \<open>An executing result holds the key of the envelope it records.\<close>

definition settled :: "string option \<Rightarrow> AdjudicateAndAuditResult result \<Rightarrow> bool" where
  "settled c r \<longleftrightarrow> (\<forall>res. r = Inr res \<longrightarrow> executing (rs_decision res) \<longrightarrow>
     c = Some (e_intentHash (ar_envelope (rs_record res))))"

lemma settled_Inl [simp]: "settled c (Inl e)"
  by (simp add: settled_def)

context ledger
begin

lemma safe_decide:
  assumes fr: "framed_call held m deps" and L: "dep_ledger deps = Some L"
  shows "safe held (decide m deps e st policy) None (\<lambda>c r. \<forall>dc. r = Inr dc \<longrightarrow> decided c dc)"
    (is "safe held _ None ?Q")
proof -
  let ?k = "\<lambda>ks. kernel_decision (m_sha m) (m_env m) e st policy ks"
  have call: "kept held (effP (adjudicateWithTraceE m e st policy)) (\<lambda>r. \<forall>d t. r = Inr (d, t) \<longrightarrow> (\<exists>ks. d = ?k ks))"
  proof (rule kept_eff [OF frame_adjudicateWithTraceE [OF fr]])
    show "\<forall>d t. fst (adjudicateWithTraceE m e st policy w) = Inr (d, t) \<longrightarrow> (\<exists>ks. d = ?k ks)" for w
      using adjudicateWithTraceE_decision [of m e st policy w] by (metis adjudicateE_Inr prod.collapse)
  qed
  have fin: "safe held (bindP (claim m deps e st d x) (\<lambda>(d', acq). retP
       \<lparr>dc_decision = d', dc_trace = tr, dc_executed = x, dc_supersedes = ss, dc_acquired = acq\<rparr>)) None ?Q"
    if "executing d \<longrightarrow> claims_ledger d x e" for d x tr ss
    by (rule safe_bind, rule safe_mono, rule safe_claim [OF fr L])
      (use that in \<open>auto simp: retP_def decided_def split: sum.split prod.split\<close>)
  have rew: "safe held (bindP (execute_rewrite m deps e st policy d) (\<lambda>(d3, x, s3).
       bindP (claim m deps e st d3 x) (\<lambda>(d', acq). retP
       \<lparr>dc_decision = d', dc_trace = tr, dc_executed = x, dc_supersedes = ss s3, dc_acquired = acq\<rparr>))) None ?Q"
    if "decision_kind d = REWRITE \<longrightarrow> d = ?k ks" for d ks tr ss
    by (rule safe_kept_bind [OF kept_execute_rewrite [OF fr, of d e st policy ks]])
      (use that fin in \<open>auto split: prod.split\<close>)
  have bud: "safe held (bindP (spend_budget deps e d) (\<lambda>(d2, s2).
       bindP (execute_rewrite m deps e st policy d2) (\<lambda>(d3, x, s3).
       bindP (claim m deps e st d3 x) (\<lambda>(d', acq). retP
       \<lparr>dc_decision = d', dc_trace = tr, dc_executed = x, dc_supersedes = ss s2 s3, dc_acquired = acq\<rparr>)))) None ?Q"
    if "decision_kind d = REWRITE \<longrightarrow> d = ?k ks" for d ks tr ss
    by (rule safe_kept_bind [OF kept_spend_budget [OF fr]])
      (use that in \<open>auto split: prod.split intro!: rew [of _ ks]\<close>)
  show ?thesis unfolding decide_def Let_def
  proof (rule safe_kept_bind [OF call], simp)
    fix dt :: "Decision \<times> AdjudicationTraceEntry list"
    assume "\<forall>d t. Inr dt = Inr (d, t) \<longrightarrow> (\<exists>ks. d = ?k ks)"
    then obtain ks t where dt: "dt = (?k ks, t)" by (cases dt) auto
    obtain d1 s1 where c: "confirm deps e (?k ks) = (d1, s1)" by (cases "confirm deps e (?k ks)")
    have "decision_kind d1 = REWRITE \<longrightarrow> d1 = ?k ks" using confirm_rewrite [of deps e "?k ks"] c by auto
    from bud [OF this] show "safe held (case dt of (decision0, trace) \<Rightarrow>
        case confirm deps e decision0 of (decision1, confirmationSupersedes) \<Rightarrow>
        bindP (spend_budget deps e decision1) (\<lambda>(decision2, budgetSupersedes).
        bindP (execute_rewrite m deps e st policy decision2) (\<lambda>(decision3, executed, rewriteSupersedes).
        bindP (claim m deps e st decision3 executed) (\<lambda>(decision4, ledgerAcquired).
        retP \<lparr>dc_decision = decision4, dc_trace = trace, dc_executed = executed,
          dc_supersedes = first_some [rewriteSupersedes, confirmationSupersedes, budgetSupersedes],
          dc_acquired = ledgerAcquired\<rparr>)))) None ?Q"
      by (simp add: dt c)
  qed
qed

lemma safe_auditPath:
  assumes fr: "framed_call held m deps" and L: "dep_ledger deps = Some L" and dc: "decided c dc"
  shows "safe held (auditPath m deps e dc dur plan) c
    (\<lambda>c' r. \<forall>a. r = Inr a \<longrightarrow> c' = c \<and> ar_envelope a = dc_executed dc)"
proof -
  let ?R = "\<lambda>c' r. \<forall>a. r = Inr a \<longrightarrow> c' = c \<and> ar_envelope a = dc_executed dc"
  have rel: "safe held (release_claim m deps dc) c (\<lambda>_ _. True)"
  proof (cases "dc_acquired dc")
    case True
    then have c: "c = Some (e_intentHash (dc_executed dc))" using dc by (simp add: decided_def)
    have q: "safe held (effP (failureE m deps s h x)) c' (\<lambda>_ _. True)" for s h x c'
      by (rule safe_eff [OF framed_callD(4) [OF fr]]) simp
    show ?thesis
    proof (cases "release L")
      case None
      with True L q show ?thesis by (simp add: release_claim_def)
    next
      case (Some rl)
      have "safe held (tryP (effP (rl (e_intentHash (dc_executed dc))))
          (\<lambda>err. effP (failureE m deps ''ledger'' (e_intentHash (dc_executed dc)) (err_name err)))) c (\<lambda>_ _. True)"
        by (rule safe_try, rule safe_release [OF Some c]) (auto intro: q split: sum.split)
      with True L Some show ?thesis by (simp add: release_claim_def)
    qed
  qed (simp add: release_claim_def L retP_def)
  have body: "safe held (tryP (emitRecord m deps (main_audit_input deps dc dur plan))
      (\<lambda>emitErr. bindP (release_claim m deps dc) (\<lambda>_. throwP emitErr))) c ?R"
  proof (rule safe_try, rule safe_mono)
    show "safe held (emitRecord m deps (main_audit_input deps dc dur plan)) c
      (\<lambda>c' r. c' = c \<and> (\<forall>a. r = Inr a \<longrightarrow> ar_envelope a = dc_executed dc))"
      using kept_emitRecord [OF fr, of "main_audit_input deps dc dur plan" "dc_executed dc"]
      by (simp add: kept_def main_audit_input_def audit_input_def)
    show "case r of Inl err \<Rightarrow> safe held (bindP (release_claim m deps dc) (\<lambda>_. throwP err)) c' ?R | Inr x \<Rightarrow> ?R c' (Inr x)"
      if "c' = c \<and> (\<forall>a. r = Inr a \<longrightarrow> ar_envelope a = dc_executed dc)" for c' r
      using that by (cases r)
        (auto simp: throwP_def intro!: safe_bind safe_mono [OF rel] split: sum.split)
  qed
  have fin: "quiet held (if P then rollback m deps e else retP ())" for P
    using fr by (auto intro!: quiet_intros)
  show ?thesis unfolding auditPath_def
  proof (rule safe_finally, rule safe_mono [OF body])
    show "safe held (if decision_kind (dc_decision dc) \<noteq> EXECUTE \<and> \<not> (decision_kind (dc_decision dc) = REWRITE \<and> dc_executed dc \<noteq> e)
        then rollback m deps e else retP ()) c' (\<lambda>c'' u. case u of Inl x \<Rightarrow> ?R c'' (Inl x) | Inr _ \<Rightarrow> ?R c'' r)"
      if "?R c' r" for c' r
      by (rule safe_mono [OF fin [unfolded kept_def, rule_format]]) (use that in \<open>auto split: sum.split\<close>)
  qed
qed

end

context ledger
begin

lemma quiet_consult:
  assumes fr: "framed_call held m deps" and L: "dep_ledger deps = Some L"
  shows "quiet held (consult_ledger m deps e)"
  unfolding consult_ledger_def L option.case
  by (intro quiet_intros frame_check framed_callD [OF fr])

lemma safe_mainPath:
  assumes fr: "framed_call held m deps" and L: "dep_ledger deps = Some L"
  shows "safe held (mainPath m deps e st policy start) None settled"
proof -
  have finish: "safe held (bindP (effP (clock_nowMs deps)) (\<lambda>t.
     let durationMs = t - start in
     bindP (emitDecisionEvents m deps e (dc_decision dc) durationMs) (\<lambda>_.
     bindP (case dep_plan deps of None \<Rightarrow> retP None | Some p \<Rightarrow> effP p) (\<lambda>planSnapshot.
     bindP (emitOutcome m deps e (dc_decision dc) durationMs (dc_trace dc) planSnapshot) (\<lambda>_.
     bindP (auditPath m deps e dc durationMs planSnapshot) (\<lambda>record.
     retP \<lparr>rs_decision = dc_decision dc, rs_record = record, rs_ledgerHit = hit\<rparr>)))))) c settled"
    if dc: "decided c dc" for c dc hit
  proof -
    have plan: "quiet held (case dep_plan deps of None \<Rightarrow> retP None | Some p \<Rightarrow> effP p)"
      using fr by (auto simp: framed_call_def split: option.split intro!: quiet_intros)
    have audit: "safe held (bindP (auditPath m deps e dc dur p) (\<lambda>record.
        retP \<lparr>rs_decision = dc_decision dc, rs_record = record, rs_ledgerHit = hit\<rparr>)) c settled" for dur p
      by (rule safe_bind, rule safe_mono, rule safe_auditPath [OF fr L dc])
        (use dc in \<open>auto simp: retP_def settled_def decided_def split: sum.split\<close>)
    show ?thesis unfolding Let_def
      by (rule safe_kept_bind [OF quiet_eff [OF framed_callD(7) [OF fr]]], simp,
          rule safe_kept_bind [OF quiet_emitDecisionEvents [OF fr]], simp,
          rule safe_kept_bind [OF plan], simp, rule safe_kept_bind [OF quiet_emitOutcome [OF fr]], simp, rule audit)
  qed
  show ?thesis unfolding mainPath_def
  proof (rule safe_kept_bind [OF quiet_consult [OF fr L]], simp)
    fix hit
    show "safe held (bindP (case hit of
         Some hit \<Rightarrow> retP \<lparr>dc_decision = replaySuppressedRefusal (e_intentHash e) hit, dc_trace = [],
             dc_executed = e, dc_supersedes = None, dc_acquired = False\<rparr>
       | None \<Rightarrow> decide m deps e st policy) (\<lambda>dc. bindP (effP (clock_nowMs deps)) (\<lambda>t.
     let durationMs = t - start in
     bindP (emitDecisionEvents m deps e (dc_decision dc) durationMs) (\<lambda>_.
     bindP (case dep_plan deps of None \<Rightarrow> retP None | Some p \<Rightarrow> effP p) (\<lambda>planSnapshot.
     bindP (emitOutcome m deps e (dc_decision dc) durationMs (dc_trace dc) planSnapshot) (\<lambda>_.
     bindP (auditPath m deps e dc durationMs planSnapshot) (\<lambda>record.
     retP \<lparr>rs_decision = dc_decision dc, rs_record = record, rs_ledgerHit = hit\<rparr>))))))) None settled"
    proof (cases hit)
      case None
      show ?thesis unfolding None option.case
      proof (rule safe_bind, rule safe_mono, rule safe_decide [OF fr L])
        show "case r of Inl err \<Rightarrow> settled c (Inl err) | Inr dc \<Rightarrow> safe held (bindP (effP (clock_nowMs deps)) (\<lambda>t.
            let durationMs = t - start in
            bindP (emitDecisionEvents m deps e (dc_decision dc) durationMs) (\<lambda>_.
            bindP (case dep_plan deps of None \<Rightarrow> retP None | Some p \<Rightarrow> effP p) (\<lambda>planSnapshot.
            bindP (emitOutcome m deps e (dc_decision dc) durationMs (dc_trace dc) planSnapshot) (\<lambda>_.
            bindP (auditPath m deps e dc durationMs planSnapshot) (\<lambda>record.
            retP \<lparr>rs_decision = dc_decision dc, rs_record = record, rs_ledgerHit = None\<rparr>)))))) c settled"
          if "\<forall>dc. r = Inr dc \<longrightarrow> decided c dc" for c r
          using that finish by (cases r) simp_all
      qed
    next
      case (Some h)
      have "decided None \<lparr>dc_decision = replaySuppressedRefusal (e_intentHash e) h, dc_trace = [],
             dc_executed = e, dc_supersedes = None, dc_acquired = False\<rparr>"
        by (simp add: decided_def executing_def replaySuppressedRefusal_def)
      from finish [OF this] show ?thesis unfolding Some option.case by (simp add: retP_def)
    qed
  qed
qed

lemma safe_killPath:
  assumes fr: "framed_call held m deps"
  shows "safe held (killPath m deps e tenant start kill) None settled"
proof -
  have body: "quiet held (finallyP (emitRecord m deps input) (rollback m deps e))" for input
    using fr unfolding emitRecord_def by (intro quiet_intros)
  show ?thesis unfolding killPath_def Let_def
    by (rule safe_kept_bind [OF quiet_eff [OF framed_callD(7) [OF fr]]], simp,
        rule safe_kept_bind [OF quiet_emitDecisionEvents [OF fr]], simp,
        rule safe_kept_bind [OF quiet_emitOutcome [OF fr]], simp, rule safe_kept_bind [OF body], simp)
      (simp add: retP_def settled_def tenantKillRefusal_kind)
qed

lemma safe_call:
  assumes fr: "framed_call held m deps" and L: "dep_ledger deps = Some L"
  shows "safe held (adjudicateAndAudit m e st policy deps) None settled"
  unfolding adjudicateAndAudit_def
proof (rule safe_kept_bind [OF quiet_eff [OF framed_callD(7) [OF fr]]], simp)
  fix start
  show "safe held (case dep_context deps of None \<Rightarrow> mainPath m deps e st policy start
     | Some ctx \<Rightarrow> bindP (effP (readTenantKillState (ctx_killSwitch ctx))) (\<lambda>killState.
         case killState of Some kill \<Rightarrow> killPath m deps e (ctx_id ctx) start kill
         | None \<Rightarrow> mainPath m deps e st policy start)) None settled"
  proof (cases "dep_context deps")
    case None
    then show ?thesis using safe_mainPath [OF fr L] by simp
  next
    case (Some ctx)
    have "safe held (case k of Some kill \<Rightarrow> killPath m deps e (ctx_id ctx) start kill
        | None \<Rightarrow> mainPath m deps e st policy start) None settled" for k
      using safe_mainPath [OF fr L] safe_killPath [OF fr] by (cases k) simp_all
    with Some show ?thesis
      by (simp add: safe_kept_bind [OF quiet_eff [OF frame_readTenantKillState [OF fr Some]]])
  qed
qed

end

subsection \<open>All calls together\<close>

text \<open>
  The calls considered: any envelope, state, policy and dependencies, over one ledger, whose other
  callbacks do not touch its keys.
\<close>

definition ledger_calls ::
  "'w Ledger \<Rightarrow> ('w \<Rightarrow> string set) \<Rightarrow> 's itself \<Rightarrow> ('w, AdjudicateAndAuditResult) proc set" where
  "ledger_calls L held _ = {adjudicateAndAudit m e (st :: 's) policy deps | m e st policy deps.
     dep_ledger deps = Some L \<and> framed_call held m deps}"

lemma at_most_once:
  assumes "ledger L held" "reachable (ledger_calls L held TYPE('s)) env_step w0 (w, ts)"
    and "\<And>w w'. env_step w w' \<Longrightarrow> held w \<subseteq> held w'"
    and "ts i = Some (Done (Inr r1))" "ts j = Some (Done (Inr r2))"
    and "executing (rs_decision r1)" "executing (rs_decision r2)"
    and "e_intentHash (ar_envelope (rs_record r1)) = e_intentHash (ar_envelope (rs_record r2))"
  shows "i = j"
proof -
  have "safe held p None settled" if "p \<in> ledger_calls L held TYPE('s)" for p
    using that ledger.safe_call [OF assms(1)] by (auto simp: ledger_calls_def)
  from one_holder [OF assms(2) this assms(3-5), of "e_intentHash (ar_envelope (rs_record r1))"] assms(6-8)
  show ?thesis by (simp add: settled_def)
qed

text \<open>C2: the race fix works: however many calls run concurrently over one ledger, whatever they are
  given and however their steps interleave with each other and with an environment that never frees
  a key, at most one of them returns an executing outcome for any one executed hash.\<close>

theorem execution_at_most_once:
  assumes "ledger L held" "reachable (ledger_calls L held TYPE('s)) env_step w0 (w, ts)"
    and "\<And>w w'. env_step w w' \<Longrightarrow> held w \<subseteq> held w'"
    and "ts i = Some (Done (Inr r1))" "ts j = Some (Done (Inr r2))"
    and "executing (rs_decision r1)" "executing (rs_decision r2)"
    and "e_intentHash (ar_envelope (rs_record r1)) = e_intentHash (ar_envelope (rs_record r2))"
  shows "i = j"
  using assms by (rule at_most_once)

end
