(* ===== verification/Node.thy ===== *)
theory Node
  imports Concurrency
begin

text \<open>
  One process of the system made of the parts the repository ships: the in-memory ledger, the
  no-op audit sink (packages/core/src/sink.ts), the no-op telemetry and a clock. It interprets the
  ledger contract and shows that the statements on the shell apply to real runs.
\<close>

record node =
  n_store :: ledger_store
  n_kill :: KillSwitchModule
  n_time :: nat

definition node_nowIso :: "node \<Rightarrow> string" where
  "node_nowIso w = show_nat (n_time w)"

definition node_ledger :: "node Ledger" where
  "node_ledger = createMemoryLedger n_store (\<lambda>s w. w\<lparr>n_store := s\<rparr>) node_nowIso"

definition node_held :: "node \<Rightarrow> string set" where
  "node_held w = dom (n_store w)"

interpretation node: ledger node_ledger node_held
  by unfold_locales
    (auto simp: node_ledger_def node_held_def createMemoryLedger_def mem_checkLedger_def
      mem_recordExecution_def mem_release_def dom_def split: if_split_asm)

definition noopAuditSink :: "AuditRecord \<Rightarrow> ('w, unit) eff" where
  "noopAuditSink r = retE ()"

definition node_module :: "(string \<Rightarrow> string) \<Rightarrow> env \<Rightarrow> node Module" where
  "node_module sha env = \<lparr>m_sha = sha, m_env = env, m_getKill = n_kill,
     m_putKill = (\<lambda>k w. w\<lparr>n_kill := k\<rparr>), m_telemetry = noopTelemetry\<rparr>"

text \<open>The clock: the current tick in milliseconds, and its decimal rendering as the date.\<close>

definition node_deps :: "(node, 's) Deps" where
  "node_deps = \<lparr>sink_emit = noopAuditSink, metadataProvider = None, dep_signer = None,
     dep_ledger = Some node_ledger, clock_nowIso = (\<lambda>w. (Inr (node_nowIso w), w)),
     clock_nowMs = (\<lambda>w. (Inr (int (n_time w)), w\<lparr>n_time := Suc (n_time w)\<rparr>)),
     resolveResourceVersion = None, dep_plan = None, dep_context = None, dep_policyVersion = None,
     dep_kernelVersion = None, dep_aggregateSnapshot = None, rateLimitRollback = None,
     confirmationReceipt = None, budgetGrant = None, dep_supersedes = None\<rparr>"

definition node_start :: node where
  "node_start = \<lparr>n_store = Map.empty, n_kill = initialKillSwitch, n_time = 0\<rparr>"

lemma node_framed: "framed_call node_held (node_module sha env) node_deps"
  by (simp add: framed_call_def framed_telemetry_def node_module_def noopTelemetry_def node_deps_def
      noopAuditSink_def node_held_def frame_def retE_def)

subsection \<open>A sample call\<close>

abbreviation sample_module :: "node Module" where
  "sample_module \<equiv> node_module sample_sha Map.empty"

abbreviation sample_call :: "(node, unit) Deps \<Rightarrow> (node, AdjudicateAndAuditResult) proc" where
  "sample_call deps \<equiv> adjudicateAndAudit sample_module sample_envelope () sample_policy deps"

lemma adjudicateWithTraceE_run:
  "adjudicateWithTraceE m e st policy w =
     (Inr (kernel_decision (m_sha m) (m_env m) e st policy (m_getKill m w),
           snd (fst (adjudicateWithTrace (m_sha m) (m_env m) e st policy (m_getKill m w)))),
      m_putKill m (snd (adjudicate (m_sha m) (m_env m) e st policy (m_getKill m w))) w)"
  using adjudicateWithTraceE_decision [of m e st policy w] by (simp add: adjudicateE_Inr)

lemma node_deps_simps [simp]:
  "sink_emit node_deps = noopAuditSink" "metadataProvider node_deps = None" "dep_signer node_deps = None"
  "dep_ledger node_deps = Some node_ledger" "clock_nowIso node_deps = (\<lambda>w. (Inr (node_nowIso w), w))"
  "clock_nowMs node_deps = (\<lambda>w. (Inr (int (n_time w)), w\<lparr>n_time := Suc (n_time w)\<rparr>))"
  "resolveResourceVersion node_deps = None" "dep_plan node_deps = None" "dep_context node_deps = None"
  "dep_policyVersion node_deps = None" "dep_kernelVersion node_deps = None"
  "dep_aggregateSnapshot node_deps = None" "rateLimitRollback node_deps = None"
  "confirmationReceipt node_deps = None" "budgetGrant node_deps = None" "dep_supersedes node_deps = None"
  by (simp_all add: node_deps_def)

lemma sample_build:
  "\<exists>r. buildAuditRecord sample_sha [] (main_audit_input (node_deps :: (node, unit) Deps)
      \<lparr>dc_decision = Execute (bases_before ph_default), dc_trace = tr, dc_executed = sample_envelope,
       dc_supersedes = None, dc_acquired = True\<rparr> dur None t) = Inr r \<and> ar_envelope r = sample_envelope"
  by (simp add: buildAuditRecord_def main_audit_input_def audit_input_def Let_def hashed_js_def
      sha256Canonical_def canonicalJson_def envelope_js_def sample_envelope_def actor_js_def decision_js_def
      bases_js_def basis_js_def bases_before_def version_supported_def basis_def canonicalize_Obj by_key_def
      obj_put_def is_index_key_def is_digit_def JSON_stringify_def)

lemma sample_audit_path:
  "\<exists>r w'. run (auditPath sample_module (node_deps :: (node, unit) Deps) sample_envelope
      \<lparr>dc_decision = Execute (bases_before ph_default), dc_trace = tr, dc_executed = sample_envelope,
       dc_supersedes = None, dc_acquired = True\<rparr> dur None) w = (Inr r, w') \<and> ar_envelope r = sample_envelope"
  using sample_build [of tr dur "node_nowIso w"]
  by (auto simp: auditPath_def emitRecord_def bindE_def finallyE_def tryE_def applyMeta_def noopAuditSink_def
      node_module_def retE_def claims_ledger_def)

lemma sample_run:
  "\<exists>res w'. run (sample_call node_deps) node_start = (Inr res, w') \<and> rs_decision res = Execute (bases_before ph_default)
     \<and> ar_envelope (rs_record res) = sample_envelope"
proof -
  let ?tr = "snd (fst (adjudicateWithTrace sample_sha Map.empty sample_envelope () sample_policy initialKillSwitch))"
  obtain f g where audit: "run (auditPath sample_module (node_deps :: (node, unit) Deps) sample_envelope
      \<lparr>dc_decision = Execute (bases_before ph_default), dc_trace = ?tr, dc_executed = sample_envelope,
       dc_supersedes = None, dc_acquired = True\<rparr> dur None) w = (Inr (f dur w), g dur w)"
    "ar_envelope (f dur w) = sample_envelope" for dur w
    using sample_audit_path by metis
  show ?thesis
    by (simp add: adjudicateAndAudit_def mainPath_def consult_ledger_def decide_def node_start_def
       bindE_def node_ledger_def createMemoryLedger_def mem_checkLedger_def node_module_def telemetry_of_def
       noopTelemetry_def retE_def adjudicateWithTraceE_run sample_default confirm_def spend_budget_def
       execute_rewrite_def claim_def Let_def claims_ledger_def mem_recordExecution_def claim_entry_def
       emitDecisionEvents_def emitOutcome_def tryE_def audit [unfolded node_module_def noopTelemetry_def retE_def])
qed

subsection \<open>When a call throws\<close>

lemma bindE_Inl: "bindE m f w = (Inl e, w'') \<longleftrightarrow> m w = (Inl e, w'') \<or> (\<exists>x w'. m w = (Inr x, w') \<and> f x w' = (Inl e, w''))"
  by (auto simp: bindE_def split: prod.splits sum.splits)

text \<open>The node with any audit sink, and any telemetry, that leaves the ledger alone.\<close>

abbreviation deps_with :: "(AuditRecord \<Rightarrow> (node, unit) eff) \<Rightarrow> (node, 's) Deps" where
  "deps_with sink \<equiv> node_deps\<lparr>sink_emit := sink\<rparr>"

lemma node_claim:
  "\<exists>d acq w'. run (claim (node_module sha env) (deps_with sink) e st d0 x) w = (Inr (d, acq), w')
     \<and> (acq \<longrightarrow> d = d0 \<and> claims_ledger d x e \<and> e_intentHash x \<notin> node_held w
              \<and> node_held w' = insert (e_intentHash x) (node_held w))
     \<and> (\<not> acq \<longrightarrow> node_held w' = node_held w)"
  by (auto simp: claim_def node_ledger_def createMemoryLedger_def mem_recordExecution_def claim_entry_def
      bindE_def retE_def Let_def telemetry_of_def node_module_def noopTelemetry_def node_held_def
      split: option.split)

lemma adjudicateE_run:
  "adjudicateE m e st policy w = (Inr (kernel_decision (m_sha m) (m_env m) e st policy (m_getKill m w)),
     m_putKill m (snd (adjudicate (m_sha m) (m_env m) e st policy (m_getKill m w))) w)"
  by (simp add: adjudicateE_Inr)

lemma node_held_time: "node_held (w\<lparr>n_time := t\<rparr>) = node_held w"
  by (simp add: node_held_def)

lemma node_rewrite:
  "\<exists>d x s w'. run (execute_rewrite (node_module sha env) (deps_with sink) e st policy d0) w = (Inr (d, x, s), w')
     \<and> node_held w' = node_held w"
proof (cases d0)
  case (Rewrite x why b)
  let ?k = "kernel_decision sha env x st policy (n_kill w)"
  obtain w2 where "adjudicateE (node_module sha env) x st policy w = (Inr ?k, w2)" "node_held w2 = node_held w"
    by (simp add: adjudicateE_run) (simp add: node_module_def node_held_def)
  then show ?thesis
    by (cases ?k) (auto simp: Rewrite execute_rewrite_def bindE_def retE_def)
qed (auto simp: execute_rewrite_def)

lemma node_decide:
  "\<exists>dc w'. run (decide (node_module sha env) (deps_with sink) e st policy) w = (Inr dc, w')
     \<and> (dc_acquired dc \<longrightarrow> claims_ledger (dc_decision dc) (dc_executed dc) e
          \<and> e_intentHash (dc_executed dc) \<notin> node_held w
          \<and> node_held w' = insert (e_intentHash (dc_executed dc)) (node_held w))
     \<and> (\<not> dc_acquired dc \<longrightarrow> node_held w' = node_held w)"
proof -
  let ?m = "node_module sha env"
  obtain k tr w1 where k: "adjudicateWithTraceE ?m e st policy w = (Inr (k, tr), w1)" and w1: "node_held w1 = node_held w"
    by (simp add: adjudicateWithTraceE_run node_module_def node_held_def)
  obtain d x s w2 where x: "run (execute_rewrite ?m (deps_with sink) e st policy k) w1 = (Inr (d, x, s), w2)"
    and w2: "node_held w2 = node_held w1" using node_rewrite by metis
  have c: "confirm (deps_with sink) e k = (k, None)" "spend_budget (deps_with sink) e k = retP (k, None)"
    by (simp_all add: confirm_def spend_budget_def split: Decision.split)
  show ?thesis
    using node_claim [of sha env sink e st d x w2] k x w1 w2
    by (auto simp: decide_def bindE_def c retE_def)
qed

lemma frame_simple: "frame held (retE x)" "frame held (run (resultP r))"
  by (auto simp: frame_def retE_def resultP_def)

lemma node_emit:
  assumes "\<And>r. frame node_held (sink r)"
  shows "frame node_held (run (emitRecord (node_module sha env) (deps_with sink) input))"
proof -
  have clock: "frame node_held (clock_nowIso (deps_with sink))" by (simp add: frame_def)
  have meta: "frame node_held (applyMeta (node_module sha env) (deps_with sink) b)" for b
    by (simp add: applyMeta_def frame_simple)
  have emit: "frame node_held (sink_emit (deps_with sink) r)" for r using assms by simp
  show ?thesis unfolding emitRecord_def run_bindP run_effP run_retP
    by (intro frame_bind clock meta emit frame_simple)
qed

lemma node_held_release: "node_held (w\<lparr>n_store := (n_store w)(h := None)\<rparr>) = node_held w - {h}"
  by (auto simp: node_held_def)

lemma node_audit:
  assumes "\<And>r. frame node_held (sink r)"
    and "run (auditPath (node_module sha env) (deps_with sink :: (node, 's) Deps) e dc dur plan) w = (Inl x, w')"
  shows "node_held w' = (if dc_acquired dc then node_held w - {e_intentHash (dc_executed dc)} else node_held w)"
proof -
  let ?deps = "deps_with sink :: (node, 's) Deps"
  let ?emit = "emitRecord (node_module sha env) ?deps (main_audit_input ?deps dc dur plan)"
  obtain r w1 where emit: "run ?emit w = (r, w1)" by (cases "run ?emit w")
  have "frame node_held (run ?emit)" by (rule node_emit) (rule assms(1))
  then have "node_held (snd (run ?emit w)) = node_held w" unfolding frame_def by (rule spec)
  with emit have w1: "node_held w1 = node_held w" by simp
  obtain w4 where rel: "run (release_claim (node_module sha env) ?deps dc) w1 = (Inr (), w4)"
    and w4: "node_held w4 = (if dc_acquired dc then node_held w1 - {e_intentHash (dc_executed dc)} else node_held w1)"
    by (cases "dc_acquired dc") (simp_all add: release_claim_def node_ledger_def createMemoryLedger_def
        mem_release_def tryE_def retE_def node_held_release)
  have fin: "run (if P then rollback (node_module sha env) ?deps e else retP ()) = retE ()" for P
    by (simp add: rollback_def)
  have "finallyE (tryE (run ?emit) (\<lambda>err. run (bindP (release_claim (node_module sha env) ?deps dc) (\<lambda>_. throwP err)))) (retE ()) w
      = (Inl x, w')" using assms(2) unfolding auditPath_def run_finallyP run_tryP fin .
  then show ?thesis
    using rel w1 w4 by (cases r) (auto simp: emit finallyE_def tryE_def bindE_def throwE_def retE_def)
qed

lemma node_events:
  "run (emitDecisionEvents (node_module sha env) (deps_with sink) e d dur) = retE ()"
  "run (emitOutcome (node_module sha env) (deps_with sink) e d dur tr None) = retE ()"
  by (auto simp: emitDecisionEvents_def emitOutcome_def telemetry_of_def node_module_def noopTelemetry_def
      tryE_def bindE_def retE_def split: Decision.split)

definition after_decide ::
  "'w Module \<Rightarrow> ('w, 's) Deps \<Rightarrow> IntentEnvelope \<Rightarrow> int \<Rightarrow> LedgerHit option \<Rightarrow> Decided \<Rightarrow>
     ('w, AdjudicateAndAuditResult) proc" where
  "after_decide m deps envelope start ledgerHit dc =
     bindP (effP (clock_nowMs deps)) (\<lambda>t.
     let durationMs = t - start in
     bindP (emitDecisionEvents m deps envelope (dc_decision dc) durationMs) (\<lambda>_.
     bindP (case dep_plan deps of None \<Rightarrow> retP None | Some p \<Rightarrow> effP p) (\<lambda>planSnapshot.
     bindP (emitOutcome m deps envelope (dc_decision dc) durationMs (dc_trace dc) planSnapshot) (\<lambda>_.
     bindP (auditPath m deps envelope dc durationMs planSnapshot) (\<lambda>record.
     retP \<lparr>rs_decision = dc_decision dc, rs_record = record, rs_ledgerHit = ledgerHit\<rparr>)))))"

lemma node_after_decide:
  assumes "\<And>r. frame node_held (sink r)"
    and "run (after_decide (node_module sha env) (deps_with sink :: (node, 's) Deps) e start hit dc) w = (Inl x, w')"
  shows "node_held w' = (if dc_acquired dc then node_held w - {e_intentHash (dc_executed dc)} else node_held w)"
proof -
  let ?deps = "deps_with sink :: (node, 's) Deps"
  obtain dur where "run (auditPath (node_module sha env) ?deps e dc dur None) (w\<lparr>n_time := Suc (n_time w)\<rparr>) = (Inl x, w')"
    using assms(2) by (auto simp: after_decide_def bindE_Inl Let_def node_events)
  from node_audit [OF assms(1) this] show ?thesis by (simp add: node_held_time)
qed

text \<open>
  A call whose record cannot be emitted leaves no claim behind: whatever the audit sink does short of touching
  the ledger, a call of the node that throws leaves exactly the ledger keys it found.
\<close>

lemma failed_call_releases:
  fixes st :: 's
  assumes "\<And>r. frame node_held (sink r)"
    and "run (adjudicateAndAudit (node_module sha env) e st policy (deps_with sink)) w = (Inl x, w')"
  shows "node_held w' = node_held w"
proof -
  let ?m = "node_module sha env"
  let ?deps = "deps_with sink :: (node, 's) Deps"
  let ?w0 = "w\<lparr>n_time := Suc (n_time w)\<rparr>"
  have "\<exists>hit w1. run (consult_ledger ?m ?deps e) v = (Inr hit, w1) \<and> node_held w1 = node_held v" for v
    by (simp add: consult_ledger_def bindE_def node_ledger_def createMemoryLedger_def mem_checkLedger_def
        telemetry_of_def node_module_def noopTelemetry_def retE_def node_held_def)
  then obtain hit w1 where hit: "run (consult_ledger ?m ?deps e) ?w0 = (Inr hit, w1)"
    and w1: "node_held w1 = node_held w" by (metis node_held_time)
  have call: "run (bindP (case hit of
       Some hit \<Rightarrow> retP \<lparr>dc_decision = replaySuppressedRefusal (e_intentHash e) hit, dc_trace = [],
             dc_executed = e, dc_supersedes = None, dc_acquired = False\<rparr>
       | None \<Rightarrow> decide ?m ?deps e st policy) (after_decide ?m ?deps e (int (n_time w)) hit)) w1 = (Inl x, w')"
    using assms(2) hit by (simp add: adjudicateAndAudit_def mainPath_def after_decide_def bindE_def)
  show ?thesis
  proof (cases hit)
    case (Some h)
    then show ?thesis using node_after_decide [OF assms(1)] call w1 by fastforce
  next
    case None
    then obtain dc w2 where "run (decide ?m ?deps e st policy) w1 = (Inr dc, w2)"
      and after: "run (after_decide ?m ?deps e (int (n_time w)) hit dc) w2 = (Inl x, w')"
      using call node_decide [of sha env sink e st policy w1] by (auto simp: bindE_Inl)
    then show ?thesis
      using node_decide [of sha env sink e st policy w1] node_after_decide [OF assms(1) after] w1
      by (auto split: if_splits)
  qed
qed

subsection \<open>The statements on the shell, on sample calls\<close>

text \<open>The sample call with a sink that rejects every record, and with a metrics sink that throws.\<close>

definition sink_down :: thrown where "sink_down = ErrorObj ''AuditSinkError'' ''down''"

definition metrics_down :: thrown where "metrics_down = ErrorObj ''Error'' ''metrics''"

lemmas call_defs = adjudicateAndAudit_def mainPath_def consult_ledger_def decide_def node_start_def
  bindE_def node_ledger_def createMemoryLedger_def mem_checkLedger_def node_module_def telemetry_of_def
  noopTelemetry_def retE_def adjudicateWithTraceE_run sample_default confirm_def spend_budget_def
  execute_rewrite_def claim_def Let_def claims_ledger_def mem_recordExecution_def claim_entry_def
  emitDecisionEvents_def emitOutcome_def tryE_def

lemma sample_audit_fails:
  "\<exists>w'. run (auditPath sample_module (deps_with (\<lambda>_. throwE sink_down) :: (node, unit) Deps) sample_envelope
      \<lparr>dc_decision = Execute (bases_before ph_default), dc_trace = tr, dc_executed = sample_envelope,
       dc_supersedes = None, dc_acquired = True\<rparr> dur None) w = (Inl sink_down, w') \<and> n_kill w' = n_kill w"
proof -
  let ?dc = "\<lparr>dc_decision = Execute (bases_before ph_default), dc_trace = tr, dc_executed = sample_envelope,
       dc_supersedes = None, dc_acquired = True\<rparr>"
  have "main_audit_input (deps_with (\<lambda>_. throwE sink_down) :: (node, unit) Deps) ?dc = main_audit_input (node_deps :: (node, unit) Deps) ?dc"
    by (simp add: main_audit_input_def audit_input_def fun_eq_iff)
  then obtain r where "buildAuditRecord sample_sha [] (main_audit_input
      (deps_with (\<lambda>_. throwE sink_down) :: (node, unit) Deps) ?dc dur None (node_nowIso w)) = Inr r"
    using sample_build [of tr dur "node_nowIso w"] by auto
  then show ?thesis
    by (auto simp: auditPath_def emitRecord_def bindE_def finallyE_def tryE_def applyMeta_def throwE_def
      node_module_def retE_def claims_ledger_def release_claim_def node_ledger_def createMemoryLedger_def mem_release_def)
qed

lemma sample_run_fails:
  "\<exists>w'. run (sample_call (deps_with (\<lambda>_. throwE sink_down))) node_start = (Inl sink_down, w')
     \<and> n_kill w' = snd (adjudicate sample_sha Map.empty sample_envelope () sample_policy initialKillSwitch)"
proof -
  let ?tr = "snd (fst (adjudicateWithTrace sample_sha Map.empty sample_envelope () sample_policy initialKillSwitch))"
  obtain g where audit: "run (auditPath sample_module (deps_with (\<lambda>_. throwE sink_down) :: (node, unit) Deps) sample_envelope
      \<lparr>dc_decision = Execute (bases_before ph_default), dc_trace = ?tr, dc_executed = sample_envelope,
       dc_supersedes = None, dc_acquired = True\<rparr> dur None) w = (Inl sink_down, g dur w)"
    "n_kill (g dur w) = n_kill w" for dur w
    using sample_audit_fails by metis
  show ?thesis
    by (simp add: call_defs audit [unfolded node_module_def noopTelemetry_def retE_def])
qed

text \<open>The node whose metrics sink throws when a decision is recorded.\<close>

definition metrics_node :: "(string \<Rightarrow> string) \<Rightarrow> env \<Rightarrow> thrown \<Rightarrow> node Module" where
  "metrics_node sha env x = (node_module sha env)\<lparr>m_telemetry := noopTelemetry\<lparr>recordDecision := \<lambda>_. throwE x\<rparr>\<rparr>"

text \<open>C22: a metrics sink that throws orphans the claim. For every intent that the kernel executes and that is not in
  the ledger, when the metrics sink throws on the decision the call throws that error, whatever the audit
  sink would do (it is not reached: all sinks give the same outcome and world); the hash stays claimed although nothing was
  executed, and every later call of a healthy node with that envelope that returns is answered as a replay and
  does not execute.\<close>

theorem metrics_failure_orphans_claim:
  fixes st :: 's
  assumes "e_intentHash e \<notin> node_held w" "kernel_decision sha env e st policy (n_kill w) = Execute b"
  shows "\<exists>w'. (\<forall>sink. run (adjudicateAndAudit (metrics_node sha env x) e st policy (deps_with sink)) w = (Inl x, w'))
    \<and> node_held w' = insert (e_intentHash e) (node_held w)
    \<and> (\<forall>w1 st1 policy1 res w2. node_held w' \<subseteq> node_held w1 \<longrightarrow>
        run (adjudicateAndAudit (node_module sha env) e st1 policy1 (node_deps :: (node, 's) Deps)) w1 = (Inr res, w2)
        \<longrightarrow> rs_ledgerHit res \<noteq> None \<and> \<not> executing (rs_decision res))"
proof -
  have free: "n_store w (e_intentHash e) = None" using assms(1) by (auto simp: node_held_def)
  have keys: "{a. \<exists>y. (if a = h then Some z else f a) = Some y} = insert h {a. \<exists>y. f a = Some y}" for h z and f :: "string \<Rightarrow> 'z option"
    by auto
  obtain w' where w': "\<forall>sink. run (adjudicateAndAudit (metrics_node sha env x) e st policy (deps_with sink)) w = (Inl x, w')"
    "node_held w' = insert (e_intentHash e) (node_held w)"
    using free assms(2)
    by (simp add: metrics_node_def adjudicateAndAudit_def mainPath_def consult_ledger_def decide_def
       bindE_def node_ledger_def createMemoryLedger_def mem_checkLedger_def node_module_def telemetry_of_def
       noopTelemetry_def retE_def adjudicateWithTraceE_run confirm_def spend_budget_def
       execute_rewrite_def claim_def Let_def claims_ledger_def mem_recordExecution_def claim_entry_def
       emitDecisionEvents_def emitOutcome_def tryE_def throwE_def node_held_def dom_def keys)
  moreover have "rs_ledgerHit res \<noteq> None \<and> \<not> executing (rs_decision res)"
    if "node_held w' \<subseteq> node_held w1"
      "run (adjudicateAndAudit (node_module sha env) e st1 policy1 (node_deps :: (node, 's) Deps)) w1 = (Inr res, w2)" for w1 st1 policy1 res w2
  proof -
    from that(1) w'(2) obtain h where "n_store w1 (e_intentHash e) = Some h" by (auto simp: node_held_def)
    with that(2) show ?thesis
      by (auto simp: adjudicateAndAudit_def mainPath_def consult_ledger_def bindE_Inr run_Inr node_ledger_def createMemoryLedger_def
          mem_checkLedger_def replaySuppressedRefusal_def executing_def decisionRefuse_def bindE_def telemetry_of_def
          node_module_def noopTelemetry_def retE_def split: prod.splits sum.splits)
  qed
  ultimately show ?thesis by blast
qed

subsection \<open>Witnesses\<close>

theorem shell_audit_complete_witness:
  "\<exists>res w' x. run (sample_call node_deps) node_start = (Inr res, w')
     \<and> audited sample_sha (node_deps :: (node, unit) Deps) x (rs_decision res) (rs_record res)"
proof -
  obtain res w' where r: "run (sample_call node_deps) node_start = (Inr res, w')" using sample_run by blast
  from shell_audit_complete [OF r] show ?thesis using r by (auto simp: node_module_def)
qed

theorem shell_execution_authorised_witness:
  "\<exists>res :: AdjudicateAndAuditResult. authorised sample_module node_deps sample_envelope () sample_policy (rs_decision res) (ar_envelope (rs_record res))"
proof -
  obtain res w' where r: "run (sample_call node_deps) node_start = (Inr res, w')"
    "rs_decision res = Execute (bases_before ph_default)" using sample_run by blast
  have "executing (rs_decision res)" by (simp add: executing_def r(2))
  from shell_execution_authorised [OF r(1) this] show ?thesis by blast
qed

theorem shell_execution_claimed_witness:
  "\<exists>rv w1 w2. recordExecution node_ledger (claim_entry sample_envelope rv) w1 = (Inr acquired, w2)"
proof -
  obtain res w' where r: "run (sample_call node_deps) node_start = (Inr res, w')"
    "rs_decision res = Execute (bases_before ph_default)" "ar_envelope (rs_record res) = sample_envelope"
    using sample_run by blast
  have "executing (rs_decision res)" by (simp add: executing_def r(2))
  from shell_execution_claimed [OF r(1) this, of node_ledger] show ?thesis by (simp add: r(3))
qed

abbreviation killed_deps :: "(node, unit) Deps" where
  "killed_deps \<equiv> node_deps\<lparr>dep_context := Some \<lparr>ctx_id = ''t'', ctx_killSwitch = None,
     ctx_telemetry = noopTelemetry, ctx_kernelIdentity = None\<rparr>\<rparr>"

lemma killed_build:
  "\<exists>r. buildAuditRecord sample_sha [] (audit_input killed_deps sample_envelope
      (tenantKillRefusal ''t'' (fixed_kill ''kill_switch_control_absent'')) dur t) = Inr r"
  by (simp add: buildAuditRecord_def audit_input_def Let_def hashed_js_def tenantKillRefusal_def fixed_kill_def
      refuse_def refusal_js_def
      sha256Canonical_def canonicalJson_def envelope_js_def sample_envelope_def actor_js_def decision_js_def
      bases_js_def basis_js_def version_supported_def basis_def canonicalize_Obj by_key_def
      obj_put_def is_index_key_def is_digit_def JSON_stringify_def)

lemma killed_run:
  "\<exists>res w'. run (sample_call killed_deps) node_start = (Inr res, w')"
proof -
  obtain f where built: "buildAuditRecord sample_sha [] (audit_input killed_deps sample_envelope
      (tenantKillRefusal ''t'' (fixed_kill ''kill_switch_control_absent'')) dur t) = Inr (f dur t)" for dur t
    using killed_build by metis
  obtain rf b where K: "tenantKillRefusal ''t'' (fixed_kill ''kill_switch_control_absent'') = Refuse rf b"
    by (simp add: tenantKillRefusal_def decisionRefuse_def)
  show ?thesis
    by (simp add: adjudicateAndAudit_def readTenantKillState_def killPath_def bindE_def retE_def Let_def
        emitDecisionEvents_def emitOutcome_def telemetry_of_def K noopTelemetry_def tryE_def emitRecord_def
        finallyE_def rollback_def applyMeta_def built [unfolded K noopTelemetry_def retE_def] noopAuditSink_def node_module_def)
qed

theorem tenant_kill_fails_closed_witness:
  "\<exists>res w' r b. run (sample_call killed_deps) node_start = (Inr res, w')
     \<and> rs_decision res = Refuse r b \<and> r_code r = ''kill_switch_active''"
proof -
  obtain res w' where r: "run (sample_call killed_deps) node_start = (Inr res, w')" using killed_run by blast
  have "dep_context killed_deps = Some \<lparr>ctx_id = ''t'', ctx_killSwitch = None, ctx_telemetry = noopTelemetry,
      ctx_kernelIdentity = None\<rparr>" by simp
  from tenant_kill_fails_closed [OF this] r show ?thesis by fastforce
qed

theorem execution_at_most_once_witness:
  "\<exists>w ts (res :: AdjudicateAndAuditResult). reachable (ledger_calls node_ledger node_held TYPE(unit)) (\<lambda>_ _. False) node_start (w, ts)
     \<and> {j. \<exists>r. ts j = Some (Done (Inr r)) \<and> executing (rs_decision r)
            \<and> e_intentHash (ar_envelope (rs_record res)) = e_intentHash (ar_envelope (rs_record r))} = {0}"
proof -
  obtain res w' where r: "run (sample_call node_deps) node_start = (Inr res, w')"
    "rs_decision res = Execute (bases_before ph_default)" using sample_run by blast
  let ?ts = "[0 \<mapsto> Done (Inr res)] :: nat \<rightharpoonup> (node, AdjudicateAndAuditResult) proc"
  have ex: "executing (rs_decision res)" by (simp add: executing_def r(2))
  have "sample_call node_deps \<in> ledger_calls node_ledger node_held TYPE(unit)"
    unfolding ledger_calls_def using node_framed by force
  from start_reachable [OF this, of "\<lambda>_ _. False" node_start 0]
  have reach: "reachable (ledger_calls node_ledger node_held TYPE(unit)) (\<lambda>_ _. False) node_start
      (w', ?ts)" by (simp add: r(1))
  have once: "0 = j" if "?ts j = Some (Done (Inr r))" "executing (rs_decision r)"
      "e_intentHash (ar_envelope (rs_record res)) = e_intentHash (ar_envelope (rs_record r))" for j :: nat and r
    by (rule execution_at_most_once [OF node.ledger_axioms reach _ _ that(1) ex that(2,3)]) simp_all
  show ?thesis
  proof (intro exI conjI)
    show "reachable (ledger_calls node_ledger node_held TYPE(unit)) (\<lambda>_ _. False) node_start
      (w', ?ts)" by (rule reach)
    have "j = 0" if "\<exists>r. ?ts j = Some (Done (Inr r)) \<and> executing (rs_decision r)
        \<and> e_intentHash (ar_envelope (rs_record res)) = e_intentHash (ar_envelope (rs_record r))" for j
      using that once [of j] by blast
    moreover have "\<exists>r. ?ts 0 = Some (Done (Inr r)) \<and> executing (rs_decision r)
        \<and> e_intentHash (ar_envelope (rs_record res)) = e_intentHash (ar_envelope (rs_record r))"
      using ex by simp
    ultimately show "{j. \<exists>r. ?ts j = Some (Done (Inr r)) \<and> executing (rs_decision r)
        \<and> e_intentHash (ar_envelope (rs_record res)) = e_intentHash (ar_envelope (rs_record r))} = {0}"
      by (simp only: set_eq_iff mem_Collect_eq singleton_iff) metis
  qed
qed

theorem metrics_failure_orphans_claim_witness:
  "\<exists>w'. run (adjudicateAndAudit (metrics_node sample_sha Map.empty metrics_down) sample_envelope () sample_policy
        (deps_with (\<lambda>_. throwE sink_down))) node_start = (Inl metrics_down, w')
     \<and> node_held w' = {e_intentHash sample_envelope} \<and> metrics_down \<noteq> sink_down"
proof -
  have "e_intentHash sample_envelope \<notin> node_held node_start" "node_held node_start = {}"
    by (simp_all add: node_held_def node_start_def)
  moreover have "kernel_decision sample_sha Map.empty sample_envelope () sample_policy (n_kill node_start) = Execute (bases_before ph_default)"
    by (simp add: node_start_def sample_default)
  ultimately show ?thesis
    using metrics_failure_orphans_claim [of sample_envelope node_start sample_sha Map.empty "()" sample_policy "bases_before ph_default" metrics_down]
    by (auto simp: metrics_down_def sink_down_def)
qed

end
