(* ===== verification/JsNum.thy ===== *)
theory JsNum
  imports JsValue
begin

text \<open>
  Arithmetic and comparison of JavaScript numbers as far as the code uses them on values it did not
  make itself: \<open>NaN\<close> compares with nothing, the infinities bound everything. Sums are exact, which
  a double is as long as they stay within \<open>2 ^ 53\<close>.
\<close>

fun jle :: "jnum \<Rightarrow> jnum \<Rightarrow> bool" where
  "jle (JInt a) (JInt b) = (a \<le> b)"
| "jle JNaN _ = False"
| "jle _ JNaN = False"
| "jle JNegInf _ = True"
| "jle _ JInf = True"
| "jle _ _ = False"

definition jlt :: "jnum \<Rightarrow> jnum \<Rightarrow> bool" where
  "jlt a b = (jle a b \<and> a \<noteq> b)"

fun jadd :: "jnum \<Rightarrow> jnum \<Rightarrow> jnum" where
  "jadd (JInt a) (JInt b) = JInt (a + b)"
| "jadd JNaN _ = JNaN"
| "jadd _ JNaN = JNaN"
| "jadd JInf JNegInf = JNaN"
| "jadd JNegInf JInf = JNaN"
| "jadd JInf _ = JInf"
| "jadd _ JInf = JInf"
| "jadd JNegInf _ = JNegInf"
| "jadd _ JNegInf = JNegInf"

fun is_finite :: "jnum \<Rightarrow> bool" where
  "is_finite (JInt a) = True"
| "is_finite _ = False"

text \<open>\<open>String(n)\<close>\<close>

fun show_jnum :: "jnum \<Rightarrow> string" where
  "show_jnum (JInt a) = show_int a"
| "show_jnum JNaN = ''NaN''"
| "show_jnum JInf = ''Infinity''"
| "show_jnum JNegInf = ''-Infinity''"

lemma jlt_simps [simp]: "jlt (JInt a) (JInt b) = (a < b)" "\<not> jlt JNaN x" "\<not> jlt x JNaN" "\<not> jlt x x"
  by (auto simp: jlt_def) (cases x; simp)

lemma jle_cases: "jle a b \<longleftrightarrow> jlt a b \<or> (a = b \<and> a \<noteq> JNaN)"
  by (cases a; cases b) (auto simp: jlt_def)

lemma jle_linear: "a \<noteq> JNaN \<Longrightarrow> b \<noteq> JNaN \<Longrightarrow> jle a b \<or> jlt b a"
  by (cases a; cases b) (auto simp: jlt_def)

lemma jle_not_jlt: "jle a b \<Longrightarrow> \<not> jlt b a"
  by (cases a; cases b) (auto simp: jlt_def)

end
