(* ===== verification/RateLimit.thy ===== *)
theory RateLimit
  imports Telemetry JsNum
begin

text \<open>
  Rate limiting (packages/core/src/kernel/rate-limit.ts): the store contract and the fixed-window
  in-memory store, the check made before adjudication with its rollback, and the two guards that
  read the counts, the single-window one and the multi-horizon one.
\<close>

subsection \<open>The store and the check\<close>

record 'w RateLimitStore =
  incrementAndGet :: "string \<Rightarrow> int \<Rightarrow> ('w, int) eff"
  store_decrement :: "(string \<Rightarrow> ('w, int) eff) option"

record CheckRateLimitArgs =
  rl_key :: string
  rl_windowMs :: int
  rl_limit :: int

text \<open>The result; the flag is the local variable that its \<open>rollback\<close> closes over.\<close>

record RateLimitResult =
  rr_count :: int
  exceeded :: bool
  rr_max :: int
  rolledBack :: bool

definition checkRateLimit ::
  "'w RateLimitStore \<Rightarrow> CheckRateLimitArgs \<Rightarrow> ('w, RateLimitResult) eff" where
  "checkRateLimit st args =
     bindE (incrementAndGet st (rl_key args) (rl_windowMs args)) (\<lambda>count.
       retE \<lparr>rr_count = count, exceeded = (count > rl_limit args), rr_max = rl_limit args, rolledBack = False\<rparr>)"

definition rl_rollback ::
  "(SinkFailureEvent \<Rightarrow> ('w, unit) eff) \<Rightarrow> 'w RateLimitStore \<Rightarrow> CheckRateLimitArgs \<Rightarrow> RateLimitResult \<Rightarrow>
     ('w, RateLimitResult) eff" where
  "rl_rollback failure st args res =
     (if rolledBack res then retE res
      else
        let res' = res\<lparr>rolledBack := True\<rparr> in
        case store_decrement st of
          None \<Rightarrow> retE res'
        | Some dec \<Rightarrow> thenE
            (tryE (thenE (dec (rl_key args)) (retE ()))
               (\<lambda>err. failure (sinkFailure ''rate-limit'' (rl_key args) (err_name err))))
            (retE res'))"

subsection \<open>The in-memory store\<close>

record MemoryEntry =
  me_count :: int
  expiresAt :: int

type_synonym rate_map = "string \<rightharpoonup> MemoryEntry"

definition mem_incrementAndGet :: "int \<Rightarrow> string \<Rightarrow> int \<Rightarrow> rate_map \<Rightarrow> int \<times> rate_map" where
  "mem_incrementAndGet t key windowMs m =
     (case m key of
        None \<Rightarrow> (1, m(key \<mapsto> \<lparr>me_count = 1, expiresAt = t + windowMs\<rparr>))
      | Some en \<Rightarrow>
          if expiresAt en \<le> t then (1, m(key \<mapsto> \<lparr>me_count = 1, expiresAt = t + windowMs\<rparr>))
          else (me_count en + 1, m(key \<mapsto> en\<lparr>me_count := me_count en + 1\<rparr>)))"

definition mem_decrement :: "string \<Rightarrow> rate_map \<Rightarrow> int \<times> rate_map" where
  "mem_decrement key m =
     (case m key of
        None \<Rightarrow> (0, m)
      | Some en \<Rightarrow> (let c = max 0 (me_count en - 1) in (c, m(key \<mapsto> en\<lparr>me_count := c\<rparr>))))"

definition createInMemoryRateLimitStore ::
  "('w \<Rightarrow> int) \<Rightarrow> ('w \<Rightarrow> rate_map) \<Rightarrow> (rate_map \<Rightarrow> 'w \<Rightarrow> 'w) \<Rightarrow> 'w RateLimitStore" where
  "createInMemoryRateLimitStore clock getMap putMap =
     \<lparr>incrementAndGet = (\<lambda>key windowMs w.
        let (c, m) = mem_incrementAndGet (clock w) key windowMs (getMap w) in (Inr c, putMap m w)),
      store_decrement = Some (\<lambda>key w. let (c, m) = mem_decrement key (getMap w) in (Inr c, putMap m w))\<rparr>"

subsection \<open>The guards\<close>

definition defaultOnExceeded :: "jnum \<Rightarrow> jnum \<Rightarrow> Decision" where
  "defaultOnExceeded cnt limit = decisionRefuse
     (refuse BUSINESS_RULE ''rate_limit_exceeded'' ''Too many requests. Please try again later.''
        (Some (''count='' @ show_jnum cnt @ '' max='' @ show_jnum limit)))
     [basis cat_business ''rule_violated'' (Some (Obj
        [(''rule'', Str ''rate_limit_exceeded''), (''count'', Num cnt), (''max'', Num limit)]))]"

record 's RateLimitGuardOptions =
  resolveCount :: "IntentEnvelope \<Rightarrow> 's \<Rightarrow> jnum option result"
  rg_max :: jnum
  rg_onExceeded :: "(jnum \<Rightarrow> jnum \<Rightarrow> Decision result) option"

definition createRateLimitGuard :: "'s RateLimitGuardOptions \<Rightarrow> 's Guard" where
  "createRateLimitGuard options = anonymous_guard (\<lambda>envelope st.
     bindR (resolveCount options envelope st) (\<lambda>count.
     case count of
       None \<Rightarrow> Inr None
     | Some n \<Rightarrow>
         if jle n (rg_max options) then Inr None
         else mapR Some (case rg_onExceeded options of
             Some f \<Rightarrow> f n (rg_max options) | None \<Rightarrow> Inr (defaultOnExceeded n (rg_max options)))))"

record VelocityHorizon =
  windowKey :: string
  vh_max :: jnum

record VelocityBreach =
  vb_windowKey :: string
  committed :: jnum
  increment :: jnum
  vb_max :: jnum
  projected :: jnum

record 's CumulativeVelocityGuardOptions =
  resolveSnapshot :: "IntentEnvelope \<Rightarrow> 's \<Rightarrow> AggregateSnapshot option result"
  horizons :: "VelocityHorizon list"
  resolveIncrement :: "(IntentEnvelope \<Rightarrow> 's \<Rightarrow> jnum result) option"
  cv_onExceeded :: "(VelocityBreach \<Rightarrow> Decision result) option"

definition defaultVelocityExceeded :: "VelocityBreach \<Rightarrow> Decision" where
  "defaultVelocityExceeded breach = decisionRefuse
     (refuse BUSINESS_RULE ''cumulative_limit_exceeded''
        ''This action exceeds an account limit. Please try again later.''
        (Some (''window='' @ vb_windowKey breach @ '' projected='' @ show_jnum (projected breach)
           @ '' max='' @ show_jnum (vb_max breach))))
     [basis cat_business ''rule_violated'' (Some (Obj
        [(''rule'', Str ''cumulative_limit_exceeded''), (''windowKey'', Str (vb_windowKey breach)),
         (''committed'', Num (committed breach)), (''increment'', Num (increment breach)),
         (''projected'', Num (projected breach)), (''max'', Num (vb_max breach))]))]"

definition normalizeIncrement :: "jnum option \<Rightarrow> jnum" where
  "normalizeIncrement raw = (case raw of None \<Rightarrow> JInt 1
     | Some n \<Rightarrow> if \<not> is_finite n \<or> jlt n (JInt 0) then JInt 0 else n)"

fun velocity_loop ::
  "AggregateSnapshot \<Rightarrow> jnum \<Rightarrow> VelocityHorizon list \<Rightarrow> VelocityBreach option" where
  "velocity_loop snapshot inc [] = None"
| "velocity_loop snapshot inc (h # hs) =
     (let c = (case map_of (windows snapshot) (windowKey h) of Some n \<Rightarrow> n | None \<Rightarrow> JInt 0);
          p = jadd c inc
      in if jlt (vh_max h) p
         then Some \<lparr>vb_windowKey = windowKey h, committed = c, increment = inc, vb_max = vh_max h, projected = p\<rparr>
         else velocity_loop snapshot inc hs)"

definition createCumulativeVelocityGuard :: "'s CumulativeVelocityGuardOptions \<Rightarrow> 's Guard" where
  "createCumulativeVelocityGuard options = anonymous_guard (\<lambda>envelope st.
     bindR (resolveSnapshot options envelope st) (\<lambda>snapshot.
     case snapshot of
       None \<Rightarrow> Inr None
     | Some s \<Rightarrow>
         bindR (case resolveIncrement options of None \<Rightarrow> Inr None | Some f \<Rightarrow> mapR Some (f envelope st)) (\<lambda>raw.
         case velocity_loop s (normalizeIncrement raw) (horizons options) of
           None \<Rightarrow> Inr None
         | Some breach \<Rightarrow> mapR Some (case cv_onExceeded options of
               Some f \<Rightarrow> f breach | None \<Rightarrow> Inr (defaultVelocityExceeded breach)))))"

subsection \<open>One window of the in-memory store\<close>

text \<open>
  The operations a process performs on the store, with the clock reading of each increment. Within a
  window the store is a counter of the increments not taken back.
\<close>

datatype rate_op = Inc string int int | Dec string

fun rate_step :: "rate_op \<Rightarrow> rate_map \<Rightarrow> rate_map" where
  "rate_step (Inc key w t) m = snd (mem_incrementAndGet t key w m)"
| "rate_step (Dec key) m = snd (mem_decrement key m)"

definition rate_run :: "rate_op list \<Rightarrow> rate_map \<Rightarrow> rate_map" where
  "rate_run ops m = foldl (\<lambda>m op. rate_step op m) m ops"

fun rate_delta :: "string \<Rightarrow> rate_op \<Rightarrow> int" where
  "rate_delta key (Inc k w t) = (if k = key then 1 else 0)"
| "rate_delta key (Dec k) = (if k = key then - 1 else 0)"

definition outstanding :: "string \<Rightarrow> rate_op list \<Rightarrow> int" where
  "outstanding key ops = (\<Sum>op\<leftarrow>ops. rate_delta key op)"

definition window_fresh :: "string \<Rightarrow> int \<Rightarrow> rate_map \<Rightarrow> bool" where
  "window_fresh key t m = (case m key of None \<Rightarrow> True | Some en \<Rightarrow> expiresAt en \<le> t)"

text \<open>Every decrement of the key takes back an increment made before it.\<close>

fun balanced :: "string \<Rightarrow> int \<Rightarrow> rate_op list \<Rightarrow> bool" where
  "balanced key n [] = (n \<ge> 0)"
| "balanced key n (op # ops) = (n \<ge> 0 \<and> balanced key (n + rate_delta key op) ops)"

lemma outstanding_Cons [simp]: "outstanding key (op # ops) = rate_delta key op + outstanding key ops"
  "outstanding key [] = 0"
  by (simp_all add: outstanding_def)

lemma rate_step_window:
  assumes "m key = Some \<lparr>me_count = n, expiresAt = e\<rparr>" "n + rate_delta key op \<ge> 0"
    and "\<And>w t. op = Inc key w t \<Longrightarrow> t < e"
  shows "rate_step op m key = Some \<lparr>me_count = n + rate_delta key op, expiresAt = e\<rparr>"
  using assms by (cases op) (auto simp: mem_incrementAndGet_def mem_decrement_def Let_def split: option.split)

lemma rate_run_window:
  assumes "m key = Some \<lparr>me_count = n, expiresAt = e\<rparr>" "balanced key n ops"
    and "\<And>w t. Inc key w t \<in> set ops \<Longrightarrow> t < e"
  shows "rate_run ops m key = Some \<lparr>me_count = n + outstanding key ops, expiresAt = e\<rparr>"
  using assms
proof (induction ops arbitrary: m n)
  case (Cons op ops)
  have "n + rate_delta key op \<ge> 0" using Cons.prems(2) by (cases ops) auto
  then have "rate_step op m key = Some \<lparr>me_count = n + rate_delta key op, expiresAt = e\<rparr>"
    using Cons.prems(1,3) by (intro rate_step_window) auto
  from Cons.IH [where m = "rate_step op m" and n = "n + rate_delta key op", OF this] Cons.prems(2,3)
  show ?case by (auto simp: rate_run_def add.assoc)
qed (simp add: rate_run_def)

text \<open>C31: the in-memory rate limit counts exactly. After the request that opens a window, and whatever other
  requests and rollbacks follow on any keys, the next request of the key in the window is numbered
  one more than the requests of the window not rolled back, and is refused if and only if these
  already use up the limit.\<close>

theorem rate_window_exact:
  assumes "window_fresh key t0 m" "balanced key 1 ops" "\<And>w t. Inc key w t \<in> set ops \<Longrightarrow> t < t0 + w0" "t < t0 + w0"
    and "getMap w = rate_run (Inc key w0 t0 # ops) m" "clock w = t"
    and "checkRateLimit (createInMemoryRateLimitStore clock getMap putMap)
           \<lparr>rl_key = key, rl_windowMs = w0, rl_limit = limit\<rparr> w = (Inr res, w')"
  shows "rr_count res = 1 + outstanding key (Inc key w0 t0 # ops)
    \<and> exceeded res = (outstanding key (Inc key w0 t0 # ops) \<ge> limit)"
proof -
  have "rate_step (Inc key w0 t0) m key = Some \<lparr>me_count = 1, expiresAt = t0 + w0\<rparr>"
    using assms(1) by (auto simp: window_fresh_def mem_incrementAndGet_def split: option.splits)
  from rate_run_window [where m = "rate_step (Inc key w0 t0) m" and n = 1, OF this assms(2,3)]
  have "getMap w key = Some \<lparr>me_count = 1 + outstanding key ops, expiresAt = t0 + w0\<rparr>"
    by (simp add: assms(5) rate_run_def)
  with assms(4,6,7) show ?thesis
    by (auto simp: checkRateLimit_def createInMemoryRateLimitStore_def mem_incrementAndGet_def bindE_def retE_def)
qed

theorem rate_window_exact_witness:
  "let w = rate_run [Inc ''s'' 10 0, Inc ''s'' 10 3, Dec ''s'', Inc ''t'' 10 4, Inc ''s'' 10 5] Map.empty
   in \<exists>res w'. checkRateLimit (createInMemoryRateLimitStore (\<lambda>_. 9) id (\<lambda>m _. m))
        \<lparr>rl_key = ''s'', rl_windowMs = 10, rl_limit = 2\<rparr> w = (Inr res, w') \<and> rr_count res = 3 \<and> exceeded res"
proof -
  let ?ops = "[Inc ''s'' 10 3, Dec ''s'', Inc ''t'' 10 4, Inc ''s'' 10 5]"
  let ?w = "rate_run (Inc ''s'' 10 0 # ?ops) Map.empty"
  let ?check = "checkRateLimit (createInMemoryRateLimitStore (\<lambda>_. 9) id (\<lambda>m _. m))
        \<lparr>rl_key = ''s'', rl_windowMs = 10, rl_limit = 2\<rparr>"
  obtain c m' where "mem_incrementAndGet 9 ''s'' 10 ?w = (c, m')" by (cases "mem_incrementAndGet 9 ''s'' 10 ?w")
  then obtain res w' where run: "?check ?w = (Inr res, w')"
    by (simp add: checkRateLimit_def bindE_def retE_def createInMemoryRateLimitStore_def)
  have "rr_count res = 1 + outstanding ''s'' (Inc ''s'' 10 0 # ?ops)
    \<and> exceeded res = (outstanding ''s'' (Inc ''s'' 10 0 # ?ops) \<ge> 2)"
    by (rule rate_window_exact [OF _ _ _ _ _ _ run, where m = Map.empty and t = 9])
      (auto simp: window_fresh_def)
  then show ?thesis using run by auto
qed

lemma rollback_restores:
  assumes "getMap (putMap m w) = m" "\<And>m w. getMap (putMap m w) = m"
    and "checkRateLimit st args w = (Inr res, w1)" "st = createInMemoryRateLimitStore clock getMap putMap"
    and "getMap w (rl_key args) = Some \<lparr>me_count = n, expiresAt = e\<rparr>" "n \<ge> 0" "clock w < e"
    and "rl_rollback failure st args res w1 = (Inr res2, w2)"
  shows "getMap w2 (rl_key args) = getMap w (rl_key args) \<and> rl_rollback failure st args res2 w2 = (Inr res2, w2)"
  using assms by (auto simp: checkRateLimit_def rl_rollback_def createInMemoryRateLimitStore_def thenE_def tryE_def
      bindE_def retE_def mem_incrementAndGet_def mem_decrement_def Let_def split: prod.splits)

text \<open>
  The rollback does not know its window: after the window of a request has expired and another
  request has opened the next one, the rollback takes back the other request, and the next window
  admits one request more than the limit.
\<close>

lemma late_rollback_admits_another:
  assumes "window_fresh key t1 m" "t2 < t1 + w"
  shows "fst (mem_incrementAndGet t2 key w (rate_run [Inc key w t1, Dec key] m)) = 1"
  using assms by (auto simp: rate_run_def window_fresh_def mem_incrementAndGet_def mem_decrement_def Let_def
      split: option.splits)

subsection \<open>The velocity guard\<close>

definition over_horizon :: "AggregateSnapshot \<Rightarrow> jnum \<Rightarrow> VelocityHorizon \<Rightarrow> bool" where
  "over_horizon s inc h \<longleftrightarrow>
     jlt (vh_max h) (jadd (case map_of (windows s) (windowKey h) of Some n \<Rightarrow> n | None \<Rightarrow> JInt 0) inc)"

lemma velocity_loop_None: "velocity_loop s inc hs = None \<longleftrightarrow> (\<forall>h\<in>set hs. \<not> over_horizon s inc h)"
  by (induction hs) (auto simp: over_horizon_def Let_def)

lemma velocity_loop_Some:
  "velocity_loop s inc hs = Some b \<Longrightarrow> \<exists>pre h post. hs = pre @ h # post \<and> (\<forall>x\<in>set pre. \<not> over_horizon s inc x)
     \<and> over_horizon s inc h \<and> vb_windowKey b = windowKey h \<and> vb_max b = vh_max h"
proof (induction hs)
  case (Cons h hs)
  show ?case
  proof (cases "over_horizon s inc h")
    case True
    with Cons.prems show ?thesis by (intro exI [of _ "[]"]) (auto simp: over_horizon_def Let_def)
  next
    case False
    then have "velocity_loop s inc hs = Some b" using Cons.prems by (simp add: over_horizon_def Let_def)
    from Cons.IH [OF this] obtain pre g post where "hs = pre @ g # post" "\<forall>x\<in>set pre. \<not> over_horizon s inc x"
      "over_horizon s inc g" "vb_windowKey b = windowKey g" "vb_max b = vh_max g" by blast
    with False show ?thesis by (intro exI [of _ "h # pre"] exI [of _ g] exI [of _ post]) auto
  qed
qed simp

text \<open>The velocity guard is exact and only ever adds friction: with a snapshot and the default handler it
  abstains if and only if the projected value stays within the cap on every horizon, and otherwise
  refuses with \<open>cumulative_limit_exceeded\<close>.\<close>

lemma velocity_guard_exact:
  assumes "resolveSnapshot opts e st = Inr (Some s)" "cv_onExceeded opts = None"
    and "(case resolveIncrement opts of None \<Rightarrow> Inr None | Some f \<Rightarrow> mapR Some (f e st)) = Inr raw"
  shows "(if \<forall>h\<in>set (horizons opts). \<not> over_horizon s (normalizeIncrement raw) h
          then g_call (createCumulativeVelocityGuard opts) e st = Inr None
          else \<exists>r b. g_call (createCumulativeVelocityGuard opts) e st = Inr (Some (Refuse r b))
             \<and> r_code r = ''cumulative_limit_exceeded'')"
proof (cases "velocity_loop s (normalizeIncrement raw) (horizons opts)")
  case None
  then show ?thesis using assms velocity_loop_None [of s "normalizeIncrement raw" "horizons opts"]
    by (simp add: createCumulativeVelocityGuard_def)
next
  case (Some b)
  then show ?thesis using assms velocity_loop_None [of s "normalizeIncrement raw" "horizons opts"]
    by (auto simp: createCumulativeVelocityGuard_def defaultVelocityExceeded_def decisionRefuse_def)
qed

lemma velocity_guard_exact_witness:
  "\<exists>r b. g_call (createCumulativeVelocityGuard
      \<lparr>resolveSnapshot = (\<lambda>e st. Inr (Some \<lparr>windows = [(''d'', JInt 5)], ag_at = ''t''\<rparr>)),
       horizons = [\<lparr>windowKey = ''m'', vh_max = JInt 1\<rparr>, \<lparr>windowKey = ''d'', vh_max = JInt 5\<rparr>],
       resolveIncrement = None, cv_onExceeded = None\<rparr>) sample_envelope () = Inr (Some (Refuse r b))
     \<and> r_code r = ''cumulative_limit_exceeded''"
  using velocity_guard_exact [of "\<lparr>resolveSnapshot = (\<lambda>e st. Inr (Some \<lparr>windows = [(''d'', JInt 5)], ag_at = ''t''\<rparr>)),
       horizons = [\<lparr>windowKey = ''m'', vh_max = JInt 1\<rparr>, \<lparr>windowKey = ''d'', vh_max = JInt 5\<rparr>],
       resolveIncrement = None, cv_onExceeded = None\<rparr>" sample_envelope "()"
     "\<lparr>windows = [(''d'', JInt 5)], ag_at = ''t''\<rparr>" None]
  by (auto simp: over_horizon_def normalizeIncrement_def)

text \<open>A resolver that answers infinity is counted as no contribution at all.\<close>

lemma infinite_increment_ignored: "normalizeIncrement (Some JInf) = JInt 0"
  by (simp add: normalizeIncrement_def)

end
