(* ===== verification/Guards.thy ===== *)
theory Guards
  imports RateLimit
begin

text \<open>
  The guard factories of packages/primitives/src/guards.ts (thresholds, rewrite caps, confirmation,
  escalation, idempotency, tenant binding, authority, token budget, session consistency, side-effect
  floor), the floor of core/src/side-effects.ts and the taint policies of primitives/src/taint.ts.
  Callbacks of an adopter are functions that may throw. What a JavaScript engine answers for the
  source text of a function is a parameter.
\<close>

subsection \<open>Making a guard\<close>

text \<open>
  \<open>const guard = (envelope, state) => ...\<close>: an arrow function assigned to a variable is named after
  it. The factories attach a fresh description object to it, which never throws.
\<close>

definition const_guard :: "(IntentEnvelope \<Rightarrow> 's \<Rightarrow> Decision option result) \<Rightarrow> 's Guard" where
  "const_guard f = (anonymous_guard f)\<lparr>g_fnName := ''guard''\<rparr>"

definition described :: "'s Guard \<Rightarrow> GuardDescription \<Rightarrow> 's Guard" where
  "described guard d = snd (withMetadata guard [(''description'', MDesc 0 d)])"

lemma described_simps [simp]:
  "g_call (described guard d) = g_call guard" "g_call (const_guard f) = f" "g_fnName (described guard d) = g_fnName guard"
  "g_fnName (const_guard f) = ''guard''" "g_metadata (const_guard f) = None"
  by (simp_all add: described_def const_guard_def withMetadata_def anonymous_guard_def Let_def case_prod_unfold)

type_synonym 's predicate = "IntentEnvelope \<Rightarrow> 's \<Rightarrow> bool result"

definition whenR :: "bool result \<Rightarrow> 'a option result \<Rightarrow> 'a option result" where
  "whenR c r = bindR c (\<lambda>b. if b then r else Inr None)"

definition optional_match :: "'s predicate option \<Rightarrow> 's predicate" where
  "optional_match m e st = (case m of None \<Rightarrow> Inr True | Some f \<Rightarrow> f e st)"

lemma whenR_simps [simp]: "whenR (Inr True) r = r" "whenR (Inr False) r = Inr None" "whenR (Inl e) r = Inl e"
  by (simp_all add: whenR_def)

definition portuguese_refusal :: string where
  "portuguese_refusal = ''N'' @ [CHR 0xE3] @ ''o consigo concluir essa a'' @ [CHR 0xE7, CHR 0xE3] @ ''o.''"

subsection \<open>Thresholds\<close>

datatype ThresholdComparator = cmp_ge | cmp_le | cmp_gt | cmp_lt

fun comparator_name :: "ThresholdComparator \<Rightarrow> string" where
  "comparator_name cmp_ge = ''>=''"
| "comparator_name cmp_le = ''<=''"
| "comparator_name cmp_gt = ''>''"
| "comparator_name cmp_lt = ''<''"

fun COMPARATORS :: "ThresholdComparator \<Rightarrow> jnum \<Rightarrow> jnum \<Rightarrow> bool" where
  "COMPARATORS cmp_ge v t = jle t v"
| "COMPARATORS cmp_le v t = jle v t"
| "COMPARATORS cmp_gt v t = jlt t v"
| "COMPARATORS cmp_lt v t = jlt v t"

record 's ThresholdGuardOptions =
  th_matches :: "'s predicate"
  th_extract :: "IntentEnvelope \<Rightarrow> 's \<Rightarrow> jnum option result"
  th_threshold :: jnum
  th_comparator :: "ThresholdComparator option"
  th_onCross :: "jnum \<Rightarrow> jnum \<Rightarrow> IntentEnvelope \<Rightarrow> 's \<Rightarrow> Decision result"

definition comparator_or_default :: "ThresholdComparator option \<Rightarrow> ThresholdComparator" where
  "comparator_or_default c = (case c of Some c \<Rightarrow> c | None \<Rightarrow> cmp_ge)"

definition createThresholdGuard :: "'s ThresholdGuardOptions \<Rightarrow> 's Guard" where
  "createThresholdGuard options =
     (let comparator = comparator_or_default (th_comparator options) in
      described (const_guard (\<lambda>envelope st.
        whenR (th_matches options envelope st)
          (bindR (th_extract options envelope st) (\<lambda>value.
           case value of
             None \<Rightarrow> Inr None
           | Some v \<Rightarrow>
               if \<not> COMPARATORS comparator v (th_threshold options) then Inr None
               else mapR Some (th_onCross options v (th_threshold options) envelope st)))))
        (desc_threshold (th_threshold options) (comparator_name comparator) None))"

record 's StateDeferGuardOptions =
  sd_matches :: "'s predicate"
  sd_signal :: string
  sd_timeoutMs :: int
  sd_basis :: "IntentEnvelope \<Rightarrow> 's \<Rightarrow> DecisionBasis list result"

definition createStateDeferGuard :: "'s StateDeferGuardOptions \<Rightarrow> 's Guard" where
  "createStateDeferGuard options =
     described (const_guard (\<lambda>envelope st.
        whenR (sd_matches options envelope st)
          (mapR (\<lambda>b. Some (decisionDefer (sd_signal options) (sd_timeoutMs options) b)) (sd_basis options envelope st))))
       (desc_state_defer (sd_signal options) (sd_timeoutMs options))"

record 's ConfirmGuardOptions =
  cf_matches :: "'s predicate"
  cf_extract :: "IntentEnvelope \<Rightarrow> 's \<Rightarrow> jnum option result"
  cf_threshold :: jnum
  cf_comparator :: "ThresholdComparator option"
  cf_prompt :: "jnum \<Rightarrow> jnum \<Rightarrow> IntentEnvelope \<Rightarrow> 's \<Rightarrow> string result"
  cf_basis :: "(jnum \<Rightarrow> jnum \<Rightarrow> IntentEnvelope \<Rightarrow> DecisionBasis list result) option"

definition threshold_basis :: "string \<Rightarrow> jnum \<Rightarrow> jnum \<Rightarrow> DecisionBasis list" where
  "threshold_basis rule v t = [basis cat_business ''rule_satisfied'' (Some (Obj
     [(''rule'', Str rule), (''threshold'', Num t), (''value'', Num v)]))]"

definition createConfirmGuard :: "'s ConfirmGuardOptions \<Rightarrow> 's Guard" where
  "createConfirmGuard options = createThresholdGuard
     \<lparr>th_matches = cf_matches options, th_extract = cf_extract options, th_threshold = cf_threshold options,
      th_comparator = cf_comparator options,
      th_onCross = (\<lambda>v t envelope st.
        bindR (case cf_basis options of Some f \<Rightarrow> f v t envelope
               | None \<Rightarrow> Inr (threshold_basis ''confirm_threshold_reached'' v t)) (\<lambda>b.
        mapR (\<lambda>p. decisionRequestConfirmation p b) (cf_prompt options v t envelope st)))\<rparr>"

record 's EscalateGuardOptions =
  es_matches :: "'s predicate"
  es_extract :: "IntentEnvelope \<Rightarrow> 's \<Rightarrow> jnum option result"
  es_threshold :: jnum
  es_comparator :: "ThresholdComparator option"
  es_to :: EscalateTo
  es_reason :: "jnum \<Rightarrow> jnum \<Rightarrow> IntentEnvelope \<Rightarrow> 's \<Rightarrow> string result"
  es_basis :: "(jnum \<Rightarrow> jnum \<Rightarrow> IntentEnvelope \<Rightarrow> DecisionBasis list result) option"

definition createEscalateGuard :: "'s EscalateGuardOptions \<Rightarrow> 's Guard" where
  "createEscalateGuard options = createThresholdGuard
     \<lparr>th_matches = es_matches options, th_extract = es_extract options, th_threshold = es_threshold options,
      th_comparator = es_comparator options,
      th_onCross = (\<lambda>v t envelope st.
        bindR (case es_basis options of Some f \<Rightarrow> f v t envelope
               | None \<Rightarrow> Inr (threshold_basis ''escalation_threshold_reached'' v t)) (\<lambda>b.
        mapR (\<lambda>r. decisionEscalate (es_to options) r b) (es_reason options v t envelope st)))\<rparr>"

subsection \<open>Rewriting a payload\<close>

text \<open>
  \<open>{...payload, [field]: v}\<close>, and the envelope the rewriting factories build around the new payload:
  neither the origin nor the resource references of the original are passed on.
\<close>

definition with_field :: "js \<Rightarrow> string \<Rightarrow> js \<Rightarrow> js" where
  "with_field payload field v = Obj (own_put (foldl own_put [] (spread payload)) (field, v))"

definition rewritten_input :: "IntentEnvelope \<Rightarrow> js \<Rightarrow> BuildEnvelopeInput" where
  "rewritten_input envelope payload =
     \<lparr>i_kind = e_kind envelope, i_payload = payload, i_actor = e_actor envelope, i_taint = e_taint envelope,
      i_nonce = e_nonce envelope, i_createdAt = Some (e_createdAt envelope), i_origin = None, i_resourceRefs = None\<rparr>"

definition rebuilt :: "(string \<Rightarrow> string) \<Rightarrow> IntentEnvelope \<Rightarrow> js \<Rightarrow> IntentEnvelope result" where
  "rebuilt sha envelope payload = buildEnvelope sha [] (rewritten_input envelope payload)"

datatype 's Cap = FixedCap jnum | CapOf "'s \<Rightarrow> IntentEnvelope \<Rightarrow> jnum result" string

fun cap_value :: "'s Cap \<Rightarrow> 's \<Rightarrow> IntentEnvelope \<Rightarrow> jnum result" where
  "cap_value (FixedCap n) st envelope = Inr n"
| "cap_value (CapOf f src) st envelope = f st envelope"

record 's RewriteGuardOptions =
  rw_matches :: "'s predicate"
  rw_extract :: "IntentEnvelope \<Rightarrow> 's \<Rightarrow> jnum option result"
  rw_cap :: "'s Cap"
  mutateField :: string
  rw_reason :: string
  rw_basis :: "(jnum \<Rightarrow> jnum \<Rightarrow> IntentEnvelope \<Rightarrow> DecisionBasis list result) option"

definition rewrite_call ::
  "(string \<Rightarrow> string) \<Rightarrow> 's RewriteGuardOptions \<Rightarrow> IntentEnvelope \<Rightarrow> 's \<Rightarrow> Decision option result" where
  "rewrite_call sha options envelope st =
     whenR (rw_matches options envelope st)
       (bindR (rw_extract options envelope st) (\<lambda>requested.
        case requested of
          None \<Rightarrow> Inr None
        | Some req \<Rightarrow>
            bindR (cap_value (rw_cap options) st envelope) (\<lambda>capValue.
            if jle req capValue then Inr None
            else
              bindR (rebuilt sha envelope (with_field (e_payload envelope) (mutateField options) (Num capValue))) (\<lambda>rewritten.
              mapR (\<lambda>b. Some (decisionRewrite rewritten (rw_reason options) b))
                (case rw_basis options of Some f \<Rightarrow> f req capValue envelope
                 | None \<Rightarrow> Inr [basis cat_business ''quantity_capped'' (Some (Obj
                     [(''field'', Str (mutateField options)), (''requested'', Num req), (''cappedTo'', Num capValue)]))])))))"

text \<open>\<open>src\<close> is \<open>guard.toString()\<close>. The guard is fresh, so attaching the artifact does not throw.\<close>

definition createRewriteGuard :: "(string \<Rightarrow> string) \<Rightarrow> string \<Rightarrow> 's RewriteGuardOptions \<Rightarrow> 's Guard" where
  "createRewriteGuard sha src options =
     (let artifact = (case rw_cap options of
            FixedCap n \<Rightarrow> \<lparr>caps = Some [(mutateField options, n)], art_source = Some src\<rparr>
          | CapOf f text' \<Rightarrow> \<lparr>caps = None, art_source = Some (text' @ ''|'' @ src)\<rparr>);
          guard = const_guard (rewrite_call sha options)
      in described (case attachGuardCodeArtifact guard artifact of Inr g \<Rightarrow> g | Inl e \<Rightarrow> guard)
           (desc_rewrite [mutateField options]))"

subsection \<open>Idempotency, tenancy, authority\<close>

record 's IdempotencyGuardOptions =
  ig_matches :: "'s predicate"
  extractKey :: "IntentEnvelope \<Rightarrow> 's \<Rightarrow> string option result"
  hasBeenSeen :: "string \<Rightarrow> IntentEnvelope \<Rightarrow> 's \<Rightarrow> bool result"
  onReplay :: "string \<Rightarrow> IntentEnvelope \<Rightarrow> 's \<Rightarrow> Decision result"

definition createIdempotencyGuard :: "'s IdempotencyGuardOptions \<Rightarrow> 's Guard" where
  "createIdempotencyGuard options =
     described (const_guard (\<lambda>envelope st.
       whenR (ig_matches options envelope st)
         (bindR (extractKey options envelope st) (\<lambda>key.
          case key of
            None \<Rightarrow> Inr None
          | Some k \<Rightarrow>
              if k = [] then Inr None
              else whenR (hasBeenSeen options k envelope st) (mapR Some (onReplay options k envelope st))))))
       (desc_opaque (Some ''domain-level idempotency check''))"

definition requireTenantBinding :: "(IntentActor \<Rightarrow> 's \<Rightarrow> bool result) \<Rightarrow> 's Guard" where
  "requireTenantBinding isActorBoundToTenant = anonymous_guard (\<lambda>envelope st.
     mapR (\<lambda>b. if b then None
               else Some (decisionRefuse (refuse SECURITY_REFUSAL ''tenant_binding_violation'' portuguese_refusal
                     (Some ''actor is not bound to the tenant in state''))
                     [basis cat_auth ''scope_insufficient'' None]))
       (isActorBoundToTenant (e_actor envelope) st))"

definition ownershipBindingPredicate ::
  "(IntentActor \<Rightarrow> 's \<Rightarrow> OwnershipFact result) \<Rightarrow> IntentActor \<Rightarrow> 's \<Rightarrow> bool result" where
  "ownershipBindingPredicate resolveFact actor st = mapR of_bound (resolveFact actor st)"

record 's AuthorityGuardOptions =
  ag_matches :: "'s predicate option"
  authenticatedPrincipal :: "(IntentEnvelope \<Rightarrow> 's \<Rightarrow> string option result) option"
  ag_refusalUserFacing :: "string option"

definition null_or :: "string option \<Rightarrow> js" where
  "null_or x = (case x of None \<Rightarrow> Null | Some s \<Rightarrow> Str s)"

definition refuseUnbound :: "string option \<Rightarrow> string \<Rightarrow> OwnershipFact option \<Rightarrow> Decision" where
  "refuseUnbound userFacing detail fct = decisionRefuse
     (refuse SECURITY_REFUSAL ''tenant_binding_violation''
        (case userFacing of Some u \<Rightarrow> u | None \<Rightarrow> portuguese_refusal) (Some detail))
     [basis cat_auth ''scope_insufficient'' (Some (Obj
        [(''rule'', Str ''authority_guard''),
         (''principal'', null_or (case fct of None \<Rightarrow> None | Some f \<Rightarrow> of_principal f)),
         (''resource'', null_or (case fct of None \<Rightarrow> None | Some f \<Rightarrow> of_resource f)),
         (''bound'', Bool (case fct of None \<Rightarrow> False | Some f \<Rightarrow> of_bound f))]))]"

definition createAuthorityGuard ::
  "(IntentEnvelope \<Rightarrow> 's \<Rightarrow> OwnershipFact result) \<Rightarrow> 's AuthorityGuardOptions \<Rightarrow> 's Guard" where
  "createAuthorityGuard resolveOwner options =
     (let unbound = refuseUnbound (ag_refusalUserFacing options) in
      described (const_guard (\<lambda>envelope st.
        whenR (optional_match (ag_matches options) envelope st)
          (case resolveOwner envelope st of
             Inl _ \<Rightarrow> Inr (Some (unbound ''owner could not be resolved (resolver threw)'' None))
           | Inr fct \<Rightarrow>
               if \<not> of_bound fct then
                 Inr (Some (unbound ''declared owner is not bound to the resource (no authority-graph edge)'' (Some fct)))
               else case authenticatedPrincipal options of
                 None \<Rightarrow> Inr None
               | Some resolve \<Rightarrow>
                   (case resolve envelope st of
                      Inl _ \<Rightarrow> Inr (Some (unbound
                        ''authenticated principal could not be resolved (resolver threw)'' (Some fct)))
                    | Inr authed \<Rightarrow>
                        if authed = None \<or> authed \<noteq> of_principal fct then
                          Inr (Some (unbound
                            ''authenticated actor is not the declared resource owner (IDOR: forged owner ref)'' (Some fct)))
                        else Inr None))))
       (desc_opaque (Some ''constitutional authority guard'')))"

subsection \<open>Token budgets\<close>

datatype TokenBudgetAction = budget_REFUSE | budget_DEFER

record 's TokenBudgetGuardOptions =
  tb_matches :: "'s predicate option"
  extractSessionTokens :: "'s \<Rightarrow> IntentEnvelope \<Rightarrow> jnum result"
  extractTenantTokens :: "('s \<Rightarrow> IntentEnvelope \<Rightarrow> jnum result) option"
  sessionBudget :: "jnum option"
  tenantBudget :: "jnum option"
  tb_action :: "TokenBudgetAction option"
  deferSignal :: "string option"
  deferTimeoutMs :: "int option"
  tb_userFacing :: "string option"

definition budget_reached ::
  "jnum option \<Rightarrow> (jnum result) option \<Rightarrow> string \<Rightarrow> (string \<times> jnum \<times> jnum) option result" where
  "budget_reached limit consumed scope =
     (case (limit, consumed) of
        (Some b, Some c) \<Rightarrow> mapR (\<lambda>n. if n \<noteq> JNaN \<and> jle b n then Some (scope, n, b) else None) c
      | _ \<Rightarrow> Inr None)"

definition token_budget_decision ::
  "'s TokenBudgetGuardOptions \<Rightarrow> string \<times> jnum \<times> jnum \<Rightarrow> Decision" where
  "token_budget_decision options = (\<lambda>(scope, consumed, budget).
     let b = [basis cat_business ''rule_violated'' (Some (Obj
           [(''rule'', Str ''token_budget''), (''scope'', Str scope), (''consumed'', Num consumed),
            (''budget'', Num budget)]))]
     in case (tb_action options, deferTimeoutMs options) of
          (Some budget_DEFER, Some t) \<Rightarrow>
            decisionDefer (case deferSignal options of Some s \<Rightarrow> s | None \<Rightarrow> ''token_budget_reset'') t b
        | _ \<Rightarrow> decisionRefuse (refuse BUSINESS_RULE ''token_budget.exhausted''
              (case tb_userFacing options of Some u \<Rightarrow> u | None \<Rightarrow> ''Token budget exhausted for this session.'')
              (Some (scope @ '' budget '' @ show_jnum budget @ '' reached (consumed '' @ show_jnum consumed @ '')''))) b)"

definition createTokenBudgetGuard :: "'s TokenBudgetGuardOptions \<Rightarrow> 's Guard result" where
  "createTokenBudgetGuard options =
     (if sessionBudget options = None \<and> tenantBudget options = None then
        Inl (ErrorObj ''Error''
          ''createTokenBudgetGuard: at least one of sessionBudget / tenantBudget is required.'')
      else if tb_action options = Some budget_DEFER \<and> deferTimeoutMs options = None then
        Inl (ErrorObj ''Error'' ''createTokenBudgetGuard: deferTimeoutMs is required when action is DEFER.'')
      else if tenantBudget options \<noteq> None \<and> extractTenantTokens options = None then
        Inl (ErrorObj ''Error''
          ''createTokenBudgetGuard: extractTenantTokens is required when tenantBudget is set.'')
      else Inr (described (const_guard (\<lambda>envelope st.
        whenR (optional_match (tb_matches options) envelope st)
          (bindR (budget_reached (sessionBudget options) (Some (extractSessionTokens options st envelope)) ''session'') (\<lambda>s.
           bindR (case s of
               Some x \<Rightarrow> Inr (Some x)
             | None \<Rightarrow> budget_reached (tenantBudget options)
                 (map_option (\<lambda>f. f st envelope) (extractTenantTokens options)) ''tenant'') (\<lambda>r.
           Inr (map_option (token_budget_decision options) r))))))
        (desc_opaque (Some ''token budget guard (session/tenant)''))))"

subsection \<open>Session consistency\<close>

record SessionContradiction =
  sc_hard :: bool
  sc_reason :: string
  sc_detail :: "(string \<times> js) list"

record 's SessionConsistencyGuardOptions =
  contradicts :: "IntentEnvelope \<Rightarrow> 's \<Rightarrow> SessionContradiction option result"
  sc_refusalKind :: "RefusalKind option"
  sc_refusalCode :: "string option"
  sc_userFacing :: "SessionContradiction \<Rightarrow> IntentEnvelope \<Rightarrow> string option result"
  sc_escalateTo :: "EscalateTo option"

definition default_to :: "'a \<Rightarrow> 'a option \<Rightarrow> 'a" where
  "default_to d x = (case x of Some v \<Rightarrow> v | None \<Rightarrow> d)"

definition createSessionConsistencyGuard :: "'s SessionConsistencyGuardOptions \<Rightarrow> 's Guard" where
  "createSessionConsistencyGuard options =
     described (const_guard (\<lambda>envelope st.
       bindR (contradicts options envelope st) (\<lambda>verdict.
       case verdict of
         None \<Rightarrow> Inr None
       | Some v \<Rightarrow>
           let detail = Obj (foldl own_put (foldl own_put [] (sc_detail v))
                 [(''rule'', Str ''session_contradiction''),
                  (''severity'', Str (if sc_hard v then ''hard'' else ''suspicious'')), (''reason'', Str (sc_reason v))]);
               b = [basis cat_state ''transition_illegal'' (Some detail)]
           in if sc_hard v then
                mapR (\<lambda>u. Some (decisionRefuse
                    (refuse (default_to STATE (sc_refusalKind options))
                       (default_to ''session.contradiction'' (sc_refusalCode options))
                       (default_to ''That request conflicts with what we have on record for this session.'' u)
                       (Some (sc_reason v))) b))
                  (sc_userFacing options v envelope)
              else Inr (Some (decisionEscalate (default_to supervisor (sc_escalateTo options)) (sc_reason v) b)))))
       (desc_opaque (Some ''session-consistency guard (adopter predicate)''))"

subsection \<open>The side-effect floor\<close>

datatype SideEffectClass = se_none | se_read | se_write | se_destructive

fun side_effect_name :: "SideEffectClass \<Rightarrow> string" where
  "side_effect_name se_none = ''none''"
| "side_effect_name se_read = ''read''"
| "side_effect_name se_write = ''write''"
| "side_effect_name se_destructive = ''destructive''"

fun DEFAULT_SIDE_EFFECT_FLOOR :: "SideEffectClass \<Rightarrow> Taint" where
  "DEFAULT_SIDE_EFFECT_FLOOR se_none = UNTRUSTED"
| "DEFAULT_SIDE_EFFECT_FLOOR se_read = UNTRUSTED"
| "DEFAULT_SIDE_EFFECT_FLOOR se_write = TRUSTED"
| "DEFAULT_SIDE_EFFECT_FLOOR se_destructive = SYSTEM"

record 's SideEffectTaintFloorOptions =
  sideEffects :: "string \<rightharpoonup> SideEffectClass"
  defaultClass :: "SideEffectClass option"
  se_floor :: "(SideEffectClass \<Rightarrow> Taint) option"
  escalateBelowFloor :: bool
  se_matches :: "'s predicate option"
  se_userFacing :: "string option"

definition floor_of :: "'s SideEffectTaintFloorOptions \<Rightarrow> string \<Rightarrow> Taint" where
  "floor_of options kind = default_to DEFAULT_SIDE_EFFECT_FLOOR (se_floor options)
     (default_to (default_to se_destructive (defaultClass options)) (sideEffects options kind))"

definition createSideEffectTaintFloor :: "'s SideEffectTaintFloorOptions \<Rightarrow> 's Guard" where
  "createSideEffectTaintFloor options =
     described (const_guard (\<lambda>envelope st.
       whenR (optional_match (se_matches options) envelope st)
         (let cls = side_effect_name
                (default_to (default_to se_destructive (defaultClass options)) (sideEffects options (e_kind envelope)));
              required = floor_of options (e_kind envelope);
              actual = e_taint envelope;
              b = [basis cat_taint ''level_insufficient'' (Some (Obj
                     [(''rule'', Str ''side_effect_taint_floor''), (''sideEffectClass'', Str cls),
                      (''requiredTaint'', Str (taint_name required)), (''actualTaint'', Str (taint_name actual))]))]
          in if taintRank actual \<ge> taintRank required then Inr None
             else if escalateBelowFloor options then
               Inr (Some (decisionEscalate supervisor
                 (cls @ '' side effect requires '' @ taint_name required @ ''; envelope is '' @ taint_name actual) b))
             else Inr (Some (decisionRefuse
               (refuse SECURITY_REFUSAL ''side_effect.taint_floor''
                 (default_to ''That action requires a higher trust level than this request carries.'' (se_userFacing options))
                 (Some (cls @ '' requires '' @ taint_name required @ ''; got '' @ taint_name actual))) b)))))
       (desc_opaque (Some ''side-effect taint floor''))"

subsection \<open>Taint policies (primitives/src/taint.ts)\<close>

record SystemTaintPolicyOptions =
  systemOnlyKinds :: "string list"
  userMinimum :: "Taint option"
  systemMinimum :: "Taint option"
  originRequiredKinds :: "string list option"

definition createSystemTaintPolicy :: "SystemTaintPolicyOptions \<Rightarrow> TaintPolicy" where
  "createSystemTaintPolicy options =
     (let originRequired = default_to [] (originRequiredKinds options) in
      \<lparr>minimumFor = (\<lambda>kind. Inr (if kind \<in> set (systemOnlyKinds options)
          then default_to TRUSTED (systemMinimum options) else default_to UNTRUSTED (userMinimum options))),
       requiresUncontaminatedOrigin =
         (if originRequired = [] then None else Some (\<lambda>kind. Inr (kind \<in> set originRequired)))\<rparr>)"

record SessionContaminationPolicy = cp_enabled :: bool

definition createSessionContaminationPolicy :: "bool option \<Rightarrow> SessionContaminationPolicy" where
  "createSessionContaminationPolicy enabled = \<lparr>cp_enabled = default_to False enabled\<rparr>"

end
