(* ===== verification/GuardProps.thy ===== *)
theory GuardProps
  imports Guards
begin

text \<open>
  What the guard factories guarantee: the authority guard fails closed, the rewriting factories
  produce envelopes the kernel's rewrite gate accepts, the floor is exact; and what they lose: the
  origin and the resource references of a rewritten envelope, and the anonymity of their guards.
\<close>

subsection \<open>Rewritten envelopes\<close>

lemma rebuilt_Inr:
  assumes "rebuilt sha e p = Inr x"
  shows "deriveIntentHash sha x = Inr (e_intentHash x)" "e_payload x = p" "e_kind x = e_kind e" "e_taint x = e_taint e"
    "e_actor x = e_actor e" "e_nonce x = e_nonce e" "e_createdAt x = e_createdAt e" "e_origin x = DEFAULT_ORIGIN"
    "e_resourceRefs x = None" "e_version x = INTENT_ENVELOPE_VERSION"
  using assms buildEnvelope_Inr [of sha "[]" "rewritten_input e p" x]
  by (auto simp: rebuilt_def buildEnvelope_def rewritten_input_def Let_def mapR_Inr)

lemma rewrite_guard_call [simp]: "g_call (createRewriteGuard sha src options) e st = rewrite_call sha options e st"
  by (simp add: createRewriteGuard_def Let_def attachGuardCodeArtifact_def const_guard_def anonymous_guard_def
      split: Cap.split)

lemma rewrite_call_Inr:
  assumes "rewrite_call sha options e st = Inr (Some d)"
  obtains req cap x b where "rw_extract options e st = Inr (Some req)" "cap_value (rw_cap options) st e = Inr cap"
    "\<not> jle req cap" "rebuilt sha e (with_field (e_payload e) (mutateField options) (Num cap)) = Inr x"
    "d = Rewrite x (rw_reason options) b"
  using assms by (auto simp: rewrite_call_def whenR_def bindR_Inr mapR_Inr decisionRewrite_def
      split: option.splits if_splits)

lemma map_of_own_put: "map_of (own_put es (k, v)) = (map_of es)(k \<mapsto> v)"
  using map_of_eq_None_iff [of es k]
  by (auto simp: map_of_insert_index map_of_replace_key map_add_def fun_eq_iff split: option.splits)

lemma map_of_foldl_own_put: "map_of (foldl own_put acc es) k = (map_of acc ++ map_of (rev es)) k"
proof (induction es arbitrary: acc)
  case (Cons e es)
  then show ?case
    by (cases e) (simp add: map_of_own_put map_add_def del: own_put.simps split: option.splits)
qed simp

lemma map_of_rev_distinct: "distinct (map fst es) \<Longrightarrow> map_of (rev es) k = map_of es k"
  using map_of_inject_set [of "rev es" es] by (simp add: rev_map [symmetric])

text \<open>A rewriting guard does what it is for, and no more than the kernel allows: the rewritten envelope
  carries the cap in the named field and every other field of the payload as it was, has the kind,
  actor, taint and nonce of the original and a correct hash, so that the rewrite gate of the kernel
  lets it through unchanged.\<close>

lemma rewrite_guard_caps:
  assumes "g_call (createRewriteGuard sha src options) e st = Inr (Some d)"
    and "e_payload e = Obj es" "distinct (map fst es)"
  shows "\<exists>x b cap es'. d = Rewrite x (rw_reason options) b \<and> cap_value (rw_cap options) st e = Inr cap
    \<and> e_payload x = Obj es' \<and> map_of es' = (map_of es)(mutateField options \<mapsto> Num cap)
    \<and> e_kind x = e_kind e \<and> e_actor x = e_actor e \<and> e_taint x = e_taint e \<and> e_nonce x = e_nonce e
    \<and> gateRewrite sha d e = d"
proof -
  from assms(1) obtain req cap x b where r: "cap_value (rw_cap options) st e = Inr cap"
    "rebuilt sha e (with_field (e_payload e) (mutateField options) (Num cap)) = Inr x" "d = Rewrite x (rw_reason options) b"
    unfolding rewrite_guard_call by (rule rewrite_call_Inr)
  note x = rebuilt_Inr [OF r(2)]
  have "map_of (own_put (foldl own_put [] es) (mutateField options, Num cap))
      = (map_of (rev es))(mutateField options \<mapsto> Num cap)"
    by (rule ext) (simp add: map_of_own_put map_of_foldl_own_put del: own_put.simps)
  also have "map_of (rev es) = map_of es" using map_of_rev_distinct [OF assms(3)] by (rule ext)
  finally show ?thesis
    using r x by (auto simp: with_field_def assms(2) gateRewrite_def)
qed

subsection \<open>The origin is lost\<close>

text \<open>
  A guard that caps the amount of a payment at 3, and a policy that demands an uncontaminated origin
  for the kind at hand.
\<close>

definition cap_amount :: "(string \<Rightarrow> string) \<Rightarrow> unit Guard" where
  "cap_amount sha = createRewriteGuard sha []
     \<lparr>rw_matches = (\<lambda>e st. Inr True),
      rw_extract = (\<lambda>e st. Inr (case js_prop (e_payload e) ''amount'' of Num n \<Rightarrow> Some n | _ \<Rightarrow> None)),
      rw_cap = FixedCap (JInt 3), mutateField = ''amount'', rw_reason = ''capped'', rw_basis = None\<rparr>"

definition origin_policy :: "string \<Rightarrow> unit Guard list \<Rightarrow> unit PolicyBundle" where
  "origin_policy kind gs = \<lparr>stateGuards = gs, authGuards = [],
     taint_policy = createSystemTaintPolicy
       \<lparr>systemOnlyKinds = [], userMinimum = None, systemMinimum = None, originRequiredKinds = Some [kind]\<rparr>,
     business = [], policy_default = default_EXECUTE\<rparr>"

lemma origin_policy_sel [simp]:
  "stateGuards (origin_policy k gs) = gs" "authGuards (origin_policy k gs) = []" "business (origin_policy k gs) = []"
  "policy_default (origin_policy k gs) = default_EXECUTE"
  "canPropose t k (taint_policy (origin_policy k gs)) = Inr True"
  "canProposeWithOrigin t k orig (taint_policy (origin_policy k gs)) = Inr (\<not> isContaminatingOrigin orig)"
  by (cases t; simp add: origin_policy_def createSystemTaintPolicy_def canPropose_def canProposeWithOrigin_def
      Let_def default_to_def)+

lemma cap_amount_call:
  "g_call (cap_amount sha) e st = (case js_prop (e_payload e) ''amount'' of
     Num n \<Rightarrow> if jle n (JInt 3) then Inr None
       else mapR (\<lambda>x. Some (Rewrite x ''capped'' [basis cat_business ''quantity_capped'' (Some (Obj
          [(''field'', Str ''amount''), (''requested'', Num n), (''cappedTo'', num 3)]))]))
          (rebuilt sha e (with_field (e_payload e) ''amount'' (num 3)))
   | _ \<Rightarrow> Inr None)"
  by (auto simp: cap_amount_def rewrite_call_def decisionRewrite_def split: js.split)
    (cases "rebuilt sha e (with_field (e_payload e) ''amount'' (num 3))"; simp)

text \<open>C32: a rewriting guard launders the origin. The policy demands an uncontaminated origin, and the kernel
  refuses the contaminated proposal; with the cap as a state guard, which runs before the taint gate,
  the kernel answers REWRITE with an envelope whose origin is reset to the default, and on that
  envelope, which is the one the shell re-adjudicates and executes, it answers EXECUTE.\<close>

theorem rewrite_guard_launders_origin:
  assumes "\<not> killed env ks" "e_version e = INTENT_ENVELOPE_VERSION" "deriveIntentHash sha e = Inr (e_intentHash e)"
    and "isContaminatingOrigin (e_origin e)" "e_payload e = Obj [(''amount'', num 5)]"
    and "rebuilt sha e (Obj [(''amount'', num 3)]) = Inr x"
  shows "(\<exists>r b. kernel_decision sha env e () (origin_policy (e_kind e) []) ks = Refuse r b
            \<and> r_code r = ''taint_level_insufficient'')
    \<and> (\<exists>why b. kernel_decision sha env e () (origin_policy (e_kind e) [cap_amount sha]) ks = Rewrite x why b)
    \<and> (\<exists>b. kernel_decision sha env x () (origin_policy (e_kind e) [cap_amount sha]) ks = Execute b)"
proof -
  note x = rebuilt_Inr [OF assms(6)]
  have clean: "\<not> isContaminatingOrigin DEFAULT_ORIGIN"
    by (simp add: isContaminatingOrigin_def CONTAMINATING_ORIGINS_def DEFAULT_ORIGIN_def)
  have field: "with_field (e_payload e) ''amount'' (num 3) = Obj [(''amount'', num 3)]"
    by (simp add: assms(5) with_field_def is_index_key_def is_digit_def)
  have entry: "run_checks (entry_checks sha (fst (getKillSwitchState env ks)) e) [] = None"
    "run_checks (entry_checks sha (fst (getKillSwitchState env ks)) x) [] = None"
    using assms(1-3) x(1,10) by (simp_all add: entry_None)
  let ?k = "e_kind e"
  have refused: "ck_fire (taint_check (taint_policy (origin_policy ?k gs)) e) = Some (taintRefusal True e)" for gs
    by (simp add: taint_check_def assms(4))
  have admitted: "ck_fire (taint_check (taint_policy (origin_policy ?k gs)) x) = None" for gs
    by (simp add: taint_check_def x(3) x(8) clean)
  have one: "run_checks (guard_checks sha e st ph_state pass_state 0 gs) acc
      = (case gs of [] \<Rightarrow> None | g # _ \<Rightarrow> map_option (\<lambda>f. f acc) (guard_fire sha e st ph_state 0 g))"
    if "gs = [] \<or> (\<exists>g. gs = [g])" for e st gs acc
    using that by (auto simp: guard_checks_def split: option.split)
  have fires: "guard_fire sha e () ph_state 0 (cap_amount sha)
      = Some (enrichBasis (Rewrite x ''capped'' [basis cat_business ''quantity_capped'' (Some (Obj
          [(''field'', Str ''amount''), (''requested'', num 5), (''cappedTo'', num 3)]))]))"
    using x(1,4) by (simp add: guard_fire_def cap_amount_call field [unfolded assms(5)] assms(5,6) obj_get_def gateRewrite_def)
  have abstains: "guard_fire sha x () ph_state 0 (cap_amount sha) = None"
    by (simp add: guard_fire_def cap_amount_call x(2) obj_get_def)
  show ?thesis
    using adjudicate_unfold [of sha env e "()" "origin_policy ?k []" ks]
      adjudicate_unfold [of sha env e "()" "origin_policy ?k [cap_amount sha]" ks]
      adjudicate_unfold [of sha env x "()" "origin_policy ?k [cap_amount sha]" ks]
    by (simp add: entry one refused admitted fires abstains taintRefusal_def Let_def decisionRefuse_def phaseDefault_def
        decisionExecute_def guards_pass del: makePassBasis.simps)
qed

subsection \<open>Authority, floors, names\<close>

text \<open>C33: the authority guard fails closed on what it covers. Where its \<open>matches\<close> holds it never throws, and it
  abstains if and only if the owner was resolved and is bound to the resource by the graph and, when an authenticated principal
  is configured, that was resolved too and is the owner; in every other case, a throwing resolver included, it refuses with
  \<open>tenant_binding_violation\<close>. Where \<open>matches\<close> does not hold it abstains, and a throw of \<open>matches\<close> is the only one that leaves it.\<close>

theorem authority_guard_fails_closed:
  "case optional_match (ag_matches options) e st of
     Inl err \<Rightarrow> g_call (createAuthorityGuard resolveOwner options) e st = Inl err
   | Inr covered \<Rightarrow>
       if \<not> covered \<or> (\<exists>f. resolveOwner e st = Inr f \<and> of_bound f
            \<and> (case authenticatedPrincipal options of None \<Rightarrow> True
               | Some auth \<Rightarrow> \<exists>p. auth e st = Inr (Some p) \<and> of_principal f = Some p))
       then g_call (createAuthorityGuard resolveOwner options) e st = Inr None
       else \<exists>r b. g_call (createAuthorityGuard resolveOwner options) e st = Inr (Some (Refuse r b))
            \<and> r_kind r = SECURITY_REFUSAL \<and> r_code r = ''tenant_binding_violation''"
proof -
  have "whenR (Inr c) (Inr None) = Inr None" for c by (cases c) simp_all
  then show ?thesis
    by (auto simp: createAuthorityGuard_def Let_def refuseUnbound_def decisionRefuse_def split: sum.split option.split)
qed

theorem authority_guard_fails_closed_witness:
  "\<exists>r b. g_call (createAuthorityGuard (\<lambda>e st. Inr (resolveOwnership st e \<lparr>principalKey = None, resourceKey = None\<rparr>))
      \<lparr>ag_matches = None, authenticatedPrincipal = None, ag_refusalUserFacing = None\<rparr>) sample_envelope
      (createAuthorityGraphStore \<lparr>edges = []\<rparr>) = Inr (Some (Refuse r b))"
proof -
  let ?o = "\<lparr>ag_matches = None, authenticatedPrincipal = None, ag_refusalUserFacing = None\<rparr> :: AuthorityGraphStore AuthorityGuardOptions"
  have "optional_match (ag_matches ?o) sample_envelope (createAuthorityGraphStore \<lparr>edges = []\<rparr>) = Inr True"
    by (simp add: optional_match_def)
  then show ?thesis
    using authority_guard_fails_closed [where options = ?o and e = sample_envelope and st = "createAuthorityGraphStore \<lparr>edges = []\<rparr>"
      and resolveOwner = "\<lambda>e st. Inr (resolveOwnership st e \<lparr>principalKey = None, resourceKey = None\<rparr>)"]
    by (auto simp: resolveOwnership_def Let_def createAuthorityGraphStore_def refs_get_def sample_envelope_def)
qed

text \<open>The side-effect floor is exact: on a kind it covers the guard abstains if and only if the taint of the
  envelope reaches the floor of the kind's class, a kind that declares no class counting as
  destructive; below the floor it refuses or escalates.\<close>

lemma side_effect_floor_exact:
  assumes "optional_match (se_matches options) e st = Inr True"
  shows "if floor_of options (e_kind e) \<le> e_taint e
         then g_call (createSideEffectTaintFloor options) e st = Inr None
         else \<exists>d. g_call (createSideEffectTaintFloor options) e st = Inr (Some d)
            \<and> decision_kind d = (if escalateBelowFloor options then ESCALATE else REFUSE)"
  using assms by (simp add: createSideEffectTaintFloor_def Let_def less_eq_Taint_def decision_constructors)

lemma side_effect_floor_exact_witness:
  "g_call (createSideEffectTaintFloor \<lparr>sideEffects = Map.empty, defaultClass = None, se_floor = None,
      escalateBelowFloor = False, se_matches = None, se_userFacing = None\<rparr>) sample_envelope () \<noteq> Inr None"
proof -
  let ?o = "\<lparr>sideEffects = Map.empty, defaultClass = None, se_floor = None,
      escalateBelowFloor = False, se_matches = None, se_userFacing = None\<rparr> :: unit SideEffectTaintFloorOptions"
  have "\<not> floor_of ?o (e_kind sample_envelope) \<le> e_taint sample_envelope"
    by (simp add: floor_of_def default_to_def less_eq_Taint_def)
  moreover have "optional_match (se_matches ?o) sample_envelope () = Inr True" by (simp add: optional_match_def)
  ultimately show ?thesis using side_effect_floor_exact [of ?o sample_envelope "()"] by auto
qed

text \<open>
  Guards made by the factories are not anonymous: the variable they are assigned to names them, so
  every one of them appears in traces and learning events as \<open>guard\<close>.
\<close>

lemma described_name: "resolved_name (described (const_guard f) d) = Some ''guard''"
  by (simp add: resolved_name_def metadata_name_def readGuardMetadata_def described_def withMetadata_def Let_def
      const_guard_def anonymous_guard_def)

lemma factory_guard_name: "t_guardName (traceEntry p i (createThresholdGuard opts) res) = Some ''guard''"
  by (simp add: traceEntry_def createThresholdGuard_def Let_def described_name)

subsection \<open>Witnesses\<close>

abbreviation retrieved :: IntentEnvelope where
  "retrieved \<equiv> sample_envelope\<lparr>e_origin := Retrieved\<rparr>"

lemma retrieved_hash: "deriveIntentHash sample_sha retrieved = Inr ''h''"
  by (simp add: deriveIntentHash_def intentHashInput_def sha256Canonical_def canonicalJson_def sample_sha_def
        sample_envelope_def actor_js_def canonicalize_Obj by_key_def obj_put_def is_index_key_def is_digit_def
        JSON_stringify_def)

lemma retrieved_rebuilt: "\<exists>x. rebuilt sample_sha retrieved (Obj [(''amount'', num 3)]) = Inr x"
  "\<exists>x. rebuilt sample_sha sample_envelope (Obj [(''amount'', num 3)]) = Inr x"
  by (simp_all add: rebuilt_def buildEnvelope_def rewritten_input_def Let_def intentHashInput_def sha256Canonical_def
        canonicalJson_def sample_sha_def sample_envelope_def actor_js_def canonicalize_Obj by_key_def obj_put_def
        is_index_key_def is_digit_def JSON_stringify_def DEFAULT_ORIGIN_def)

lemma rewrite_guard_caps_witness:
  "\<exists>x b es'. g_call (cap_amount sample_sha) sample_envelope () = Inr (Some (Rewrite x ''capped'' b))
     \<and> e_payload x = Obj es' \<and> map_of es' ''amount'' = Some (num 3)"
proof -
  have payload: "e_payload sample_envelope = Obj [(''amount'', num 5)]" by (simp add: sample_envelope_def)
  obtain x where "rebuilt sample_sha sample_envelope (Obj [(''amount'', num 3)]) = Inr x" using retrieved_rebuilt(2) by blast
  then obtain d where d: "g_call (cap_amount sample_sha) sample_envelope () = Inr (Some d)"
    by (simp add: cap_amount_call payload obj_get_def with_field_def is_index_key_def is_digit_def)
  from rewrite_guard_caps [OF d [unfolded cap_amount_def] payload] d show ?thesis by fastforce
qed

theorem rewrite_guard_launders_origin_witness:
  "\<exists>x b. kernel_decision sample_sha Map.empty x () (origin_policy ''pay'' [cap_amount sample_sha]) initialKillSwitch = Execute b"
proof -
  obtain x where x: "rebuilt sample_sha retrieved (Obj [(''amount'', num 3)]) = Inr x" using retrieved_rebuilt(1) by blast
  have "isContaminatingOrigin (e_origin retrieved)" by (simp add: isContaminatingOrigin_def CONTAMINATING_ORIGINS_def)
  from rewrite_guard_launders_origin [OF sample_not_killed _ _ this _ x] retrieved_hash show ?thesis
    by (auto simp: sample_envelope_def INTENT_ENVELOPE_VERSION_def)
qed

end
