(* ===== verification/DataGuards.thy ===== *)
theory DataGuards
  imports GuardProps AuditRecords
begin

text \<open>
  Content-inspecting guards of packages/primitives/src/guards.ts (data classification, its shadow
  provider, command risk) and the classifier of command-classify.ts. A regular expression of an
  adopter enters as what the code asks of it: whether it matches and how it replaces; so do the
  built-in command rules.
\<close>

subsection \<open>Paths into a payload\<close>

fun is_object :: "js \<Rightarrow> bool" where
  "is_object (Obj es) = True"
| "is_object (Arr vs) = True"
| "is_object _ = False"

text \<open>\<open>cursor[segment]\<close> for own properties, and the assignment to one, which here always exists.\<close>

fun child :: "js \<Rightarrow> string \<Rightarrow> js" where
  "child (Obj es) k = (case map_of es k of Some v \<Rightarrow> v | None \<Rightarrow> Undef)"
| "child (Arr vs) k = (if is_index_key k \<and> digits_val k < length vs then vs ! digits_val k else Undef)"
| "child _ k = Undef"

fun set_child :: "js \<Rightarrow> string \<Rightarrow> js \<Rightarrow> js" where
  "set_child (Obj es) k v = Obj (obj_put k v es)"
| "set_child (Arr vs) k v = Arr (if is_index_key k \<and> digits_val k < length vs then vs[digits_val k := v] else vs)"
| "set_child x k v = x"

fun get_segments :: "js \<Rightarrow> string list \<Rightarrow> js" where
  "get_segments cursor [] = cursor"
| "get_segments cursor (s # ss) = (if is_object cursor then get_segments (child cursor s) ss else Undef)"

fun set_segments :: "js \<Rightarrow> string list \<Rightarrow> js \<Rightarrow> js" where
  "set_segments cursor [] v = cursor"
| "set_segments cursor [s] v = set_child cursor s v"
| "set_segments cursor (s # t # ss) v =
     (if is_object (child cursor s) then set_child cursor s (set_segments (child cursor s) (t # ss) v) else cursor)"

definition getPath :: "js \<Rightarrow> string \<Rightarrow> js" where
  "getPath root path = get_segments root (split_on (CHR ''.'') path)"

definition setPath :: "js \<Rightarrow> string \<Rightarrow> js \<Rightarrow> js" where
  "setPath root path v = set_segments root (split_on (CHR ''.'') path) v"

subsection \<open>Data classification\<close>

datatype SensitivityLevel = sens_low | sens_medium | sens_high | sens_critical

fun sensitivity_name :: "SensitivityLevel \<Rightarrow> string" where
  "sensitivity_name sens_low = ''low''"
| "sensitivity_name sens_medium = ''medium''"
| "sensitivity_name sens_high = ''high''"
| "sensitivity_name sens_critical = ''critical''"

text \<open>\<open>safe_pattern\<close> is what \<open>assertSafePattern\<close> finds in the source of the pattern.\<close>

record DataClassificationPattern =
  dp_id :: string
  testPattern :: "string \<Rightarrow> bool"
  redactWith :: "string \<Rightarrow> string"
  safe_pattern :: bool

record 's DataClassificationGuardOptions =
  dc_matches :: "'s predicate"
  dc_patterns :: "DataClassificationPattern list"
  scannedFields :: "string list"
  dc_rewrites :: bool
  sensitivityLevel :: SensitivityLevel
  maxInputLength :: "nat option"
  dc_reason :: "string option"
  dc_userFacing :: "string option"

text \<open>The string a field holds, unless it is too long to be scanned.\<close>

definition scanned_value :: "nat option \<Rightarrow> js \<Rightarrow> string \<Rightarrow> string option" where
  "scanned_value limit payload field = (case getPath payload field of
       Str s \<Rightarrow> (case limit of Some n \<Rightarrow> if length s > n then None else Some s | None \<Rightarrow> Some s)
     | _ \<Rightarrow> None)"

text \<open>The inner loop: matched, the ids seen so far, and the text redacted by every pattern that matched.\<close>

fun pattern_loop ::
  "DataClassificationPattern list \<Rightarrow> string \<Rightarrow> bool \<times> string list \<times> string \<Rightarrow> bool \<times> string list \<times> string" where
  "pattern_loop [] s acc = acc"
| "pattern_loop (p # ps) s (matched, ids, redacted) =
     (if testPattern p s
      then pattern_loop ps s (True, if dp_id p \<in> set ids then ids else ids @ [dp_id p], redactWith p redacted)
      else pattern_loop ps s (matched, ids, redacted))"

fun field_loop ::
  "DataClassificationPattern list \<Rightarrow> nat option \<Rightarrow> bool \<Rightarrow> js \<Rightarrow> string list \<Rightarrow>
     string list \<times> string list \<times> js \<Rightarrow> string list \<times> string list \<times> js" where
  "field_loop ps limit rewrites payload [] acc = acc"
| "field_loop ps limit rewrites payload (f # fs) (ids, hit, clone) =
     (case scanned_value limit payload f of
        None \<Rightarrow> field_loop ps limit rewrites payload fs (ids, hit, clone)
      | Some s \<Rightarrow> (case pattern_loop ps s (False, ids, s) of (matched, ids', redacted) \<Rightarrow>
          if matched then field_loop ps limit rewrites payload fs
            (ids', hit @ [f], if rewrites then setPath clone f (Str redacted) else clone)
          else field_loop ps limit rewrites payload fs (ids', hit, clone)))"

definition strs :: "string list \<Rightarrow> js" where
  "strs xs = Arr (map Str xs)"

definition classification_call ::
  "(string \<Rightarrow> string) \<Rightarrow> 's DataClassificationGuardOptions \<Rightarrow> IntentEnvelope \<Rightarrow> 's \<Rightarrow> Decision option result" where
  "classification_call sha options envelope st =
     whenR (dc_matches options envelope st)
       (let payload = e_payload envelope in
        if \<not> is_object payload then Inr None
        else case field_loop (dc_patterns options) (maxInputLength options) (dc_rewrites options) payload
               (scannedFields options) ([], [], payload) of
          (detected, hit, clone) \<Rightarrow>
            if detected = [] then Inr None
            else if \<not> dc_rewrites options then
              Inr (Some (decisionRefuse
                (refuse SECURITY_REFUSAL ''pii_blocked''
                   (case dc_userFacing options of Some u \<Rightarrow> u
                    | None \<Rightarrow> ''I can'' @ [CHR 0x27] @ ''t process that data.'')
                   (Some (''detected '' @ join '', '' detected @ '' in '' @ join '', '' hit)))
                [basis cat_validation ''pii_blocked'' (Some (Obj
                   [(''sensitivityLevel'', Str (sensitivity_name (sensitivityLevel options))),
                    (''detectedPatterns'', strs detected), (''fields'', strs hit)]))]))
            else mapR (\<lambda>rewritten. Some (decisionRewrite rewritten
                (default_to ''Redacted classified data from payload.'' (dc_reason options))
                [basis cat_validation ''pii_redacted'' (Some (Obj
                   [(''sensitivityLevel'', Str (sensitivity_name (sensitivityLevel options))),
                    (''detectedPatterns'', strs detected), (''redactedFields'', strs hit)]))]))
              (rebuilt sha envelope clone))"

definition assertSafePatterns :: "DataClassificationPattern list \<Rightarrow> unit result" where
  "assertSafePatterns ps = (case find (\<lambda>p. \<not> safe_pattern p) ps of
       None \<Rightarrow> Inr ()
     | Some p \<Rightarrow> Inl (ErrorObj ''Error'' (''assertSafePattern: pattern ('' @ dp_id p @ '') has a nested unbounded quantifier'')))"

definition createDataClassificationGuard ::
  "(string \<Rightarrow> string) \<Rightarrow> 's DataClassificationGuardOptions \<Rightarrow> 's Guard result" where
  "createDataClassificationGuard sha options =
     (if scannedFields options = [] then
        Inl (ErrorObj ''Error'' (''createDataClassificationGuard: scannedFields must be non-empty ''
          @ ''(declares the permitted scan/redact scope).''))
      else mapR (\<lambda>_. described (const_guard (classification_call sha options))
          (desc_data_classification (sensitivity_name (sensitivityLevel options))
             (if dc_rewrites options then REWRITE else REFUSE) (scannedFields options)))
        (assertSafePatterns (dc_patterns options)))"

text \<open>The shadow provider annotates the audit record and never decides.\<close>

record ShadowOptions =
  sh_patterns :: "DataClassificationPattern list"
  sh_scannedFields :: "string list"
  sh_sensitivityLevel :: SensitivityLevel
  sh_maxInputLength :: "nat option"
  sh_matches :: "(AuditRecord \<Rightarrow> bool result) option"

definition shadow_metadata :: "ShadowOptions \<Rightarrow> AuditRecord \<Rightarrow> (string \<times> js) list option result" where
  "shadow_metadata options record =
     whenR (case sh_matches options of None \<Rightarrow> Inr True | Some f \<Rightarrow> f record)
       (let payload = e_payload (ar_envelope record) in
        if \<not> is_object payload then Inr None
        else case field_loop (sh_patterns options) (sh_maxInputLength options) False payload
               (sh_scannedFields options) ([], [], payload) of
          (detected, hit, _) \<Rightarrow>
            if detected = [] then Inr None
            else Inr (Some [(''pii_shadow_detected'', strs detected), (''pii_shadow_fields'', strs hit),
              (''pii_shadow_sensitivity'', Str (sensitivity_name (sh_sensitivityLevel options)))]))"

definition createDataClassificationShadowProvider ::
  "ShadowOptions \<Rightarrow> (AuditRecord \<Rightarrow> (string \<times> js) list option result) result" where
  "createDataClassificationShadowProvider options =
     (if sh_scannedFields options = [] then
        Inl (ErrorObj ''Error'' ''createDataClassificationShadowProvider: scannedFields must be non-empty.'')
      else mapR (\<lambda>_. shadow_metadata options) (assertSafePatterns (sh_patterns options)))"

subsection \<open>Command risk\<close>

datatype CommandRiskCategory = destructive | network | credential | safe_command

fun category_text :: "CommandRiskCategory \<Rightarrow> string" where
  "category_text destructive = ''destructive''"
| "category_text network = ''network''"
| "category_text credential = ''credential''"
| "category_text safe_command = ''safe''"

record CommandRule =
  cr_category :: CommandRiskCategory
  cr_id :: string
  cr_test :: "string \<Rightarrow> bool"
  cr_refuse :: bool

datatype disposition = disp_refuse | disp_confirm | disp_safe

record CommandClassification =
  cc_category :: CommandRiskCategory
  matchedRuleIds :: "string list"
  cc_disposition :: disposition

record FlagStripRule =
  flag :: string
  appliesTo :: "string \<Rightarrow> bool"

definition classifyCommand :: "string \<Rightarrow> CommandRule list \<Rightarrow> CommandClassification" where
  "classifyCommand command rules =
     (let matched = filter (\<lambda>r. cr_test r command) rules in
      if matched = [] then \<lparr>cc_category = safe_command, matchedRuleIds = [], cc_disposition = disp_safe\<rparr>
      else \<lparr>cc_category =
              (if list_ex (\<lambda>r. cr_category r = destructive) matched then destructive
               else if list_ex (\<lambda>r. cr_category r = credential) matched then credential else network),
            matchedRuleIds = map cr_id matched,
            cc_disposition = (if list_ex cr_refuse matched then disp_refuse else disp_confirm)\<rparr>)"

text \<open>
  The global replacement of \<open>(^|\s)FLAG(?=\s|$)\<close> by its first group, the collapse of runs of two or
  more blanks, and \<open>trimEnd\<close>. \<open>start\<close> holds at the beginning of the text only.
\<close>

definition flag_here :: "string \<Rightarrow> string \<Rightarrow> bool" where
  "flag_here fl s \<longleftrightarrow> take (length fl) s = fl
     \<and> (case drop (length fl) s of [] \<Rightarrow> True | c # _ \<Rightarrow> is_js_space c)"

function remove_flag :: "string \<Rightarrow> bool \<Rightarrow> string \<Rightarrow> bool \<times> string" where
  "remove_flag fl start s =
     (if start \<and> flag_here fl s then (True, snd (remove_flag fl False (drop (length fl) s)))
      else case s of
          [] \<Rightarrow> (False, [])
        | c # cs \<Rightarrow>
            if is_js_space c \<and> flag_here fl cs
            then (True, c # snd (remove_flag fl False (drop (length fl) cs)))
            else (case remove_flag fl False cs of (m, t) \<Rightarrow> (m, c # t)))"
  by pat_completeness auto
termination
  by (relation "measure (\<lambda>(fl, start, s). 2 * length s + (if start then 1 else 0))") auto

fun collapse_blanks :: "string \<Rightarrow> string" where
  "collapse_blanks [] = []"
| "collapse_blanks [c] = [c]"
| "collapse_blanks (c # d # cs) =
     (if is_js_space c \<and> is_js_space d
      then (case collapse_blanks (d # cs) of [] \<Rightarrow> [] | e # es \<Rightarrow> CHR '' '' # es)
      else c # collapse_blanks (d # cs))"

definition trimEnd :: "string \<Rightarrow> string" where
  "trimEnd s = rev (dropWhile is_js_space (rev s))"

fun strip_loop :: "string \<Rightarrow> FlagStripRule list \<Rightarrow> string \<times> string list \<Rightarrow> string \<times> string list" where
  "strip_loop command [] acc = acc"
| "strip_loop command (r # rs) (out, stripped) =
     (if \<not> appliesTo r command then strip_loop command rs (out, stripped)
      else case remove_flag (flag r) True out of (found, out') \<Rightarrow>
        if found then strip_loop command rs (trimEnd (collapse_blanks out'), stripped @ [flag r])
        else strip_loop command rs (out, stripped))"

definition stripDangerousFlags :: "string \<Rightarrow> FlagStripRule list \<Rightarrow> string \<times> string list" where
  "stripDangerousFlags command rules = strip_loop command rules (command, [])"

record 's CommandRiskGuardOptions =
  ck_matches :: "'s predicate"
  extractCommand :: "IntentEnvelope \<Rightarrow> 's \<Rightarrow> string option result"
  commandField :: string
  ck_rules :: "CommandRule list"
  ck_flagRules :: "FlagStripRule list"
  ck_allow :: "string \<Rightarrow> IntentEnvelope \<Rightarrow> 's \<Rightarrow> bool result"
  ck_prompt :: "(CommandClassification \<Rightarrow> string \<Rightarrow> string result) option"
  ck_userFacing :: "string option"

definition command_detail :: "CommandClassification \<Rightarrow> string \<Rightarrow> (string \<times> js) list" where
  "command_detail c command =
     [(''category'', Str (category_text (cc_category c))), (''matchedRuleIds'', strs (matchedRuleIds c)),
      (''command'', Str command)]"

definition rewriteCommand ::
  "(string \<Rightarrow> string) \<Rightarrow> IntentEnvelope \<Rightarrow> string \<Rightarrow> string \<Rightarrow> string list \<Rightarrow> (string \<times> js) list \<Rightarrow> Decision result" where
  "rewriteCommand sha envelope field sanitized stripped detail =
     mapR (\<lambda>rewritten. decisionRewrite rewritten (''Stripped dangerous flags: '' @ join '', '' stripped)
        [basis cat_validation ''command_flag_stripped''
           (Some (Obj (detail @ [(''sanitized'', Str sanitized), (''stripped'', strs stripped)])))])
       (rebuilt sha envelope (with_field (e_payload envelope) field (Str sanitized)))"

definition judge_command ::
  "(string \<Rightarrow> string) \<Rightarrow> 's CommandRiskGuardOptions \<Rightarrow> IntentEnvelope \<Rightarrow> string \<Rightarrow> Decision option result" where
  "judge_command sha options envelope command =
     (let c = classifyCommand command (ck_rules options);
          detail = command_detail c command;
          (sanitized, stripped) = stripDangerousFlags command (ck_flagRules options);
          rewrite = mapR Some (rewriteCommand sha envelope (commandField options) sanitized stripped detail)
      in case cc_disposition c of
           disp_safe \<Rightarrow> Inr None
         | disp_refuse \<Rightarrow>
             if stripped \<noteq> [] \<and> cc_disposition (classifyCommand sanitized (ck_rules options)) \<noteq> disp_refuse then rewrite
             else Inr (Some (decisionRefuse
               (refuse SECURITY_REFUSAL ''command_risk_blocked''
                 (case ck_userFacing options of Some u \<Rightarrow> u | None \<Rightarrow> ''I can'' @ [CHR 0x27] @ ''t run that command.'')
                 (Some (category_text (cc_category c) @ '': '' @ join '', '' (matchedRuleIds c))))
               [basis cat_validation ''command_blocked'' (Some (Obj detail))]))
         | disp_confirm \<Rightarrow>
             if stripped \<noteq> [] then rewrite
             else mapR (\<lambda>p. Some (decisionRequestConfirmation p
                 [basis cat_business ''rule_satisfied'' (Some (Obj ((''rule'', Str ''command_risk_confirm'') # detail)))]))
               (case ck_prompt options of Some f \<Rightarrow> f c command
                | None \<Rightarrow> Inr (''Confirm '' @ category_text (cc_category c) @ '' command: '' @ command)))"

definition createCommandRiskGuard :: "(string \<Rightarrow> string) \<Rightarrow> 's CommandRiskGuardOptions \<Rightarrow> 's Guard" where
  "createCommandRiskGuard sha options =
     described (const_guard (\<lambda>envelope st.
       whenR (ck_matches options envelope st)
         (bindR (extractCommand options envelope st) (\<lambda>command.
          case command of
            None \<Rightarrow> Inr None
          | Some cmd \<Rightarrow>
              if cmd = [] then Inr None
              else bindR (ck_allow options cmd envelope st) (\<lambda>allowed.
                if allowed then Inr None else judge_command sha options envelope cmd)))))
       (desc_opaque (Some ''command-risk classifier''))"

declare remove_flag.simps [simp del]

subsection \<open>What the guards let through\<close>

lemma pattern_loop_ids:
  "pattern_loop ps s (m, ids, r) = (m', ids', r') \<Longrightarrow>
     (m' \<longleftrightarrow> m \<or> (\<exists>p\<in>set ps. testPattern p s)) \<and> set ids' = set ids \<union> dp_id ` {p \<in> set ps. testPattern p s}"
proof (induction ps arbitrary: m ids r)
  case (Cons p ps)
  show ?case
  proof (cases "testPattern p s")
    case True
    with Cons.prems have "pattern_loop ps s (True, if dp_id p \<in> set ids then ids else ids @ [dp_id p], redactWith p r)
        = (m', ids', r')" by simp
    from Cons.IH [OF this] True show ?thesis by auto
  next
    case False
    with Cons.IH [of m ids r] Cons.prems show ?thesis by auto
  qed
qed auto

lemma field_loop_ids:
  "field_loop ps limit rw payload fs (ids, hit, clone) = (ids', hit', clone') \<Longrightarrow>
     set ids' = set ids \<union> {dp_id p |p f s. p \<in> set ps \<and> f \<in> set fs \<and> scanned_value limit payload f = Some s \<and> testPattern p s}"
proof (induction fs arbitrary: ids hit clone)
  case (Cons f fs)
  show ?case
  proof (cases "scanned_value limit payload f")
    case None
    with Cons.IH [of ids hit clone] Cons.prems show ?thesis by auto
  next
    case (Some s)
    obtain m ids1 r where loop: "pattern_loop ps s (False, ids, s) = (m, ids1, r)" by (cases "pattern_loop ps s (False, ids, s)")
    have ids1: "set ids1 = set ids \<union> dp_id ` {p \<in> set ps. testPattern p s}"
      using pattern_loop_ids [OF loop] by simp
    obtain hit1 clone1 where "field_loop ps limit rw payload fs (ids1, hit1, clone1) = (ids', hit', clone')"
      using Cons.prems Some loop by (auto split: if_splits)
    from Cons.IH [OF this] ids1 Some show ?thesis by auto
  qed
qed auto

text \<open>The classification guard misses nothing it is told to scan: on a payload it covers it abstains if and
  only if no scanned field holds a string, within the length limit, that matches one of the patterns;
  otherwise it refuses, or rewrites, and lists exactly the matching patterns.\<close>

lemma classification_guard_exact:
  assumes "createDataClassificationGuard sha options = Inr g" "dc_matches options e st = Inr True"
    and "is_object (e_payload e)"
  shows "let found = {dp_id p |p f s. p \<in> set (dc_patterns options) \<and> f \<in> set (scannedFields options)
           \<and> scanned_value (maxInputLength options) (e_payload e) f = Some s \<and> testPattern p s}
         in if found = {} then g_call g e st = Inr None
            else if dc_rewrites options then g_call g e st \<noteq> Inr None
            else \<exists>r ids hit. set ids = found \<and> g_call g e st = Inr (Some (Refuse r [basis cat_validation ''pii_blocked''
                 (Some (Obj [(''sensitivityLevel'', Str (sensitivity_name (sensitivityLevel options))),
                    (''detectedPatterns'', strs ids), (''fields'', strs hit)]))]))"
proof -
  have g: "g_call g e st = classification_call sha options e st"
    using assms(1) by (auto simp: createDataClassificationGuard_def mapR_Inr split: if_splits)
  obtain ids hit clone where loop: "field_loop (dc_patterns options) (maxInputLength options) (dc_rewrites options)
      (e_payload e) (scannedFields options) ([], [], e_payload e) = (ids, hit, clone)" by (metis prod_cases3)
  have ids: "set ids = {dp_id p |p f s. p \<in> set (dc_patterns options) \<and> f \<in> set (scannedFields options)
           \<and> scanned_value (maxInputLength options) (e_payload e) f = Some s \<and> testPattern p s}"
    using field_loop_ids [OF loop] by simp
  have call: "g_call g e st = (if ids = [] then Inr None
     else if \<not> dc_rewrites options then Inr (Some (Refuse
            (refuse SECURITY_REFUSAL ''pii_blocked'' (case dc_userFacing options of Some u \<Rightarrow> u
                    | None \<Rightarrow> ''I can'' @ [CHR 0x27] @ ''t process that data.'')
               (Some (''detected '' @ join '', '' ids @ '' in '' @ join '', '' hit)))
            [basis cat_validation ''pii_blocked'' (Some (Obj
                   [(''sensitivityLevel'', Str (sensitivity_name (sensitivityLevel options))),
                    (''detectedPatterns'', strs ids), (''fields'', strs hit)]))]))
     else mapR (\<lambda>rewritten. Some (decisionRewrite rewritten
                (default_to ''Redacted classified data from payload.'' (dc_reason options))
                [basis cat_validation ''pii_redacted'' (Some (Obj
                   [(''sensitivityLevel'', Str (sensitivity_name (sensitivityLevel options))),
                    (''detectedPatterns'', strs ids), (''redactedFields'', strs hit)]))]))
              (rebuilt sha e clone))"
    by (simp add: g classification_call_def assms(2,3) loop decisionRefuse_def Let_def)
  show ?thesis
  proof (cases "ids = [] \<or> \<not> dc_rewrites options")
    case True
    then show ?thesis unfolding Let_def ids [symmetric] call by auto
  next
    case False
    then show ?thesis unfolding Let_def ids [symmetric] call by (cases "rebuilt sha e clone") auto
  qed
qed

lemma rewriteCommand_Inr:
  assumes "rewriteCommand sha e fld s st d = Inr y"
  shows "\<exists>x why b es. y = Rewrite x why b \<and> e_payload x = Obj es \<and> map_of es fld = Some (Str s)"
proof -
  from assms obtain x where x: "rebuilt sha e (with_field (e_payload e) fld (Str s)) = Inr x"
    and y: "\<exists>why b. y = decisionRewrite x why b"
    by (auto simp: rewriteCommand_def mapR_Inr)
  then show ?thesis using rebuilt_Inr(2) [OF x]
    by (auto simp: decisionRewrite_def with_field_def map_of_own_put simp del: own_put.simps)
qed

lemma classifyCommand_disposition:
  assumes "r \<in> set rules" "cr_test r cmd"
  shows "cc_disposition (classifyCommand cmd rules)
    = (if \<exists>q\<in>set rules. cr_refuse q \<and> cr_test q cmd then disp_refuse else disp_confirm)"
proof -
  have "filter (\<lambda>r. cr_test r cmd) rules \<noteq> []" using assms by (auto simp: filter_empty_conv)
  then show ?thesis by (auto simp: classifyCommand_def Let_def list_ex_iff)
qed

lemma classifyCommand_not_refuse:
  assumes "cc_disposition (classifyCommand cmd rules) \<noteq> disp_refuse" "q \<in> set rules" "cr_refuse q"
  shows "\<not> cr_test q cmd"
  using assms classifyCommand_disposition [of q rules cmd] by (auto split: if_splits)

text \<open>C34: a command that a rule matches is not waved through. Take a nonempty command that the guard covers (its \<open>matches\<close>
  holds) and that the adopter's allow list does not admit, and let a rule match it. Then the guard does not
  abstain; and if the rule is a refusing one, what it returns is a refusal, or a
  rewrite whose command no longer matches any refusing rule.\<close>

theorem command_risk_blocks:
  assumes "ck_matches options e st = Inr True" "extractCommand options e st = Inr (Some cmd)" "cmd \<noteq> []"
    and "ck_allow options cmd e st = Inr False"
    and "g_call (createCommandRiskGuard sha options) e st = Inr out" "r \<in> set (ck_rules options)" "cr_test r cmd"
  shows "out \<noteq> None \<and> (cr_refuse r \<longrightarrow> (\<exists>rf b. out = Some (Refuse rf b))
     \<or> (\<exists>x why b es s. out = Some (Rewrite x why b) \<and> e_payload x = Obj es \<and> map_of es (commandField options) = Some (Str s)
         \<and> (\<forall>q\<in>set (ck_rules options). cr_refuse q \<longrightarrow> \<not> cr_test q s)))"
proof -
  let ?rules = "ck_rules options" and ?fld = "commandField options"
  have out: "judge_command sha options e cmd = Inr out"
    using assms(1-5) by (simp add: createCommandRiskGuard_def)
  obtain s st where st: "stripDangerousFlags cmd (ck_flagRules options) = (s, st)" by fastforce
  note judge = out [unfolded judge_command_def Let_def st prod.case classifyCommand_disposition [OF assms(6,7)]]
  show ?thesis
  proof (cases "\<exists>q\<in>set ?rules. cr_refuse q \<and> cr_test q cmd")
    case True
    show ?thesis
    proof (cases "st \<noteq> [] \<and> cc_disposition (classifyCommand s ?rules) \<noteq> disp_refuse")
      case safe: True
      then obtain y d where y: "rewriteCommand sha e ?fld s st d = Inr y" "out = Some y"
        using judge True by (auto simp: mapR_Inr)
      show ?thesis using rewriteCommand_Inr [OF y(1)] y(2) safe classifyCommand_not_refuse by blast
    next
      case False
      then have "\<exists>rf b. out = Some (Refuse rf b)" using judge True by (auto simp: decisionRefuse_def)
      then show ?thesis by auto
    qed
  next
    case False
    then have "\<not> cr_refuse r" using assms(6,7) by blast
    moreover have "out \<noteq> None" using judge False by (auto simp: mapR_Inr split: if_splits)
    ultimately show ?thesis by simp
  qed
qed

subsection \<open>Witnesses\<close>

definition digit_pattern :: DataClassificationPattern where
  "digit_pattern = \<lparr>dp_id = ''digits'', testPattern = (\<lambda>s. list_ex (\<lambda>c. c = CHR ''5'') s), redactWith = (\<lambda>s. ''***''),
     safe_pattern = True\<rparr>"

definition digit_options :: "unit DataClassificationGuardOptions" where
  "digit_options = \<lparr>dc_matches = (\<lambda>e st. Inr True), dc_patterns = [digit_pattern], scannedFields = [''memo.card''],
     dc_rewrites = False, sensitivityLevel = sens_high, maxInputLength = None, dc_reason = None, dc_userFacing = None\<rparr>"

abbreviation card_envelope :: IntentEnvelope where
  "card_envelope \<equiv> sample_envelope\<lparr>e_payload := Obj [(''memo'', Obj [(''card'', Str ''45'')])]\<rparr>"

lemma card_found: "{dp_id p |p f s. p \<in> set (dc_patterns digit_options) \<and> f \<in> set (scannedFields digit_options)
    \<and> scanned_value (maxInputLength digit_options) (e_payload card_envelope) f = Some s \<and> testPattern p s} = {''digits''}"
  by (auto simp: digit_options_def digit_pattern_def scanned_value_def getPath_def)

lemma classification_guard_exact_witness:
  "\<exists>g r b. createDataClassificationGuard sample_sha digit_options = Inr g \<and> g_call g card_envelope () = Inr (Some (Refuse r b))"
proof -
  obtain g where g: "createDataClassificationGuard sample_sha digit_options = Inr g"
    by (simp add: createDataClassificationGuard_def digit_options_def digit_pattern_def assertSafePatterns_def)
  have "dc_matches digit_options card_envelope () = Inr True" "is_object (e_payload card_envelope)" "\<not> dc_rewrites digit_options"
    by (simp_all add: digit_options_def)
  with classification_guard_exact [OF g this(1,2), unfolded card_found Let_def] g show ?thesis by fastforce
qed

definition rm_options :: "unit CommandRiskGuardOptions" where
  "rm_options = \<lparr>ck_matches = (\<lambda>e st. Inr True), extractCommand = (\<lambda>e st. Inr (Some ''rm --hard'')), commandField = ''cmd'',
     ck_rules = [\<lparr>cr_category = destructive, cr_id = ''hard'', cr_test = (\<lambda>c. c = ''rm --hard''), cr_refuse = True\<rparr>],
     ck_flagRules = [], ck_allow = (\<lambda>c e st. Inr False), ck_prompt = None, ck_userFacing = None\<rparr>"

theorem command_risk_blocks_witness:
  "\<exists>out. g_call (createCommandRiskGuard sample_sha rm_options) sample_envelope () = Inr (Some out)"
proof -
  let ?r = "hd (ck_rules rm_options)"
  obtain out where "g_call (createCommandRiskGuard sample_sha rm_options) sample_envelope () = Inr out"
    by (simp add: createCommandRiskGuard_def judge_command_def rm_options_def classifyCommand_def Let_def
        stripDangerousFlags_def)
  from command_risk_blocks [where r = ?r, OF _ _ _ _ this] this show ?thesis
    by (auto simp: rm_options_def)
qed

end
