(* ===== verification/JsonParse.thy ===== *)
theory JsonParse
  imports Canonical
begin

text \<open>
  \<open>JSON.parse\<close> on the values of the model, and its round trip with \<open>JSON.stringify\<close>. Number tokens
  with a fraction or an exponent, and escapes of code units above 255, denote values outside the model
  and are answered like a syntax error.
\<close>

definition json_blank :: "char \<Rightarrow> bool" where
  "json_blank c \<longleftrightarrow> of_char c \<in> {9, 10, 13, 32 :: nat}"

definition skip :: "string \<Rightarrow> string" where
  "skip s = dropWhile json_blank s"

definition hex_val :: "char \<Rightarrow> nat option" where
  "hex_val c = (let n = of_char c :: nat in
     if 48 \<le> n \<and> n \<le> 57 then Some (n - 48) else if 97 \<le> n \<and> n \<le> 102 then Some (n - 87)
     else if 65 \<le> n \<and> n \<le> 70 then Some (n - 55) else None)"

definition unescape :: "char \<Rightarrow> char option" where
  "unescape e = (if e \<in> {CHR 0x22, CHR 0x5C, CHR ''/''} then Some e
     else if e = CHR ''b'' then Some (CHR 0x08) else if e = CHR ''t'' then Some (CHR 0x09)
     else if e = CHR ''n'' then Some (CHR 0x0A) else if e = CHR ''f'' then Some (CHR 0x0C)
     else if e = CHR ''r'' then Some (CHR 0x0D) else None)"

text \<open>The rest of a string literal after its opening quotation mark.\<close>

fun code_unit :: "char \<Rightarrow> char \<Rightarrow> char \<Rightarrow> char \<Rightarrow> char option" where
  "code_unit a b c d = (case (hex_val a, hex_val b, hex_val c, hex_val d) of
     (Some 0, Some 0, Some h, Some l) \<Rightarrow> Some (char_of (16 * h + l)) | _ \<Rightarrow> None)"

fun cons_fst :: "'a \<Rightarrow> ('a list \<times> 'b) option \<Rightarrow> ('a list \<times> 'b) option" where
  "cons_fst x None = None"
| "cons_fst x (Some (xs, r)) = Some (x # xs, r)"

fun after_backslash :: "string \<Rightarrow> (char \<times> string) option" where
  "after_backslash [] = None"
| "after_backslash (e # cs) = (case unescape e of
     Some c \<Rightarrow> Some (c, cs)
   | None \<Rightarrow> (case (e = CHR ''u'', cs) of
       (True, h1 # h2 # h3 # h4 # cs') \<Rightarrow> map_option (\<lambda>c. (c, cs')) (code_unit h1 h2 h3 h4)
     | _ \<Rightarrow> None))"

lemma after_backslash_shorter: "after_backslash s = Some (c, r) \<Longrightarrow> length r < length s"
  by (cases s) (auto split: option.splits list.splits bool.splits)

function string_rest :: "string \<Rightarrow> (string \<times> string) option" where
  "string_rest [] = None"
| "string_rest (c # cs) =
     (if c = CHR 0x22 then Some ([], cs)
      else if (of_char c :: nat) < 32 then None
      else if c = CHR 0x5C then (case after_backslash cs of None \<Rightarrow> None | Some (e, cs') \<Rightarrow> cons_fst e (string_rest cs'))
      else cons_fst c (string_rest cs))"
  by pat_completeness auto
termination
  by (relation "measure length") (auto dest: after_backslash_shorter)

definition number :: "string \<Rightarrow> (js \<times> string) option" where
  "number s =
     (let neg = (s \<noteq> [] \<and> hd s = CHR ''-''); t = (if neg then tl s else s);
          ds = takeWhile is_digit t; r = dropWhile is_digit t
      in if ds = [] \<or> hd ds = CHR ''0'' \<and> length ds > 1 \<or> r \<noteq> [] \<and> hd r \<in> {CHR ''.'', CHR ''e'', CHR ''E''} then None
         else Some (num (if neg then - int (digits_val ds) else int (digits_val ds)), r))"

definition literal :: "string \<Rightarrow> (js \<times> string) option" where
  "literal s = (if take 4 s = ''null'' then Some (Null, drop 4 s)
     else if take 4 s = ''true'' then Some (Bool True, drop 4 s)
     else if take 5 s = ''false'' then Some (Bool False, drop 5 s) else number s)"

definition from_entries :: "(string \<times> js) list \<Rightarrow> (string \<times> js) list" where
  "from_entries ms = foldl own_put [] ms"

text \<open>
  A value, the elements of an array after the bracket, the members of an object after the brace. Every
  value consumes at least one character, which the tests on lengths make visible to the recursion.
\<close>

lemma skip_length: "length (skip s) \<le> length s"
  by (simp add: skip_def length_dropWhile_le)

lemma string_rest_shorter: "string_rest s = Some (t, r) \<Longrightarrow> length r < length s"
proof (induction s arbitrary: t rule: string_rest.induct)
  case (2 c cs)
  have "cons_fst x p = Some (t, r) \<Longrightarrow> \<exists>t'. p = Some (t', r)" for x p and t r :: string
    by (cases p) auto
  with 2 show ?case
    by (auto split: if_splits option.splits prod.splits dest!: after_backslash_shorter) fastforce+
qed simp

lemma skip_Cons_length: "skip s = c # cs \<Longrightarrow> length cs < length s"
  using skip_length [of s] by simp

function (sequential) parse_value :: "string \<Rightarrow> (js \<times> string) option"
  and parse_items :: "string \<Rightarrow> (js list \<times> string) option"
  and parse_members :: "string \<Rightarrow> ((string \<times> js) list \<times> string) option" where
  "parse_value s = (case skip s of
     [] \<Rightarrow> None
   | c # cs \<Rightarrow>
       if c = CHR 0x22 then map_option (map_prod Str id) (string_rest cs)
       else if c = CHR ''['' then
         (if skip cs \<noteq> [] \<and> hd (skip cs) = CHR '']'' then Some (Arr [], tl (skip cs))
          else map_option (map_prod Arr id) (parse_items cs))
       else if c = CHR ''{'' then
         (if skip cs \<noteq> [] \<and> hd (skip cs) = CHR ''}'' then Some (Obj [], tl (skip cs))
          else map_option (map_prod (\<lambda>ms. Obj (from_entries ms)) id) (parse_members cs))
       else literal (c # cs))"
| "parse_items s = (case parse_value s of
     None \<Rightarrow> None
   | Some (v, r) \<Rightarrow> if length r \<ge> length s then None else (case skip r of
         [] \<Rightarrow> None
       | c # cs \<Rightarrow> if c = CHR '','' then cons_fst v (parse_items cs)
                  else if c = CHR '']'' then Some ([v], cs) else None))"
| "parse_members s = (case skip s of
     [] \<Rightarrow> None
   | q # cs \<Rightarrow> if q \<noteq> CHR 0x22 then None else (case string_rest cs of
         None \<Rightarrow> None
       | Some (k, r) \<Rightarrow> (case skip r of
             [] \<Rightarrow> None
           | c # cs' \<Rightarrow> if c \<noteq> CHR '':'' then None else (case parse_value cs' of
                 None \<Rightarrow> None
               | Some (v, r') \<Rightarrow> if length r' \<ge> length cs' then None else (case skip r' of
                     [] \<Rightarrow> None
                   | d # ds \<Rightarrow> if d = CHR '','' then cons_fst (k, v) (parse_members ds)
                              else if d = CHR ''}'' then Some ([(k, v)], ds) else None)))))"
  by pat_completeness auto

termination
proof (relation "measure (\<lambda>x. case x of Inl s \<Rightarrow> 2 * length s
    | Inr (Inl s) \<Rightarrow> 2 * length s + 1 | Inr (Inr s) \<Rightarrow> 2 * length s + 1)", goal_cases)
  case (5 s x2 v r c cs)
  then show ?case using skip_Cons_length [of r] by fastforce
qed (auto dest!: skip_Cons_length string_rest_shorter)

declare parse_value.simps [simp del] parse_items.simps [simp del] parse_members.simps [simp del]

definition syntax_error :: thrown where
  "syntax_error = ErrorObj ''SyntaxError'' ''JSON.parse''"

definition JSON_parse :: "string \<Rightarrow> js result" where
  "JSON_parse s = (case parse_value s of
     None \<Rightarrow> Inl syntax_error
   | Some (v, r) \<Rightarrow> if skip r = [] then Inr v else Inl syntax_error)"

subsection \<open>Round trip\<close>

text \<open>What a value becomes on the way through its text.\<close>

fun reread :: "js \<Rightarrow> js" where
  "reread Undef = Null"
| "reread (Num (JInt i)) = num i"
| "reread (Num _) = Null"
| "reread (BigInt i) = num i"
| "reread (Arr xs) = Arr (map reread xs)"
| "reread (Obj es) = Obj (from_entries (map snd (filter fst (map (\<lambda>(k, v). (v \<noteq> Undef, k, reread v)) es))))"
| "reread v = v"

lemma skip_simps [simp]: "skip [] = []" "\<not> json_blank c \<Longrightarrow> skip (c # cs) = c # cs"
  by (simp_all add: skip_def)

lemma delim_skip [simp]: "delim r \<Longrightarrow> skip r = r"
  by (cases r) (auto simp: json_blank_def)

lemma hex_val_digit: "n < 16 \<Longrightarrow> hex_val (hex_digit n) = Some n"
proof -
  assume n: "n < 16"
  have "(of_char (hex_digit n) :: nat) = (if n < 10 then 48 + n else 87 + n)"
    using n by (auto simp: hex_digit_def take_bit_nat_def)
  with n show ?thesis by (auto simp: hex_val_def Let_def)
qed

lemma unescape_short: "short_escape c = Some e \<Longrightarrow> unescape e = Some c"
  by (auto simp: short_escape_def unescape_def split: if_splits)

lemma string_rest_escape: "string_rest (escape_char c @ s) = cons_fst c (string_rest s)"
proof (cases "short_escape c")
  case (Some e)
  then show ?thesis by (simp add: escape_char_def unescape_short)
next
  case None
  show ?thesis
  proof (cases "(of_char c :: nat) < 32")
    case True
    have "16 * (of_char c div 16) + of_char c mod 16 = (of_char c :: nat)" by simp
    with None True show ?thesis
      by (simp add: escape_char_def unescape_def hex_val_digit hex_val_def [of "CHR ''0''"])
  next
    case False
    with None short_escape_None [OF None] show ?thesis by (simp add: escape_char_def)
  qed
qed

lemma string_rest_quote: "string_rest (concat (map escape_char s) @ CHR 0x22 # r) = Some (s, r)"
  by (induction s) (simp_all add: string_rest_escape)

lemma takeWhile_digits: "delim r \<Longrightarrow> takeWhile is_digit (show_nat n @ r) = show_nat n"
    "delim r \<Longrightarrow> dropWhile is_digit (show_nat n @ r) = r"
  using show_nat_digits [of _ n] delim_not_digit [of r]
  by (cases r; simp add: takeWhile_append2 dropWhile_append2)+

lemma digits_val_zero: "digits_val (CHR ''0'' # s) = digits_val s"
  by (simp add: digits_val_def)

lemma digits_val_bound: "list_all is_digit s \<Longrightarrow> digits_val s < 10 ^ length s"
proof (induction s rule: rev_induct)
  case (snoc c s)
  then have "(of_char c :: nat) - 48 \<le> 9" "digits_val s < 10 ^ length s" by (auto simp: is_digit_def)
  then show ?case by (simp add: digits_val_snoc)
qed (simp add: digits_val_def)

lemma show_nat_size: "10 \<le> n \<Longrightarrow> 10 ^ (length (show_nat n) - 1) \<le> n"
proof (induction n rule: show_nat.induct)
  case (1 n)
  have len: "length (show_nat n) = Suc (length (show_nat (n div 10)))"
    using 1(2) by (subst show_nat.simps) simp
  show ?case
  proof (cases "n div 10 < 10")
    case True
    then have "length (show_nat (n div 10)) = 1" by (subst show_nat.simps) simp
    with len 1(2) show ?thesis by simp
  next
    case False
    with 1 have "10 ^ (length (show_nat (n div 10)) - 1) \<le> n div 10" by simp
    then have "10 * 10 ^ (length (show_nat (n div 10)) - 1) \<le> n" by simp
    moreover have "length (show_nat (n div 10)) > 0" by simp
    ultimately show ?thesis using len
      by (metis One_nat_def Suc_pred diff_Suc_1 power_Suc)
  qed
qed

lemma show_nat_leading: "\<not> (hd (show_nat n) = CHR ''0'' \<and> Suc 0 < length (show_nat n))"
proof
  assume a: "hd (show_nat n) = CHR ''0'' \<and> Suc 0 < length (show_nat n)"
  then have n: "10 \<le> n" by (cases "n < 10") (simp_all add: show_nat.simps [of n])
  obtain s where s: "show_nat n = CHR ''0'' # s" using a by (cases "show_nat n") auto
  then have "digits_val s = n" using digits_val_show_nat [of n] by (simp add: digits_val_zero)
  moreover have "list_all is_digit s" using show_nat_digits [of _ n] s by (auto simp: list_all_iff)
  then have "digits_val s < 10 ^ length s" by (rule digits_val_bound)
  ultimately show False using show_nat_size [OF n] s by simp
qed

lemma number_show_nat:
  assumes "delim r"
  shows "number (show_nat n @ r) = Some (num (int n), r)" "number (CHR ''-'' # show_nat n @ r) = Some (num (- int n), r)"
proof -
  have "hd (show_nat n @ r) \<noteq> CHR ''-''" using show_nat_no_minus [of n] by simp
  moreover have "\<not> (r \<noteq> [] \<and> hd r \<in> {CHR ''.'', CHR ''e'', CHR ''E''})" using assms by (cases r) auto
  moreover have "\<not> (show_nat n = [] \<or> hd (show_nat n) = CHR ''0'' \<and> 1 < length (show_nat n))"
    using show_nat_leading [of n] by simp
  ultimately show "number (show_nat n @ r) = Some (num (int n), r)"
    "number (CHR ''-'' # show_nat n @ r) = Some (num (- int n), r)"
    unfolding number_def Let_def by (simp_all only: takeWhile_digits [OF assms] list.sel append_is_Nil_conv
      show_nat_nonempty list.simps if_True if_False simp_thms digits_val_show_nat)
qed

lemma number_show_int: "delim r \<Longrightarrow> number (show_int i @ r) = Some (num i, r)"
  by (simp add: show_int_def number_show_nat)

lemma digit_not_literal:
  assumes "is_digit c \<or> c = CHR ''-''"
  shows "literal (c # cs) = number (c # cs)" "\<not> json_blank c" "c \<noteq> CHR 0x22" "c \<noteq> CHR ''[''" "c \<noteq> CHR ''{''"
  using assms by (auto simp: literal_def is_digit_def json_blank_def)

lemma parse_number: "delim r \<Longrightarrow> parse_value (show_int i @ r) = Some (num i, r)"
proof -
  assume r: "delim r"
  obtain c cs where c: "show_int i = c # cs" "is_digit c \<or> c = CHR ''-''" using show_int_first by blast
  with digit_not_literal [OF c(2)] number_show_int [OF r, of i] show ?thesis
    by (simp add: parse_value.simps)
qed

lemma parse_quote: "parse_value (quote s @ r) = Some (Str s, r)"
  by (simp add: parse_value.simps quote_def json_blank_def string_rest_quote)

lemma show_int_head: "\<exists>c cs. show_int i = c # cs \<and> \<not> json_blank c \<and> c \<notin> {CHR '']'', CHR ''}''}"
proof -
  obtain c cs where c: "show_int i = c # cs" "is_digit c \<or> c = CHR ''-''" using show_int_first by blast
  with digit_not_literal(2) [OF c(2)] show ?thesis by (auto simp: is_digit_def)
qed

lemma stringify_head: "\<exists>c cs. stringify v = c # cs \<and> \<not> json_blank c \<and> c \<notin> {CHR '']'', CHR ''}''}"
proof (cases v)
  case (Num n)
  then show ?thesis using show_int_head by (cases n) (auto simp: json_blank_def)
qed (use show_int_head in \<open>auto simp: quote_def bracket_def json_blank_def\<close>)

lemma stringify_not_Nil [simp]: "stringify v \<noteq> []"
  using stringify_head [of v] by auto

text \<open>The items of an array and the members of an object, given that their values are read back.\<close>

lemma parse_items_stringify:
  assumes "\<And>x q. x \<in> set (x0 # xs) \<Longrightarrow> delim q \<Longrightarrow> parse_value (stringify x @ q) = Some (reread x, q)"
  shows "parse_items (commas (map stringify (x0 # xs)) @ CHR '']'' # r) = Some (map reread (x0 # xs), r)"
  using assms
proof (induction xs arbitrary: x0)
  case Nil
  then show ?case by (simp add: parse_items.simps [of "stringify x0 @ CHR '']'' # r"])
next
  case (Cons x xs)
  let ?rest = "commas (map stringify (x # xs)) @ CHR '']'' # r"
  have "parse_items ?rest = Some (map reread (x # xs), r)" using Cons by simp
  moreover have "parse_value (stringify x0 @ CHR '','' # ?rest) = Some (reread x0, CHR '','' # ?rest)"
    by (rule Cons.prems) simp_all
  ultimately show ?case by (simp add: parse_items.simps [of "stringify x0 @ _"])
qed

lemma parse_members_stringify:
  assumes "\<And>e q. e \<in> set (e0 # es) \<Longrightarrow> delim q \<Longrightarrow> parse_value (stringify (snd e) @ q) = Some (reread (snd e), q)"
  shows "parse_members (commas (map stringify_entry (e0 # es)) @ CHR ''}'' # r)
    = Some (map (\<lambda>e. (fst e, reread (snd e))) (e0 # es), r)"
  using assms
proof (induction es arbitrary: e0)
  case Nil
  have "parse_value (stringify (snd e0) @ CHR ''}'' # r) = Some (reread (snd e0), CHR ''}'' # r)"
    by (rule Nil) simp_all
  then show ?case
    by (simp add: stringify_entry_def quote_def json_blank_def string_rest_quote parse_members.simps [of "CHR 0x22 # _"])
next
  case (Cons e es)
  obtain q where q: "q = commas (map stringify_entry (e # es)) @ CHR ''}'' # r" by blast
  have rest: "parse_members q = Some (map (\<lambda>e. (fst e, reread (snd e))) (e # es), r)" unfolding q using Cons by simp
  have val: "parse_value (stringify (snd e0) @ CHR '','' # q) = Some (reread (snd e0), CHR '','' # q)"
    by (rule Cons.prems) simp_all
  have "commas (map stringify_entry (e0 # e # es)) @ CHR ''}'' # r
      = CHR 0x22 # concat (map escape_char (fst e0)) @ CHR 0x22 # CHR '':'' # stringify (snd e0) @ CHR '','' # q"
    by (simp add: stringify_entry_def quote_def q)
  then show ?case
    by (simp only:) (simp add: parse_members.simps [of "CHR 0x22 # _"] json_blank_def string_rest_quote val rest)
qed

lemma stringify_Obj: "stringify (Obj es) = bracket (CHR ''{'') (CHR ''}'') (map stringify_entry (filter (\<lambda>e. snd e \<noteq> Undef) es))"
proof -
  have "map snd (filter fst (map (\<lambda>(k, v). (v \<noteq> Undef, quote k @ CHR '':'' # stringify v)) es))
      = map stringify_entry (filter (\<lambda>e. snd e \<noteq> Undef) es)"
    by (induction es) (auto simp: stringify_entry_def)
  then show ?thesis by simp
qed

lemma reread_Obj: "reread (Obj es) = Obj (from_entries (map (\<lambda>e. (fst e, reread (snd e))) (filter (\<lambda>e. snd e \<noteq> Undef) es)))"
proof -
  have "map snd (filter fst (map (\<lambda>(k, v). (v \<noteq> Undef, k, reread v)) es))
      = map (\<lambda>e. (fst e, reread (snd e))) (filter (\<lambda>e. snd e \<noteq> Undef) es)"
    by (induction es) auto
  then show ?thesis by simp
qed

lemma parse_stringify:
  "\<not> has_bigint v \<Longrightarrow> delim r \<Longrightarrow> parse_value (stringify v @ r) = Some (reread v, r)"
proof (induction v arbitrary: r)
  case (Num n)
  then show ?case by (cases n) (simp_all add: parse_number parse_value.simps [of "CHR ''n'' # _"] json_blank_def literal_def)
next
  case (Arr xs)
  have items: "parse_value (stringify x @ q) = Some (reread x, q)" if "x \<in> set xs" "delim q" for x q
    using Arr that by (auto simp: list_ex_iff)
  show ?case
  proof (cases xs)
    case (Cons x ys)
    obtain c cs where c: "stringify x = c # cs" "\<not> json_blank c" "c \<noteq> CHR '']''" using stringify_head [of x] by auto
    have "parse_items (commas (map stringify (x # ys)) @ CHR '']'' # r) = Some (map reread (x # ys), r)"
      by (rule parse_items_stringify) (use items Cons in simp_all)
    with Cons c show ?thesis
      by (simp add: parse_value.simps [of "CHR ''['' # _"] bracket_def json_blank_def)
  qed (simp add: parse_value.simps bracket_def json_blank_def)
next
  case (Obj es)
  let ?es = "filter (\<lambda>e. snd e \<noteq> Undef) es"
  have items: "parse_value (stringify (snd e) @ q) = Some (reread (snd e), q)" if "e \<in> set ?es" "delim q" for e q
    using Obj.IH [of e "snd e" q] Obj.prems(1) that by (cases e) (auto simp: list_ex_iff)
  show ?case
  proof (cases ?es)
    case Nil
    then show ?thesis
      by (simp add: stringify_Obj reread_Obj parse_value.simps bracket_def json_blank_def from_entries_def
          del: stringify.simps reread.simps)
  next
    case (Cons e fs)
    have "parse_members (commas (map stringify_entry (e # fs)) @ CHR ''}'' # r)
        = Some (map (\<lambda>e. (fst e, reread (snd e))) (e # fs), r)"
      by (rule parse_members_stringify) (use items Cons in simp_all)
    moreover have "\<exists>s. commas (map stringify_entry (e # fs)) = CHR 0x22 # s" by (simp add: stringify_entry_def quote_def)
    ultimately show ?thesis unfolding stringify_Obj reread_Obj Cons
      by (auto simp: parse_value.simps [of "CHR ''{'' # _"] bracket_def json_blank_def simp del: commas.simps list.map)
  qed
qed (simp_all add: parse_quote parse_value.simps [of "_ # _"] json_blank_def literal_def)

text \<open>The JSON round trip: the text of a value is accepted by the parser and read back as the value, with
  what JSON cannot express replaced as \<open>reread\<close> says.\<close>

lemma JSON_roundtrip:
  assumes "JSON_stringify v = Inr s"
  shows "JSON_parse s = Inr (reread v)"
  using assms parse_stringify [of v "[]"] by (auto simp: JSON_stringify_def JSON_parse_def split: if_splits)

subsection \<open>Content addresses survive the round trip\<close>

text \<open>The keys of a JavaScript object are distinct; so are those of the objects inside it.\<close>

fun distinct_keys :: "js \<Rightarrow> bool" where
  "distinct_keys (Arr xs) = list_all distinct_keys xs"
| "distinct_keys (Obj es) = (distinct (map fst es) \<and> list_all (\<lambda>(k, v). distinct_keys v) es)"
| "distinct_keys _ = True"

lemma mset_insert_index: "mset (insert_index k v es) = add_mset (k, v) (mset es)"
proof (induction es)
  case (Cons e es)
  then show ?case by (cases e) simp
qed simp

lemma mset_from_entries: "distinct (map fst es) \<Longrightarrow> mset (from_entries es) = mset es"
proof -
  have "mset (foldl own_put acc es) = mset acc + mset es" if "distinct (map fst (acc @ es))" for acc
    using that
  proof (induction es arbitrary: acc)
    case (Cons e es)
    obtain k v where e: "e = (k, v)" by (cases e)
    have "own_put acc (k, v) = (if is_index_key k then insert_index k v acc else acc @ [(k, v)])"
      using Cons.prems e by auto
    then have put: "mset (own_put acc e) = add_mset (k, v) (mset acc)"
      by (simp add: e mset_insert_index del: own_put.simps)
    have "mset (map fst (own_put acc e @ es)) = mset (map fst (acc @ e # es))"
      using put by (simp add: e del: own_put.simps)
    then have "distinct (map fst (own_put acc e @ es))" using Cons.prems mset_eq_imp_distinct_iff by blast
    from Cons.IH [OF this] put show ?case by (simp add: e del: own_put.simps)
  qed simp
  then show "distinct (map fst es) \<Longrightarrow> mset (from_entries es) = mset es" by (simp add: from_entries_def)
qed

lemma distinct_from_entries: "distinct (map fst es) \<Longrightarrow> distinct (map fst (from_entries es))"
proof -
  assume d: "distinct (map fst es)"
  have "mset (map fst (from_entries es)) = mset (map fst es)" using mset_from_entries [OF d] by simp
  with d show ?thesis using mset_eq_imp_distinct_iff by blast
qed

lemma map_of_from_entries: "distinct (map fst es) \<Longrightarrow> map_of (from_entries es) = map_of es"
  using mset_from_entries [of es] distinct_from_entries [of es]
  by (intro map_of_inject_set [THEN iffD2]) (auto dest: mset_eq_setD)

lemma reread_defined [simp]: "reread v \<noteq> Undef"
  by (cases v rule: reread.cases) simp_all

lemma canonicalize_reread:
  assumes "distinct_keys v" "\<not> has_bigint v" "canonicalize v = Inr c"
  shows "canonicalize (reread v) = Inr c"
  using assms
proof (induction v arbitrary: c)
  case (Num n)
  then show ?case by (cases n) auto
next
  case (Arr xs)
  then obtain cs where "map canonicalize xs = map Inr cs" "c = Arr cs" by (auto simp: mapR_Inr seqR_Inr)
  moreover have "map (canonicalize \<circ> reread) xs = map canonicalize xs" if "map canonicalize xs = map Inr cs" for cs
  proof (rule map_cong [OF refl])
    fix x
    assume x: "x \<in> set xs"
    then have "canonicalize x \<in> set (map Inr cs)" unfolding that [symmetric] by simp
    then obtain d where "canonicalize x = Inr d" by auto
    with x Arr show "(canonicalize \<circ> reread) x = canonicalize x" by (auto simp: list_all_iff list_ex_iff)
  qed
  ultimately show ?case by (simp add: comp_def)
next
  case (Obj es)
  let ?es = "filter (\<lambda>e. snd e \<noteq> Undef) es" and ?r = "\<lambda>e. (fst e, reread (snd e))"
  let ?L = "\<lambda>es. map (\<lambda>(k, v). (k, canonicalize v)) (filter (\<lambda>(k, v). v \<noteq> Undef) es)"
  have dist: "distinct (map fst (map ?r ?es))"
    using Obj.prems(1) distinct_map_filter [of fst es] by (simp add: comp_def)
  from Obj.prems(3) obtain ps where ps: "by_key (?L es) = map (\<lambda>(k, x). (k, Inr x)) ps"
    by (rule canonicalize_Obj_Inr)
  have each: "\<exists>d. canonicalize (snd e) = Inr d" if "e \<in> set ?es" for e
  proof -
    have "(fst e, canonicalize (snd e)) \<in> set (by_key (?L es))" using that unfolding by_key_def
      by (cases "(fst e, snd e)") (force simp: image_iff)
    then show ?thesis unfolding ps by auto
  qed
  have "canonicalize (Obj (from_entries (map ?r ?es))) = canonicalize (Obj (map ?r ?es))"
    by (rule canonicalize_key_order [OF mset_from_entries [OF dist] distinct_from_entries [OF dist]])
  moreover have "?L (map ?r ?es) = ?L es"
  proof -
    have "map (\<lambda>e. (fst e, canonicalize (reread (snd e)))) ?es = map (\<lambda>e. (fst e, canonicalize (snd e))) ?es"
    proof (rule map_cong [OF refl])
      fix e
      assume e: "e \<in> set ?es"
      with each obtain d where d: "canonicalize (snd e) = Inr d" by blast
      have "distinct_keys (snd e)" "\<not> has_bigint (snd e)"
        using e Obj.prems(1,2) by (auto simp: list_all_iff list_ex_iff)
      with Obj.IH [of e "snd e" d] e d show "(fst e, canonicalize (reread (snd e))) = (fst e, canonicalize (snd e))"
        by (cases e) auto
    qed
    then show ?thesis by (simp add: case_prod_unfold comp_def filter_map)
  qed
  ultimately show ?case using Obj.prems(3) by (simp only: reread_Obj canonicalize_Obj)
qed simp_all

end
