(* ===== verification/JsMap.thy ===== *)
theory JsMap
  imports Prelude
begin

text \<open>
  The \<open>Map\<close> of JavaScript as the code iterates over it: the entries in the order of their insertion.
  Writing a key that is present keeps its place, deleting and writing again moves it to the end.
\<close>

type_synonym 'v jmap = "(string \<times> 'v) list"

fun map_set :: "string \<Rightarrow> 'v \<Rightarrow> 'v jmap \<Rightarrow> 'v jmap" where
  "map_set k v [] = [(k, v)]"
| "map_set k v ((k', v') # es) = (if k' = k then (k, v) # es else (k', v') # map_set k v es)"

definition map_delete :: "string \<Rightarrow> 'v jmap \<Rightarrow> 'v jmap" where
  "map_delete k es = filter (\<lambda>e. fst e \<noteq> k) es"

lemma map_of_map_set [simp]: "map_of (map_set k v es) = (map_of es)(k \<mapsto> v)"
  by (induction k v es rule: map_set.induct) (auto simp: fun_eq_iff)

lemma map_of_map_delete [simp]: "map_of (map_delete k es) = (map_of es)(k := None)"
  by (induction es) (auto simp: map_delete_def fun_eq_iff)

lemma set_map_set: "fst ` set (map_set k v es) = insert k (fst ` set es)"
  by (induction k v es rule: map_set.induct) auto

lemma distinct_map_set [simp]: "distinct (map fst (map_set k v es)) = distinct (map fst es)"
  by (induction k v es rule: map_set.induct) (auto simp: set_map_set)

lemma distinct_map_delete [simp]: "distinct (map fst es) \<Longrightarrow> distinct (map fst (map_delete k es))"
  by (simp add: map_delete_def distinct_map_filter)

text \<open>Dropping entries by a test on key and value, when keys are distinct.\<close>

lemma map_of_filter_keys:
  "distinct (map fst es) \<Longrightarrow> map_of (filter P es) k = (case map_of es k of None \<Rightarrow> None | Some v \<Rightarrow> if P (k, v) then Some v else None)"
proof (induction es)
  case (Cons e es)
  have "k \<notin> fst ` set es \<Longrightarrow> map_of es k = None" by (simp add: map_of_eq_None_iff)
  with Cons show ?case by (cases e) (auto split: option.splits)
qed simp

subsection \<open>Expiring entries\<close>

text \<open>
  Times are milliseconds. A time to live in seconds may have a fraction (a timeout in milliseconds
  divided by 1000), so it is held in thousandths of a second.
\<close>

record 'v timed =
  payload_of :: 'v
  expiry :: int

definition isAlive :: "int \<Rightarrow> 'v timed option \<Rightarrow> bool" where
  "isAlive now e = (case e of None \<Rightarrow> False | Some x \<Rightarrow> expiry x > now)"

text \<open>Every expired entry is dropped.\<close>

definition sweep_all :: "int \<Rightarrow> 'v timed jmap \<Rightarrow> 'v timed jmap" where
  "sweep_all now es = filter (\<lambda>e. expiry (snd e) > now) es"

text \<open>The first \<open>n\<close> expired entries are dropped.\<close>

fun sweep_evicting :: "nat \<Rightarrow> int \<Rightarrow> 'v timed jmap \<Rightarrow> 'v timed jmap" where
  "sweep_evicting 0 now es = es"
| "sweep_evicting (Suc n) now [] = []"
| "sweep_evicting (Suc n) now (e # es) =
     (if expiry (snd e) \<le> now then sweep_evicting n now es else e # sweep_evicting (Suc n) now es)"

text \<open>The expired among the first \<open>n\<close> entries are dropped.\<close>

definition sweep_visiting :: "nat \<Rightarrow> int \<Rightarrow> 'v timed jmap \<Rightarrow> 'v timed jmap" where
  "sweep_visiting n now es = sweep_all now (take n es) @ drop n es"

text \<open>What a reader sees: the live entries. No sweep changes it.\<close>

definition live :: "int \<Rightarrow> 'v timed jmap \<Rightarrow> string \<Rightarrow> 'v option" where
  "live now es k = (case map_of es k of Some x \<Rightarrow> if expiry x > now then Some (payload_of x) else None | None \<Rightarrow> None)"

lemma isAlive_live: "isAlive now (map_of es k) \<longleftrightarrow> live now es k \<noteq> None"
  by (simp add: isAlive_def live_def split: option.split)

lemma set_sweep_evicting: "set (sweep_evicting n now es) \<subseteq> set es"
  by (induction n now es rule: sweep_evicting.induct) auto

lemma sweep_distinct [simp]:
  "distinct (map fst es) \<Longrightarrow> distinct (map fst (sweep_all now es))"
  "distinct (map fst es) \<Longrightarrow> distinct (map fst (sweep_evicting n now es))"
  "distinct (map fst es) \<Longrightarrow> distinct (map fst (sweep_visiting n now es))"
proof -
  show "distinct (map fst es) \<Longrightarrow> distinct (map fst (sweep_all now es))" for es :: "'a timed jmap"
    by (simp add: sweep_all_def distinct_map_filter)
  show "distinct (map fst es) \<Longrightarrow> distinct (map fst (sweep_evicting n now es))"
  proof (induction n now es rule: sweep_evicting.induct)
    case (3 n now e es)
    then show ?case using set_sweep_evicting [of "Suc n" now es] by auto
  qed simp_all
  assume "distinct (map fst es)"
  then have "distinct (map fst (take n es @ drop n es))" by simp
  then show "distinct (map fst (sweep_visiting n now es))"
    unfolding map_append distinct_append sweep_visiting_def
    by (auto simp: sweep_all_def distinct_map_filter)
qed

lemma live_sweep_all [simp]: "distinct (map fst es) \<Longrightarrow> live now (sweep_all now es) = live now es"
  by (auto simp: live_def sweep_all_def fun_eq_iff map_of_filter_keys split: option.split)

lemma live_sweep_evicting [simp]: "distinct (map fst es) \<Longrightarrow> live now (sweep_evicting n now es) = live now es"
proof (induction n now es rule: sweep_evicting.induct)
  case (3 n now e es)
  have "live now es (fst e) = None" if "distinct (map fst (e # es))"
    using that map_of_eq_None_iff [of es "fst e"] by (simp add: live_def)
  with 3 show ?case by (cases e) (auto simp: live_def fun_eq_iff)
qed simp_all

lemma live_append: "live now (es @ fs) k = (case map_of es k of None \<Rightarrow> live now fs k | Some x \<Rightarrow> live now es k)"
  by (simp add: live_def map_add_def split: option.split)

lemma live_sweep_front:
  assumes "distinct (map fst (a @ b))"
  shows "live now (sweep_all now a @ b) k = live now (a @ b) k"
proof (cases "map_of a k")
  case None
  then have "map_of (sweep_all now a) k = None" using assms by (simp add: sweep_all_def map_of_filter_keys)
  with None show ?thesis by (simp add: live_append)
next
  case (Some x)
  then have "k \<in> fst ` set a" by (metis domI dom_map_of_conv_image_fst)
  then have "map_of b k = None" using assms by (auto simp: map_of_eq_None_iff)
  moreover have "map_of (sweep_all now a) k = (if expiry x > now then Some x else None)"
    using Some assms by (simp add: sweep_all_def map_of_filter_keys)
  ultimately show ?thesis using Some by (simp add: live_def map_add_def)
qed

lemma live_sweep_visiting [simp]: "distinct (map fst es) \<Longrightarrow> live now (sweep_visiting n now es) = live now es"
  using live_sweep_front [of "take n es" "drop n es" now] by (auto simp: sweep_visiting_def)

lemma live_map_set [simp]: "live now (map_set k x es) = (live now es)(k := if expiry x > now then Some (payload_of x) else None)"
  by (auto simp: live_def fun_eq_iff)

lemma live_map_delete [simp]: "live now (map_delete k es) = (live now es)(k := None)"
  by (auto simp: live_def fun_eq_iff)

lemma live_later: "now \<le> later \<Longrightarrow> live later es k = Some v \<Longrightarrow> live now es k = Some v"
  by (auto simp: live_def split: option.splits if_splits)

end
