(* ===== verification/Stores.thy ===== *)
theory Stores
  imports JsMap Claiming JsValue
begin

text \<open>
  The stores of packages/adapter-core/src/persistence.ts: the combined defer store, the confirmation
  store, the burn store of single-use capabilities, the budget store, the memory store with its
  compare-and-set, and the contamination store. Each in-memory store is a state with one function per
  operation, which takes the reading of the clock; an operation runs without interruption, so it reads
  one time. The clients of the defer store and of the budget store see it through the Redis interfaces.
\<close>

definition SWEEP_BATCH :: nat where
  "SWEEP_BATCH = 50"

subsection \<open>The Redis interfaces\<close>

record 'w DeferRedis =
  rd_get :: "string \<Rightarrow> ('w, string option) eff"
  rd_setNX :: "string \<Rightarrow> string \<Rightarrow> int \<Rightarrow> ('w, string option) eff"
  rd_del :: "string \<Rightarrow> ('w, unit) eff"
  rd_incr :: "(string \<Rightarrow> ('w, int) eff) option"
  rd_decr :: "(string \<Rightarrow> ('w, int) eff) option"
  rd_expire :: "(string \<Rightarrow> int \<Rightarrow> ('w, unit) eff) option"

record 'w ParkRedis =
  pk_incr :: "string \<Rightarrow> ('w, int) eff"
  pk_decr :: "string \<Rightarrow> ('w, int) eff"
  pk_expire :: "string \<Rightarrow> int \<Rightarrow> ('w, unit) eff"
  pk_set :: "string \<Rightarrow> string \<Rightarrow> int \<Rightarrow> ('w, string option) eff"
  pk_evalIncrCheck :: "(string \<Rightarrow> int \<Rightarrow> int \<Rightarrow> ('w, int) eff) option"

subsection \<open>The in-memory defer store\<close>

record DeferStore =
  ds_store :: "string timed jmap"
  ds_counters :: "string \<rightharpoonup> int"
  ds_counterExpiry :: "string \<rightharpoonup> int"

definition emptyDeferStore :: DeferStore where
  "emptyDeferStore = \<lparr>ds_store = [], ds_counters = Map.empty, ds_counterExpiry = Map.empty\<rparr>"

definition ds_count :: "DeferStore \<Rightarrow> string \<Rightarrow> int" where
  "ds_count s key = (case ds_counters s key of None \<Rightarrow> 0 | Some n \<Rightarrow> n)"

definition setRaw :: "int \<Rightarrow> string \<Rightarrow> string \<Rightarrow> bool \<Rightarrow> int \<Rightarrow> DeferStore \<Rightarrow> string option \<times> DeferStore" where
  "setRaw now key value nx ex s =
     (let swept = sweep_evicting SWEEP_BATCH now (ds_store s) in
      if nx \<and> isAlive now (map_of swept key) then (None, s\<lparr>ds_store := swept\<rparr>)
      else (Some ''OK'', s\<lparr>ds_store := map_set key \<lparr>payload_of = value, expiry = now + ex\<rparr> swept\<rparr>))"

definition ds_get :: "int \<Rightarrow> string \<Rightarrow> DeferStore \<Rightarrow> string option \<times> DeferStore" where
  "ds_get now key s = (case map_of (ds_store s) key of
       None \<Rightarrow> (None, s)
     | Some e \<Rightarrow> if isAlive now (Some e) then (Some (payload_of e), s)
         else (None, s\<lparr>ds_store := map_delete key (ds_store s)\<rparr>))"

definition ds_del :: "string \<Rightarrow> DeferStore \<Rightarrow> DeferStore" where
  "ds_del key s = \<lparr>ds_store = map_delete key (ds_store s), ds_counters = (ds_counters s)(key := None),
     ds_counterExpiry = (ds_counterExpiry s)(key := None)\<rparr>"

definition ds_incr :: "string \<Rightarrow> DeferStore \<Rightarrow> int \<times> DeferStore" where
  "ds_incr key s = (let n = ds_count s key + 1 in (n, s\<lparr>ds_counters := (ds_counters s)(key \<mapsto> n)\<rparr>))"

definition ds_decr :: "string \<Rightarrow> DeferStore \<Rightarrow> int \<times> DeferStore" where
  "ds_decr key s = (let n = ds_count s key - 1 in
     if n \<le> 0 then (0, s\<lparr>ds_counters := (ds_counters s)(key := None)\<rparr>)
     else (n, s\<lparr>ds_counters := (ds_counters s)(key \<mapsto> n)\<rparr>))"

definition ds_expire :: "int \<Rightarrow> string \<Rightarrow> int \<Rightarrow> DeferStore \<Rightarrow> int \<times> DeferStore" where
  "ds_expire now key seconds s = (case map_of (ds_store s) key of
       None \<Rightarrow> (0, s)
     | Some e \<Rightarrow> (1, s\<lparr>ds_store := map_set key (e\<lparr>expiry := now + seconds\<rparr>) (ds_store s)\<rparr>))"

definition ds_evalIncrCheck :: "int \<Rightarrow> string \<Rightarrow> int \<Rightarrow> int \<Rightarrow> DeferStore \<Rightarrow> int \<times> DeferStore" where
  "ds_evalIncrCheck now key ttl limit s =
     (let base = (case ds_counterExpiry s key of Some t \<Rightarrow> if t \<le> now then 0 else ds_count s key | None \<Rightarrow> ds_count s key);
          n = base + 1
      in if n > limit then (0, s\<lparr>ds_counters := (ds_counters s)(key \<mapsto> base)\<rparr>)
         else (n, s\<lparr>ds_counters := (ds_counters s)(key \<mapsto> n), ds_counterExpiry := (ds_counterExpiry s)(key \<mapsto> now + ttl)\<rparr>))"

text \<open>An operation on a state as an effect of a world that holds the state and has a clock.\<close>

definition stateE :: "('w \<Rightarrow> 's) \<Rightarrow> ('s \<Rightarrow> 'w \<Rightarrow> 'w) \<Rightarrow> ('w \<Rightarrow> 's \<Rightarrow> 'a \<times> 's) \<Rightarrow> ('w, 'a) eff" where
  "stateE getS putS f = (\<lambda>w. case f w (getS w) of (x, s) \<Rightarrow> (Inr x, putS s w))"

definition createInMemoryDeferStore ::
  "('w \<Rightarrow> DeferStore) \<Rightarrow> (DeferStore \<Rightarrow> 'w \<Rightarrow> 'w) \<Rightarrow> ('w \<Rightarrow> int) \<Rightarrow> 'w DeferRedis \<times> 'w ParkRedis" where
  "createInMemoryDeferStore getS putS clock =
     (let incr = (\<lambda>k. stateE getS putS (\<lambda>_. ds_incr k)); decr = (\<lambda>k. stateE getS putS (\<lambda>_. ds_decr k));
          expire = (\<lambda>k t. stateE getS putS (\<lambda>w s. ((), snd (ds_expire (clock w) k t s))))
      in (\<lparr>rd_get = (\<lambda>k. stateE getS putS (\<lambda>w. ds_get (clock w) k)),
           rd_setNX = (\<lambda>k v ex. stateE getS putS (\<lambda>w. setRaw (clock w) k v True ex)),
           rd_del = (\<lambda>k. stateE getS putS (\<lambda>_ s. ((), ds_del k s))),
           rd_incr = Some incr, rd_decr = Some decr, rd_expire = Some expire\<rparr>,
          \<lparr>pk_incr = incr, pk_decr = decr, pk_expire = expire,
           pk_set = (\<lambda>k v ex. stateE getS putS (\<lambda>w. setRaw (clock w) k v False ex)),
           pk_evalIncrCheck = Some (\<lambda>k ttl limit. stateE getS putS (\<lambda>w. ds_evalIncrCheck (clock w) k ttl limit))\<rparr>))"

subsection \<open>Confirmations and single-use grants\<close>

text \<open>A store that hands out each entry at most once: the state of both stores.\<close>

definition cs_put :: "int \<Rightarrow> string \<Rightarrow> 'p \<Rightarrow> int \<Rightarrow> 'p timed jmap \<Rightarrow> 'p timed jmap" where
  "cs_put now token pending ttl s = map_set token \<lparr>payload_of = pending, expiry = now + ttl\<rparr> (sweep_all now s)"

definition cs_take :: "int \<Rightarrow> string \<Rightarrow> 'p timed jmap \<Rightarrow> 'p option \<times> 'p timed jmap" where
  "cs_take now token s = (case map_of s token of
       None \<Rightarrow> (None, s)
     | Some e \<Rightarrow> (if expiry e \<le> now then None else Some (payload_of e), map_delete token s))"

definition bs_mint :: "int \<Rightarrow> string \<Rightarrow> 'r \<Rightarrow> int \<Rightarrow> 'r timed jmap \<Rightarrow> bool \<times> 'r timed jmap" where
  "bs_mint now nonce rec ttl s =
     (let swept = sweep_all now s in
      if isAlive now (map_of swept nonce) then (False, swept)
      else (True, map_set nonce \<lparr>payload_of = rec, expiry = now + ttl\<rparr> swept))"

definition bs_burn :: "int \<Rightarrow> string \<Rightarrow> 'r timed jmap \<Rightarrow> 'r option \<times> 'r timed jmap" where
  "bs_burn now nonce s = (case map_of s nonce of
       None \<Rightarrow> (None, s)
     | Some e \<Rightarrow> (if expiry e \<le> now then None else Some (payload_of e), map_delete nonce s))"

record ('w, 'p) ConfirmationStore =
  cfs_put :: "string \<Rightarrow> 'p \<Rightarrow> int \<Rightarrow> ('w, unit) eff"
  cfs_take :: "string \<Rightarrow> ('w, 'p option) eff"

record ('w, 'r) BurnStore =
  mint :: "string \<Rightarrow> 'r \<Rightarrow> int \<Rightarrow> ('w, bool) eff"
  burn :: "string \<Rightarrow> ('w, 'r option) eff"

definition createInMemoryConfirmationStore ::
  "('w \<Rightarrow> 'p timed jmap) \<Rightarrow> ('p timed jmap \<Rightarrow> 'w \<Rightarrow> 'w) \<Rightarrow> ('w \<Rightarrow> int) \<Rightarrow> ('w, 'p) ConfirmationStore" where
  "createInMemoryConfirmationStore getS putS clock =
     \<lparr>cfs_put = (\<lambda>t p ttl. stateE getS putS (\<lambda>w s. ((), cs_put (clock w) t p ttl s))),
      cfs_take = (\<lambda>t. stateE getS putS (\<lambda>w. cs_take (clock w) t))\<rparr>"

definition createInMemoryBurnStore ::
  "('w \<Rightarrow> 'r timed jmap) \<Rightarrow> ('r timed jmap \<Rightarrow> 'w \<Rightarrow> 'w) \<Rightarrow> ('w \<Rightarrow> int) \<Rightarrow> ('w, 'r) BurnStore" where
  "createInMemoryBurnStore getS putS clock =
     \<lparr>mint = (\<lambda>n r ttl. stateE getS putS (\<lambda>w. bs_mint (clock w) n r ttl)),
      burn = (\<lambda>n. stateE getS putS (\<lambda>w. bs_burn (clock w) n))\<rparr>"

subsection \<open>The budget store\<close>

definition budget_key :: "string \<Rightarrow> string \<Rightarrow> string" where
  "budget_key budgetId intentKind = ''budget:'' @ budgetId @ '':'' @ intentKind"

type_synonym 'w BudgetStore = "string \<Rightarrow> string \<Rightarrow> int \<Rightarrow> int \<Rightarrow> ('w, bool) eff"

text \<open>\<open>tryBurnDown\<close> of the store made from a client; a client without the atomic primitive is refused.\<close>

definition createBudgetStore :: "'w ParkRedis \<Rightarrow> (string \<Rightarrow> string) option \<Rightarrow> 'w BudgetStore result" where
  "createBudgetStore client keyFor = (case pk_evalIncrCheck client of
       None \<Rightarrow> Inl (ErrorObj ''Error''
         (''[adjudicate] createBudgetStore requires an atomic `evalIncrCheck` Lua ''
          @ ''primitive - a single-use-counted budget store has no safe non-atomic ''
          @ ''fallback (a bare INCR->check->DECR would re-introduce the over-grant race).''))
     | Some evalIncrCheck \<Rightarrow> Inr (\<lambda>budgetId intentKind limit windowSeconds.
         bindE (evalIncrCheck ((case keyFor of None \<Rightarrow> id | Some f \<Rightarrow> f) (budget_key budgetId intentKind)) windowSeconds limit)
           (\<lambda>n. retE (n \<noteq> 0))))"

subsection \<open>The memory store\<close>

record 'm versioned =
  vm_value :: 'm
  vm_version :: nat

type_synonym 'm memory = "'m versioned timed jmap"

record MemoryOptions =
  defaultTtlSeconds :: "int option"
  maxEntries :: "nat option"
  mo_keyFor :: "(string \<Rightarrow> string) option"

definition mo_key :: "MemoryOptions \<Rightarrow> string \<Rightarrow> string" where
  "mo_key opts = (case mo_keyFor opts of None \<Rightarrow> id | Some f \<Rightarrow> f)"

text \<open>\<open>ttlSeconds || defaultTtl\<close>, in thousandths of a second.\<close>

definition mo_ttl :: "MemoryOptions \<Rightarrow> int \<Rightarrow> int" where
  "mo_ttl opts ttl = (if ttl \<noteq> 0 then ttl else case defaultTtlSeconds opts of Some t \<Rightarrow> t | None \<Rightarrow> 24 * 60 * 60 * 1000)"

definition evictIfNeeded :: "MemoryOptions \<Rightarrow> 'm memory \<Rightarrow> 'm memory" where
  "evictIfNeeded opts s = (case maxEntries opts of None \<Rightarrow> s | Some n \<Rightarrow> drop (length s - n) s)"

text \<open>A read of a live entry moves it to the end.\<close>

definition readLive :: "int \<Rightarrow> string \<Rightarrow> 'm memory \<Rightarrow> 'm versioned timed option \<times> 'm memory" where
  "readLive now key s = (case map_of s key of
       None \<Rightarrow> (None, s)
     | Some e \<Rightarrow> if expiry e \<le> now then (None, map_delete key s)
         else (Some e, map_set key e (map_delete key s)))"

definition ms_get :: "MemoryOptions \<Rightarrow> int \<Rightarrow> string \<Rightarrow> 'm memory \<Rightarrow> 'm option \<times> 'm memory" where
  "ms_get opts now sessionId s = (case readLive now (mo_key opts sessionId) s of
     (e, s') \<Rightarrow> (map_option (\<lambda>x. vm_value (payload_of x)) e, s'))"

definition ms_put :: "MemoryOptions \<Rightarrow> int \<Rightarrow> string \<Rightarrow> 'm \<Rightarrow> int \<Rightarrow> 'm memory \<Rightarrow> 'm memory" where
  "ms_put opts now sessionId value ttl s =
     (let swept = sweep_visiting SWEEP_BATCH now s; key = mo_key opts sessionId;
          prev = (case map_of swept key of None \<Rightarrow> 0 | Some e \<Rightarrow> vm_version (payload_of e))
      in evictIfNeeded opts (map_set key
           \<lparr>payload_of = \<lparr>vm_value = value, vm_version = prev + 1\<rparr>, expiry = now + mo_ttl opts ttl\<rparr> (map_delete key swept)))"

definition ms_merge :: "MemoryOptions \<Rightarrow> int \<Rightarrow> string \<Rightarrow> js \<Rightarrow> int \<Rightarrow> js memory \<Rightarrow> js \<times> js memory" where
  "ms_merge opts now sessionId patch ttl s =
     (case ms_get opts now sessionId s of (cur, s') \<Rightarrow>
        let base = (case cur of None \<Rightarrow> Obj [] | Some Null \<Rightarrow> Obj [] | Some Undef \<Rightarrow> Obj [] | Some v \<Rightarrow> v);
            merged = Obj (foldl own_put (foldl own_put [] (spread base)) (spread patch))
        in (merged, ms_put opts now sessionId merged ttl s'))"

definition ms_getVersioned :: "MemoryOptions \<Rightarrow> int \<Rightarrow> string \<Rightarrow> 'm memory \<Rightarrow> ('m option \<times> nat) \<times> 'm memory" where
  "ms_getVersioned opts now sessionId s = (case readLive now (mo_key opts sessionId) s of
     (None, s') \<Rightarrow> ((None, 0), s')
   | (Some e, s') \<Rightarrow> ((Some (vm_value (payload_of e)), vm_version (payload_of e)), s'))"

definition ms_putIfVersion ::
  "MemoryOptions \<Rightarrow> int \<Rightarrow> string \<Rightarrow> 'm \<Rightarrow> nat \<Rightarrow> int \<Rightarrow> 'm memory \<Rightarrow> nat option \<times> 'm memory" where
  "ms_putIfVersion opts now sessionId value expected ttl s =
     (let key = mo_key opts sessionId in
      case readLive now key (sweep_visiting SWEEP_BATCH now s) of (e, s') \<Rightarrow>
        let current = (case e of None \<Rightarrow> 0 | Some x \<Rightarrow> vm_version (payload_of x)) in
        if current \<noteq> expected then (None, s')
        else (Some (current + 1), evictIfNeeded opts (map_set key
           \<lparr>payload_of = \<lparr>vm_value = value, vm_version = current + 1\<rparr>, expiry = now + mo_ttl opts ttl\<rparr> (map_delete key s'))))"

subsection \<open>The contamination store\<close>

record ContaminationOptions =
  co_defaultTtlSeconds :: "int option"
  co_keyFor :: "(string \<Rightarrow> string) option"

definition sc_get :: "ContaminationOptions \<Rightarrow> int \<Rightarrow> string \<Rightarrow> 'c timed jmap \<Rightarrow> 'c option \<times> 'c timed jmap" where
  "sc_get opts now sessionId s = (let key = (case co_keyFor opts of None \<Rightarrow> sessionId | Some f \<Rightarrow> f sessionId) in
     case map_of s key of
       None \<Rightarrow> (None, s)
     | Some e \<Rightarrow> if expiry e \<le> now then (None, map_delete key s) else (Some (payload_of e), s))"

definition sc_put :: "ContaminationOptions \<Rightarrow> int \<Rightarrow> string \<Rightarrow> 'c \<Rightarrow> int \<Rightarrow> 'c timed jmap \<Rightarrow> 'c timed jmap" where
  "sc_put opts now sessionId value ttl s =
     map_set (case co_keyFor opts of None \<Rightarrow> sessionId | Some f \<Rightarrow> f sessionId)
       \<lparr>payload_of = value, expiry = now + (if ttl \<noteq> 0 then ttl
          else case co_defaultTtlSeconds opts of Some t \<Rightarrow> t | None \<Rightarrow> 24 * 60 * 60 * 1000)\<rparr>
       (sweep_visiting SWEEP_BATCH now s)"

definition sc_clear :: "ContaminationOptions \<Rightarrow> string \<Rightarrow> 'c timed jmap \<Rightarrow> 'c timed jmap" where
  "sc_clear opts sessionId s = map_delete (case co_keyFor opts of None \<Rightarrow> sessionId | Some f \<Rightarrow> f sessionId) s"

subsection \<open>The stores refine maps of expiring entries\<close>

text \<open>What can be seen of a map of entries at a time and later.\<close>

definition sees :: "int \<Rightarrow> (string \<rightharpoonup> 'v timed) \<Rightarrow> string \<rightharpoonup> 'v timed" where
  "sees now m = (\<lambda>k. case m k of Some e \<Rightarrow> if expiry e > now then Some e else None | None \<Rightarrow> None)"

lemma sees_later: "sees now m = sees now m' \<Longrightarrow> now \<le> later \<Longrightarrow> sees later m = sees later m'"
proof
  fix k
  assume a: "sees now m = sees now m'" "now \<le> later"
  from fun_cong [OF a(1), of k] a(2) show "sees later m k = sees later m' k"
    by (auto simp: sees_def split: option.splits if_splits)
qed

lemma sees_sweep_all: "distinct (map fst s) \<Longrightarrow> sees now (map_of (sweep_all now s)) = sees now (map_of s)"
  by (auto simp: sees_def sweep_all_def fun_eq_iff map_of_filter_keys split: option.split)

lemma isAlive_sees: "isAlive now (m k) \<longleftrightarrow> sees now m k \<noteq> None"
  by (simp add: isAlive_def sees_def split: option.split)

lemma sees_upd: "sees now (m(k \<mapsto> e)) = (sees now m)(k := if expiry e > now then Some e else None)"
  "sees now (m(k := None)) = (sees now m)(k := None)"
  by (auto simp: sees_def fun_eq_iff)

text \<open>
  The specification of a burn store: a map, with no sweeping. \<open>Mint\<close> succeeds when no live grant has
  the nonce; \<open>Burn\<close> hands out the live grant and removes it.
\<close>

datatype 'r burn_op = Mint string 'r int | Burn string
datatype 'r burn_out = Minted bool | Burned "'r option"

fun grant_step :: "int \<Rightarrow> 'r burn_op \<Rightarrow> (string \<rightharpoonup> 'r timed) \<Rightarrow> 'r burn_out \<times> (string \<rightharpoonup> 'r timed)" where
  "grant_step now (Mint n r ttl) G = (if sees now G n \<noteq> None then (Minted False, G)
     else (Minted True, G(n \<mapsto> \<lparr>payload_of = r, expiry = now + ttl\<rparr>)))"
| "grant_step now (Burn n) G = (Burned (map_option payload_of (sees now G n)), G(n := None))"

fun store_step :: "int \<Rightarrow> 'r burn_op \<Rightarrow> 'r timed jmap \<Rightarrow> 'r burn_out \<times> 'r timed jmap" where
  "store_step now (Mint n r ttl) s = map_prod Minted id (bs_mint now n r ttl s)"
| "store_step now (Burn n) s = map_prod Burned id (bs_burn now n s)"

fun outputs :: "(int \<Rightarrow> 'op \<Rightarrow> 's \<Rightarrow> 'o \<times> 's) \<Rightarrow> (int \<times> 'op) list \<Rightarrow> 's \<Rightarrow> 'o list" where
  "outputs step [] s = []"
| "outputs step ((t, x) # ops) s = (case step t x s of (y, s') \<Rightarrow> y # outputs step ops s')"

definition refines :: "int \<Rightarrow> 'v timed jmap \<Rightarrow> (string \<rightharpoonup> 'v timed) \<Rightarrow> bool" where
  "refines now s G \<longleftrightarrow> distinct (map fst s) \<and> sees now (map_of s) = sees now G"

lemma refines_later: "refines now s G \<Longrightarrow> now \<le> later \<Longrightarrow> refines later s G"
  using sees_later by (auto simp: refines_def)

text \<open>One step of the store is one step of the specification.\<close>

lemma burn_store_step:
  assumes "refines now s G" "store_step now x s = (y, s')" "grant_step now x G = (y', G')"
  shows "y = y' \<and> refines now s' G'"
proof (cases x)
  case (Mint n r ttl)
  with assms sees_sweep_all [of s now] show ?thesis
    by (auto simp: refines_def bs_mint_def Let_def isAlive_sees sees_upd map_prod_def split: if_splits)
next
  case (Burn n)
  have eq: "sees now (map_of s) = sees now G" and d: "distinct (map fst s)" using assms(1) by (simp_all add: refines_def)
  have G': "y' = Burned (map_option payload_of (sees now G n))" "sees now G' = (sees now G)(n := None)"
    using Burn assms(3) by (auto simp: sees_upd)
  have "y = Burned (map_option payload_of (sees now (map_of s) n)) \<and> sees now (map_of s') = (sees now (map_of s))(n := None)
      \<and> distinct (map fst s')"
  proof (cases "map_of s n")
    case None
    then have "sees now (map_of s) n = None" by (simp add: sees_def)
    with None Burn assms(2) d show ?thesis by (auto simp: bs_burn_def)
  next
    case (Some e)
    with Burn assms(2) d show ?thesis by (auto simp: bs_burn_def sees_upd) (simp_all add: sees_def)
  qed
  with eq G' show ?thesis by (simp add: refines_def)
qed

lemma outputs_refine:
  assumes "refines now s G" "sorted (map fst ops)" "list_all (\<lambda>(t, x). now \<le> t) ops"
  shows "outputs store_step ops s = outputs grant_step ops G"
  using assms
proof (induction ops arbitrary: now s G)
  case (Cons e ops)
  obtain t x where e: "e = (t, x)" by (cases e)
  obtain y s' where st: "store_step t x s = (y, s')" by (cases "store_step t x s")
  obtain y' G' where gr: "grant_step t x G = (y', G')" by (cases "grant_step t x G")
  have "refines t s G" using refines_later Cons.prems(1,3) e by auto
  from burn_store_step [OF this st gr] have "y = y'" "refines t s' G'" by simp_all
  moreover have "list_all (\<lambda>(t', x). t \<le> t') ops" using Cons.prems(2) e by (auto simp: list_all_iff)
  ultimately show ?case using Cons.IH [of t s' G'] Cons.prems(2) by (simp add: e st gr)
qed simp

text \<open>C38: the in-memory burn store refines its specification: on any sequence of operations at non-decreasing
  times it answers exactly like a map of grants with expiry, so its sweeping cannot be observed.\<close>

theorem burn_store_refines:
  assumes "sorted (map fst ops)"
  shows "outputs store_step ops [] = outputs grant_step ops Map.empty"
proof (cases ops)
  case (Cons e rest)
  have "refines (fst e) ([] :: 'a timed jmap) Map.empty" by (simp add: refines_def)
  then show ?thesis using assms Cons by (intro outputs_refine [of "fst e"]) (auto simp: list_all_iff)
qed simp

theorem burn_store_refines_witness:
  "outputs store_step [(0, Mint ''n'' (7::nat) 10), (1, Mint ''n'' 8 10), (2, Burn ''n''), (3, Burn ''n''), (3, Mint ''n'' 9 1), (4, Burn ''n'')] []
   = [Minted True, Minted False, Burned (Some 7), Burned None, Minted True, Burned None]"
  by (subst burn_store_refines) (simp_all add: sees_def)

subsection \<open>A grant is redeemed once\<close>

fun minted :: "string \<Rightarrow> ((int \<times> 'r burn_op) \<times> 'r burn_out) list \<Rightarrow> nat" where
  "minted n es = length (filter (\<lambda>((t, x), y). y = Minted True \<and> (\<exists>r ttl. x = Mint n r ttl)) es)"

fun burned :: "string \<Rightarrow> ((int \<times> 'r burn_op) \<times> 'r burn_out) list \<Rightarrow> nat" where
  "burned n es = length (filter (\<lambda>((t, x), y). x = Burn n \<and> (\<exists>r. y = Burned (Some r))) es)"

lemma store_step_count:
  assumes "store_step t x s = (y, s')"
  shows "(if map_of s' n \<noteq> None then 1 else 0) + burned n [((t, x), y)]
    \<le> (if map_of s n \<noteq> None then 1 else 0) + minted n [((t, x), y)]"
proof -
  have sw: "map_of s n = None \<Longrightarrow> map_of (sweep_all t s) n = None" for s :: "'a timed jmap"
    by (auto simp: sweep_all_def map_of_eq_None_iff)
  show ?thesis
  proof (cases x)
    case (Mint m r ttl)
    with assms sw [of s] show ?thesis
      by (auto simp: bs_mint_def Let_def map_prod_def split: if_splits)
  next
    case (Burn m)
    with assms show ?thesis by (auto simp: bs_burn_def map_prod_def split: if_splits option.splits)
  qed
qed

lemma burned_le_minted:
  "burned n (zip ops (outputs store_step ops s)) \<le> (if map_of s n \<noteq> None then 1 else 0) + minted n (zip ops (outputs store_step ops s))"
proof (induction ops arbitrary: s)
  case (Cons e ops)
  obtain t x where e: "e = (t, x)" by (cases e)
  obtain y s' where st: "store_step t x s = (y, s')" by (cases "store_step t x s")
  let ?z = "((t, x), y)" and ?zs = "zip ops (outputs store_step ops s')"
  have "zip (e # ops) (outputs store_step (e # ops) s) = ?z # ?zs" by (simp add: e st)
  moreover have "burned n (?z # ?zs) = burned n [?z] + burned n ?zs" "minted n (?z # ?zs) = minted n [?z] + minted n ?zs"
    by simp_all
  ultimately show ?case using add_mono [OF store_step_count [OF st, of n] Cons.IH [of s']] by (simp del: burned.simps minted.simps)
qed simp

text \<open>Single use: whatever is minted and burned, and whenever, a nonce is burned successfully at most as
  often as it was minted; in particular a capability minted once is redeemed at most once.\<close>

lemma grant_burned_once:
  "burned n (zip ops (outputs store_step ops [])) \<le> minted n (zip ops (outputs store_step ops []))"
  using burned_le_minted [of n ops "[]"] by simp

subsection \<open>Budgets\<close>

text \<open>A burn-down through the budget store made from the in-memory client, at a time.\<close>

definition memory_budget :: "(DeferStore \<times> int) BudgetStore" where
  "memory_budget = projr (createBudgetStore (snd (createInMemoryDeferStore fst (\<lambda>s w. (s, snd w)) snd)) None)"

fun budget_step :: "int \<Rightarrow> string \<times> string \<times> int \<times> int \<Rightarrow> DeferStore \<Rightarrow> bool \<times> DeferStore" where
  "budget_step t (budgetId, kind, limit, window) s =
     (case memory_budget budgetId kind limit window (s, t) of (r, w) \<Rightarrow> (r = Inr True, fst w))"

fun call_key :: "string \<times> string \<times> int \<times> int \<Rightarrow> string" where
  "call_key (budgetId, kind, limit, window) = budget_key budgetId kind"

lemma budget_step_eval:
  "budget_step t (b, k, L, W) s = (case ds_evalIncrCheck t (budget_key b k) W L s of (n, s') \<Rightarrow> (n \<noteq> 0, s'))"
  by (simp add: memory_budget_def createBudgetStore_def createInMemoryDeferStore_def Let_def bindE_def stateE_def retE_def
      split: prod.split)

definition granted :: "string \<Rightarrow> ((int \<times> string \<times> string \<times> int \<times> int) \<times> bool) list \<Rightarrow> nat" where
  "granted key es = length (filter (\<lambda>((t, x), y). call_key x = key \<and> y) es)"

definition asked :: "string \<Rightarrow> (int \<times> string \<times> string \<times> int \<times> int) list \<Rightarrow> nat" where
  "asked key ops = length (filter (\<lambda>(t, x). call_key x = key) ops)"

lemma budget_window:
  assumes "\<And>t b k l w. (t, b, k, l, w) \<in> set ops \<Longrightarrow> budget_key b k = key \<Longrightarrow> l = int L \<and> t0 \<le> t \<and> t < t0 + w \<and> w = W"
    and "ds_count s key = int c" "c \<le> L" "\<And>x. ds_counterExpiry s key = Some x \<Longrightarrow> t0 + W \<le> x"
  shows "c + granted key (zip ops (outputs budget_step ops s)) = min L (c + asked key ops)"
  using assms
proof (induction ops arbitrary: s c)
  case Nil
  then show ?case by (simp add: granted_def asked_def)
next
  case (Cons e ops)
  obtain t b k l w where e: "e = (t, b, k, l, w)" by (cases e)
  obtain n s' where ev: "ds_evalIncrCheck t (budget_key b k) w l s = (n, s')" by (cases "ds_evalIncrCheck t (budget_key b k) w l s")
  have split: "granted key (zip (e # ops) (outputs budget_step (e # ops) s))
      = (if budget_key b k = key \<and> n \<noteq> 0 then 1 else 0) + granted key (zip ops (outputs budget_step ops s'))"
    "asked key (e # ops) = (if budget_key b k = key then 1 else 0) + asked key ops"
    by (simp_all add: e budget_step_eval ev granted_def asked_def del: budget_step.simps)
  have IH: "c' + granted key (zip ops (outputs budget_step ops s')) = min L (c' + asked key ops)"
    if "ds_count s' key = int c'" "c' \<le> L" "\<And>x. ds_counterExpiry s' key = Some x \<Longrightarrow> t0 + W \<le> x" for c'
    by (rule Cons.IH [OF Cons.prems(1) that]) simp_all
  show ?case
  proof (cases "budget_key b k = key")
    case False
    then have "ds_count s' key = ds_count s key" "ds_counterExpiry s' key = ds_counterExpiry s key"
      using ev by (auto simp: ds_evalIncrCheck_def Let_def ds_count_def split: if_splits)
    with IH [of c] Cons.prems(2-4) False split show ?thesis by simp
  next
    case True
    with Cons.prems(1) [of t b k l w] e have l: "l = int L" "t0 \<le> t" "t < t0 + W" "w = W" by auto
    have base: "(case ds_counterExpiry s key of Some x \<Rightarrow> if x \<le> t then 0 else ds_count s key | None \<Rightarrow> ds_count s key) = int c"
      using Cons.prems(2,4) l by (auto split: option.split)
    show ?thesis
    proof (cases "c < L")
      case less: True
      then have "n = int (Suc c)" "ds_count s' key = int (Suc c)" "ds_counterExpiry s' key = Some (t + W)"
        using ev True base l by (auto simp: ds_evalIncrCheck_def Let_def ds_count_def split: if_splits)
      with IH [of "Suc c"] less l True split show ?thesis by simp
    next
      case no: False
      then have "n = 0" "ds_count s' key = int c" "ds_counterExpiry s' key = ds_counterExpiry s key"
        using ev True base l Cons.prems(3) by (auto simp: ds_evalIncrCheck_def Let_def ds_count_def split: if_splits)
      with IH [of c] no Cons.prems(3,4) True split show ?thesis by simp
    qed
  qed
qed

text \<open>C39: a budget is never overspent and never underspent: of the burn-downs of one grant inside a window, made in
  any order and mixed with those of other grants, exactly the first \<open>limit\<close> are granted, or all of
  them when there are fewer.\<close>

theorem budget_exact:
  assumes "\<And>t b k l w. (t, b, k, l, w) \<in> set ops \<Longrightarrow> budget_key b k = key \<Longrightarrow> l = int L \<and> t0 \<le> t \<and> t < t0 + w \<and> w = W"
  shows "granted key (zip ops (outputs budget_step ops emptyDeferStore)) = min L (asked key ops)"
  using budget_window [of ops key L t0 W emptyDeferStore 0, OF assms] by (simp add: emptyDeferStore_def ds_count_def)

theorem budget_exact_witness:
  "granted ''budget:b:pay'' (zip [(0, ''b'', ''pay'', 1, 9), (1, ''b'', ''read'', 1, 9), (2, ''b'', ''pay'', 1, 9)]
     (outputs budget_step [(0, ''b'', ''pay'', 1, 9), (1, ''b'', ''read'', 1, 9), (2, ''b'', ''pay'', 1, 9)] emptyDeferStore)) = 1"
  by (subst budget_exact [where L = 1 and W = 9 and ?t0.0 = 0]) (auto simp: asked_def budget_key_def)

text \<open>Two grants share a counter when a separator in the identifier of one moves the boundary.\<close>

lemma budget_keys_collide: "budget_key ''a:b'' ''c'' = budget_key ''a'' ''b:c''"
  by (simp add: budget_key_def)

subsection \<open>Compare-and-set\<close>

lemma sees_sweep_visiting: "distinct (map fst s) \<Longrightarrow> live now (sweep_visiting n now s) = live now s"
  by simp

lemma readLive_live:
  "readLive now key s = (e, s') \<Longrightarrow> map_option payload_of e = live now s key \<and> (distinct (map fst s) \<longrightarrow> distinct (map fst s'))
     \<and> live now s' = live now s"
  by (auto simp: readLive_def live_def fun_eq_iff split: option.splits if_splits)
    (metis eq_commute)+

text \<open>
  The memory store answers from the live entries: \<open>putIfVersion\<close> writes exactly if the version of the
  live entry, 0 without one, is the expected one, so of two writers that read the same version the
  second is told to retry.
\<close>

lemma putIfVersion_cas:
  assumes "distinct (map fst s)" "maxEntries opts = None" "ms_putIfVersion opts now sid v expected ttl s = (r, s')"
  shows "(r \<noteq> None) = (expected = (case live now s (mo_key opts sid) of None \<Rightarrow> 0 | Some x \<Rightarrow> vm_version x))"
    and "r = Some n \<Longrightarrow> n = expected + 1 \<and> live now s' = (live now s)(mo_key opts sid :=
        if mo_ttl opts ttl > 0 then Some \<lparr>vm_value = v, vm_version = n\<rparr> else None)"
proof -
  let ?key = "mo_key opts sid" and ?sw = "sweep_visiting SWEEP_BATCH now s"
  obtain e q where rl: "readLive now ?key ?sw = (e, q)" by (cases "readLive now ?key ?sw")
  from readLive_live [OF rl] assms(1) have e: "map_option payload_of e = live now s ?key" "live now q = live now s"
    by simp_all
  have cur: "(case e of None \<Rightarrow> 0 | Some x \<Rightarrow> vm_version (payload_of x))
      = (case live now s ?key of None \<Rightarrow> 0 | Some x \<Rightarrow> vm_version x)"
    unfolding e(1) [symmetric] by (cases e) simp_all
  note def = assms(3) [unfolded ms_putIfVersion_def Let_def rl prod.case cur evictIfNeeded_def assms(2) option.case(1)]
  show "(r \<noteq> None) = (expected = (case live now s ?key of None \<Rightarrow> 0 | Some x \<Rightarrow> vm_version x))"
    using def by (auto split: if_splits)
  show "r = Some n \<Longrightarrow> n = expected + 1 \<and> live now s' = (live now s)(?key :=
      if mo_ttl opts ttl > 0 then Some \<lparr>vm_value = v, vm_version = n\<rparr> else None)"
    using def e(2) by (auto split: if_splits)
qed

lemma second_writer_conflicts:
  assumes "distinct (map fst s)" "maxEntries opts = None" "mo_ttl opts ttl > 0"
    and "ms_putIfVersion opts now sid v expected ttl s = (Some n, s')" "distinct (map fst s')"
  shows "fst (ms_putIfVersion opts now sid v' expected ttl' s') = None"
proof -
  have "live now s' (mo_key opts sid) = Some \<lparr>vm_value = v, vm_version = expected + 1\<rparr>"
    using putIfVersion_cas(2) [OF assms(1,2,4)] assms(3) by simp
  with putIfVersion_cas(1) [OF assms(5,2), of now sid v' expected ttl'] show ?thesis
    by (cases "ms_putIfVersion opts now sid v' expected ttl' s'") auto
qed

subsection \<open>The contract of the token store\<close>

text \<open>
  What the resumption of deferred intents relies on: \<open>keys w\<close> are the keys present. A set-if-absent that
  answers \<open>OK\<close> found the key absent and leaves it present; no operation removes a key other than its own.
\<close>

locale token_store =
  fixes R :: "'w DeferRedis" and keys :: "'w \<Rightarrow> string set"
  assumes get_keeps: "keys w \<subseteq> keys (snd (rd_get R k w))"
    and setNX_acquires: "0 < ttl \<Longrightarrow> rd_setNX R k v ttl w = (Inr (Some ''OK''), w') \<Longrightarrow> k \<notin> keys w \<and> insert k (keys w) \<subseteq> keys w'"
    and setNX_keeps: "keys w \<subseteq> keys (snd (rd_setNX R k v ttl w))"
    and del_keeps: "keys w - {k} \<subseteq> keys (snd (rd_del R k w))"
    and incr_keeps: "rd_incr R = Some f \<Longrightarrow> keys w \<subseteq> keys (snd (f k w))"
    and decr_keeps: "rd_decr R = Some f \<Longrightarrow> keys w \<subseteq> keys (snd (f k w))"
    and expire_keeps: "rd_expire R = Some g \<Longrightarrow> keys w - {k} \<subseteq> keys (snd (g k t w))"

definition live_keys :: "DeferStore \<times> int \<Rightarrow> string set" where
  "live_keys w = {k. live (snd w) (ds_store (fst w)) k \<noteq> None}"

lemma live_sweep_keeps: "live now es k = Some v \<Longrightarrow> live now (sweep_evicting n now es) k = Some v"
proof (induction n now es rule: sweep_evicting.induct)
  case (3 n now e es)
  then show ?case by (cases e) (auto simp: live_def split: if_splits)
qed simp_all

definition memory_defer :: "(DeferStore \<times> int) DeferRedis" where
  "memory_defer = fst (createInMemoryDeferStore fst (\<lambda>s w. (s, snd w)) snd)"

lemmas memory_defer_defs = memory_defer_def createInMemoryDeferStore_def stateE_def live_keys_def

interpretation memory_tokens: token_store memory_defer live_keys
proof unfold_locales
  fix k v ttl and w w' :: "DeferStore \<times> int"
  have alive: "live_keys w \<subseteq> {k. live (snd w) (sweep_evicting SWEEP_BATCH (snd w) (ds_store (fst w))) k \<noteq> None}"
    using live_sweep_keeps by (fastforce simp: live_keys_def)
  show "live_keys w \<subseteq> live_keys (snd (rd_setNX memory_defer k v ttl w))"
  proof
    fix x
    assume "x \<in> live_keys w"
    with alive have x: "live (snd w) (sweep_evicting SWEEP_BATCH (snd w) (ds_store (fst w))) x \<noteq> None" by blast
    then show "x \<in> live_keys (snd (rd_setNX memory_defer k v ttl w))"
      by (cases "x = k") (auto simp: memory_defer_defs setRaw_def Let_def isAlive_live)
  qed
  assume "0 < ttl" "rd_setNX memory_defer k v ttl w = (Inr (Some ''OK''), w')"
  with alive show "k \<notin> live_keys w \<and> insert k (live_keys w) \<subseteq> live_keys w'"
    by (auto simp: memory_defer_defs setRaw_def Let_def isAlive_live split: if_splits)
qed (auto simp: memory_defer_defs ds_get_def ds_del_def ds_incr_def ds_decr_def ds_expire_def isAlive_def live_def Let_def
      split: option.splits if_splits)

end
