(* ===== verification/Defer.thy ===== *)
theory Defer
  imports Stores JsonParse Envelope
begin

text \<open>
  Parking and resuming deferred intents (packages/runtime/src/defer-park.ts, defer-resume.ts). A parked
  intent is a JSON text under a key of its session; a resumption reads it, re-derives the intent hash,
  counts the cycle, claims a token and deletes the text. Loggers are output only and left out; every
  other call is a step of the process. Seconds are in thousandths.
\<close>

definition DEFER_PENDING_TTL_GRACE_SECONDS :: int where
  "DEFER_PENDING_TTL_GRACE_SECONDS = 14 * 24 * 60 * 60 * 1000"

definition DEFAULT_DEFER_QUOTA_PER_SESSION :: int where
  "DEFAULT_DEFER_QUOTA_PER_SESSION = 16"

definition DEFAULT_MAX_RESUME_CYCLES :: int where
  "DEFAULT_MAX_RESUME_CYCLES = 3"

definition deferParkKey :: "string \<Rightarrow> string" where
  "deferParkKey sid = ''defer:pending:'' @ sid"

definition deferCounterKey :: "string \<Rightarrow> string" where
  "deferCounterKey sid = ''defer:count:'' @ sid"

definition deferResumeHash :: "(string \<Rightarrow> string) \<Rightarrow> string \<Rightarrow> string \<Rightarrow> string" where
  "deferResumeHash sha intentHash signal = sha (intentHash @ '':'' @ signal)"

definition cycle_key :: "string \<Rightarrow> string" where
  "cycle_key intentHash = ''defer:cycle:'' @ intentHash"

definition token_key :: "string \<Rightarrow> string" where
  "token_key h = ''defer:resumed:'' @ h"

subsection \<open>Parking\<close>

record ParkableEnvelope =
  pe_intentHash :: string
  pe_kind :: string
  pe_sessionId :: string
  pe_payload :: js
  pe_version :: "int option"
  pe_nonce :: "string option"
  pe_taint :: "Taint option"
  pe_actorPrincipal :: "Principal option"
  pe_actorRole :: "string option"
  pe_origin :: "Origin option"
  pe_resourceRefs :: "ResourceRefs option"

definition parkable_js :: "ParkableEnvelope \<Rightarrow> js" where
  "parkable_js e = Obj
     [(''intentHash'', Str (pe_intentHash e)), (''kind'', Str (pe_kind e)),
      (''actor'', Obj [(''sessionId'', Str (pe_sessionId e))]), (''payload'', pe_payload e),
      (''version'', opt_js num (pe_version e)), (''nonce'', opt_js Str (pe_nonce e)),
      (''taint'', opt_js (\<lambda>t. Str (taint_name t)) (pe_taint e)),
      (''actorPrincipal'', opt_js (\<lambda>p. Str (principal_name p)) (pe_actorPrincipal e)),
      (''actorRole'', opt_js Str (pe_actorRole e)), (''origin'', opt_js (\<lambda>r. Str (origin_name r)) (pe_origin e)),
      (''resourceRefs'', opt_js refs_js (pe_resourceRefs e))]"

definition parked_js :: "ParkableEnvelope \<Rightarrow> string \<Rightarrow> string \<Rightarrow> js" where
  "parked_js e signal parkedAt = Obj [(''envelope'', parkable_js e), (''signal'', Str signal), (''parkedAt'', Str parkedAt)]"

record ResourceLimitEvent =
  rl_subject :: string
  rl_max :: int
  rl_observed :: int

record 'w ParkArgs =
  pa_envelope :: ParkableEnvelope
  pa_signal :: string
  pa_ttlSeconds :: int
  pa_redis :: "'w ParkRedis"
  pa_rk :: "string \<Rightarrow> string"
  pa_quotaPerSession :: "int option"
  pa_transform :: "(ParkableEnvelope \<Rightarrow> ParkableEnvelope result) option"
  pa_recordResourceLimit :: "ResourceLimitEvent \<Rightarrow> ('w, unit) eff"
  pa_nowIso :: "('w, string) eff"

datatype ParkResult = Parked int | QuotaExceeded int int

text \<open>\<open>p.catch(() => {})\<close>.\<close>

definition quietly :: "('w, 'a) eff \<Rightarrow> ('w, unit) proc" where
  "quietly m = tryP (bindP (effP m) (\<lambda>_. retP ())) (\<lambda>_. retP ())"

definition park_quota :: "'w ParkArgs \<Rightarrow> int" where
  "park_quota args = (case pa_quotaPerSession args of Some q \<Rightarrow> q | None \<Rightarrow> DEFAULT_DEFER_QUOTA_PER_SESSION)"

definition quota_exceeded :: "'w ParkArgs \<Rightarrow> int \<Rightarrow> ('w, ParkResult) proc" where
  "quota_exceeded args observed = bindP (effP (pa_recordResourceLimit args
       \<lparr>rl_subject = pe_sessionId (pa_envelope args), rl_max = park_quota args, rl_observed = observed\<rparr>))
     (\<lambda>_. retP (QuotaExceeded observed (park_quota args)))"

text \<open>Counting the park: the new count, or the refusal.\<close>

definition park_count :: "'w ParkArgs \<Rightarrow> ('w, ParkResult) proc" where
  "park_count args =
     (let counterKey = pa_rk args (deferCounterKey (pe_sessionId (pa_envelope args))); quota = park_quota args in
      case pk_evalIncrCheck (pa_redis args) of
        Some evalIncrCheck \<Rightarrow>
          bindP (effP (evalIncrCheck counterKey DEFER_PENDING_TTL_GRACE_SECONDS quota))
            (\<lambda>n. if n = 0 then quota_exceeded args (quota + 1) else retP (Parked n))
      | None \<Rightarrow>
          bindP (effP (pk_incr (pa_redis args) counterKey)) (\<lambda>n.
          bindP (effP (pk_expire (pa_redis args) counterKey DEFER_PENDING_TTL_GRACE_SECONDS)) (\<lambda>_.
            if n > quota then bindP (quietly (pk_decr (pa_redis args) counterKey)) (\<lambda>_. quota_exceeded args n)
            else retP (Parked n))))"

definition park_write :: "'w ParkArgs \<Rightarrow> ('w, unit) proc" where
  "park_write args =
     bindP (resultP (case pa_transform args of None \<Rightarrow> Inr (pa_envelope args) | Some f \<Rightarrow> f (pa_envelope args))) (\<lambda>stored.
     bindP (effP (pa_nowIso args)) (\<lambda>now.
     bindP (resultP (JSON_stringify (parked_js stored (pa_signal args) now))) (\<lambda>blob.
     bindP (effP (pk_set (pa_redis args) (pa_rk args (deferParkKey (pe_sessionId (pa_envelope args)))) blob (pa_ttlSeconds args))) (\<lambda>_.
       retP ()))))"

definition parkDeferredIntent :: "'w ParkArgs \<Rightarrow> ('w, ParkResult) proc" where
  "parkDeferredIntent args = bindP (park_count args) (\<lambda>res. case res of
       Parked n \<Rightarrow> bindP (park_write args) (\<lambda>_. retP (Parked n))
     | QuotaExceeded seen quota \<Rightarrow> retP (QuotaExceeded seen quota))"

definition decrementDeferCounter :: "'w ParkRedis \<Rightarrow> (string \<Rightarrow> string) \<Rightarrow> string \<Rightarrow> ('w, unit) proc" where
  "decrementDeferCounter redis rk sid = quietly (pk_decr redis (rk (deferCounterKey sid)))"

subsection \<open>Verification of a parked text\<close>

definition type_error :: "string \<Rightarrow> thrown" where
  "type_error k = ErrorObj ''TypeError'' (''Cannot read properties (reading '' @ k @ '')'')"

text \<open>Reading a property of any value, and a value inside a template text.\<close>

fun js_get :: "js \<Rightarrow> string \<Rightarrow> js result" where
  "js_get Undef k = Inl (type_error k)"
| "js_get Null k = Inl (type_error k)"
| "js_get (Obj es) k = Inr (case map_of es k of None \<Rightarrow> Undef | Some v \<Rightarrow> v)"
| "js_get v k = Inr Undef"

fun js_text :: "js \<Rightarrow> string" where
  "js_text Undef = ''undefined''"
| "js_text Null = ''null''"
| "js_text (Bool b) = (if b then ''true'' else ''false'')"
| "js_text (Num (JInt i)) = show_int i"
| "js_text (Num JNaN) = ''NaN''"
| "js_text (Num JInf) = ''Infinity''"
| "js_text (Num JNegInf) = ''-Infinity''"
| "js_text (BigInt i) = show_int i"
| "js_text (Str s) = s"
| "js_text (Arr xs) = join '','' (map (\<lambda>x. if x = Undef \<or> x = Null then [] else js_text x) xs)"
| "js_text (Obj es) = ''[object Object]''"

fun is_str :: "js \<Rightarrow> bool" where
  "is_str (Str s) = True"
| "is_str v = False"

fun is_num :: "js \<Rightarrow> bool" where
  "is_num (Num n) = True"
| "is_num v = False"

datatype ParkVerificationResult = ParkVerified | ParkTampered string js | ParkMissingFields

definition verifyParkedEnvelopeHash :: "(string \<Rightarrow> string) \<Rightarrow> js \<Rightarrow> ParkVerificationResult result" where
  "verifyParkedEnvelopeHash sha parked =
     bindR (js_get parked ''envelope'') (\<lambda>e.
     bindR (js_get e ''version'') (\<lambda>version. bindR (js_get e ''nonce'') (\<lambda>nonce. bindR (js_get e ''taint'') (\<lambda>taint.
     bindR (js_get e ''actorPrincipal'') (\<lambda>who. bindR (js_get e ''origin'') (\<lambda>origin.
       if \<not> is_num version \<or> \<not> is_str nonce \<or> \<not> is_str taint \<or> \<not> is_str who \<or> \<not> is_str origin
       then Inr ParkMissingFields
       else
         bindR (js_get e ''kind'') (\<lambda>kind. bindR (js_get e ''payload'') (\<lambda>payload.
         bindR (bindR (js_get e ''actor'') (\<lambda>a. js_get a ''sessionId'')) (\<lambda>sid.
         bindR (js_get e ''actorRole'') (\<lambda>rol. bindR (js_get e ''resourceRefs'') (\<lambda>refs.
         bindR (js_get e ''intentHash'') (\<lambda>stored.
         mapR (\<lambda>derived. if (case stored of Str h \<Rightarrow> timingSafeHexEqual derived h | _ \<Rightarrow> False) then ParkVerified
             else ParkTampered derived stored)
           (sha256Canonical sha (Obj [(''version'', version), (''kind'', kind), (''payload'', payload), (''nonce'', nonce),
              (''actor'', Obj [(''principal'', who), (''sessionId'', sid), (''role'', rol)]),
              (''taint'', taint), (''origin'', origin), (''resourceRefs'', refs)]))))))))))))))"

subsection \<open>Resuming\<close>

datatype verify_mode = verify_strict | verify_warn | verify_off

record 'w ResumeArgs =
  ra_sessionId :: string
  ra_signal :: string
  ra_redis :: "'w DeferRedis"
  ra_rk :: "string \<Rightarrow> string"
  ra_maxResumeCycles :: "int option"
  ra_verifyHash :: "verify_mode option"
  ra_nowIso :: "('w, string) eff"

record DeferResumeResult =
  resumed :: bool
  rr_reason :: "string option"
  rr_intentHash :: "js option"
  rr_parked :: "js option"

definition not_resumed :: "string \<Rightarrow> js option \<Rightarrow> DeferResumeResult" where
  "not_resumed reason h = \<lparr>resumed = False, rr_reason = Some reason, rr_intentHash = h, rr_parked = None\<rparr>"

fun judge_park :: "verify_mode \<Rightarrow> js \<Rightarrow> js \<Rightarrow> ParkVerificationResult \<Rightarrow> DeferResumeResult + js \<times> js" where
  "judge_park mode parked h (ParkTampered derived stored) = Inl (not_resumed ''park_blob_tampered'' (Some h))"
| "judge_park mode parked h ParkMissingFields =
     (if mode = verify_strict then Inl (not_resumed ''park_blob_unverifiable'' (Some h)) else Inr (parked, h))"
| "judge_park mode parked h ParkVerified = Inr (parked, h)"

text \<open>What the text that was read allows: an early answer, or the parked value and its hash.\<close>

definition resume_check ::
  "(string \<Rightarrow> string) \<Rightarrow> verify_mode \<Rightarrow> string \<Rightarrow> string option \<Rightarrow> (DeferResumeResult + js \<times> js) result" where
  "resume_check sha mode signal raw = (case raw of
     None \<Rightarrow> Inr (Inl (not_resumed ''no_parked_envelope'' None))
   | Some text \<Rightarrow> (case JSON_parse text of
       Inl err \<Rightarrow> Inr (Inl (not_resumed ''malformed_envelope'' None))
     | Inr parked \<Rightarrow>
         bindR (js_get parked ''signal'') (\<lambda>s.
           if s \<noteq> Str signal then Inr (Inl (not_resumed ''signal_mismatch'' None))
           else bindR (bindR (js_get parked ''envelope'') (\<lambda>e. js_get e ''intentHash'')) (\<lambda>h.
             if mode = verify_off then Inr (Inr (parked, h))
             else mapR (judge_park mode parked h) (verifyParkedEnvelopeHash sha parked)))))"

text \<open>Whether the cycle cap is exceeded by this attempt.\<close>

definition count_cycle :: "'w ResumeArgs \<Rightarrow> js \<Rightarrow> ('w, bool) proc" where
  "count_cycle args h =
     (let cap = (case ra_maxResumeCycles args of Some n \<Rightarrow> n | None \<Rightarrow> DEFAULT_MAX_RESUME_CYCLES);
          cycleKey = ra_rk args (cycle_key (js_text h))
      in case rd_incr (ra_redis args) of
           None \<Rightarrow> retP False
         | Some incr \<Rightarrow> if cap \<le> 0 then retP False else
             bindP (effP (incr cycleKey)) (\<lambda>cycles.
             bindP (case rd_expire (ra_redis args) of None \<Rightarrow> retP ()
                | Some expire \<Rightarrow> quietly (expire cycleKey DEFER_PENDING_TTL_GRACE_SECONDS)) (\<lambda>_.
               retP (cycles > cap))))"

definition resume_token :: "'w ResumeArgs \<Rightarrow> (string \<Rightarrow> string) \<Rightarrow> js \<Rightarrow> string" where
  "resume_token args sha h = ra_rk args (token_key (deferResumeHash sha (js_text h) (ra_signal args)))"

definition claim_token :: "(string \<Rightarrow> string) \<Rightarrow> 'w ResumeArgs \<Rightarrow> js \<Rightarrow> ('w, string option) proc" where
  "claim_token sha args h =
     bindP (effP (ra_nowIso args)) (\<lambda>now.
     bindP (resultP (JSON_stringify (Obj [(''at'', Str now), (''intentHash'', h), (''signal'', Str (ra_signal args)),
         (''sessionId'', Str (ra_sessionId args))]))) (\<lambda>value.
       effP (rd_setNX (ra_redis args) (resume_token args sha h) value DEFER_PENDING_TTL_GRACE_SECONDS)))"

definition resume_cleanup :: "'w ResumeArgs \<Rightarrow> ('w, unit) proc" where
  "resume_cleanup args =
     bindP (quietly (rd_del (ra_redis args) (ra_rk args (deferParkKey (ra_sessionId args))))) (\<lambda>_.
       case rd_decr (ra_redis args) of None \<Rightarrow> retP ()
       | Some decr \<Rightarrow> quietly (decr (ra_rk args (deferCounterKey (ra_sessionId args)))))"

definition resumeDeferredIntent :: "(string \<Rightarrow> string) \<Rightarrow> 'w ResumeArgs \<Rightarrow> ('w, DeferResumeResult) proc" where
  "resumeDeferredIntent sha args =
     bindP (effP (rd_get (ra_redis args) (ra_rk args (deferParkKey (ra_sessionId args))))) (\<lambda>raw.
     bindP (resultP (resume_check sha (case ra_verifyHash args of Some m \<Rightarrow> m | None \<Rightarrow> verify_strict) (ra_signal args) raw)) (\<lambda>c.
     case c of Inl early \<Rightarrow> retP early
     | Inr (parked, h) \<Rightarrow>
         bindP (count_cycle args h) (\<lambda>over.
           if over then retP (not_resumed ''cycle_cap_exceeded'' (Some h))
           else bindP (claim_token sha args h) (\<lambda>acquired.
             if acquired \<noteq> Some ''OK'' then retP (not_resumed ''duplicate_resume_suppressed'' (Some h))
             else bindP (resume_cleanup args) (\<lambda>_.
               retP \<lparr>resumed = True, rr_reason = None, rr_intentHash = Some h, rr_parked = Some parked\<rparr>)))))"

subsection \<open>A parked envelope verifies\<close>

text \<open>How the adapter fills the fields (adapter-core/src/decisions.ts); the attestation of the actor is not among them.\<close>

definition parkable_of :: "IntentEnvelope \<Rightarrow> ParkableEnvelope" where
  "parkable_of e = \<lparr>pe_intentHash = e_intentHash e, pe_kind = e_kind e, pe_sessionId = sessionId (e_actor e),
     pe_payload = e_payload e, pe_version = Some (e_version e), pe_nonce = Some (e_nonce e),
     pe_taint = Some (e_taint e), pe_actorPrincipal = Some (principal (e_actor e)), pe_actorRole = role (e_actor e),
     pe_origin = Some (e_origin e), pe_resourceRefs = e_resourceRefs e\<rparr>"

definition without_attestation :: "IntentEnvelope \<Rightarrow> IntentEnvelope" where
  "without_attestation e = e\<lparr>e_actor := (e_actor e)\<lparr>attestation := None\<rparr>\<rparr>"

text \<open>A property of an object that went through its text.\<close>

definition reread_field :: "js \<Rightarrow> js" where
  "reread_field v = (if v = Undef then Undef else reread v)"

lemma js_get_reread:
  assumes "distinct (map fst es)"
  shows "js_get (reread (Obj es)) k = Inr (case map_of es k of None \<Rightarrow> Undef | Some v \<Rightarrow> reread_field v)"
proof -
  let ?es = "filter (\<lambda>e. snd e \<noteq> Undef) es"
  have "distinct (map fst (map (\<lambda>e. (fst e, reread (snd e))) ?es))"
    using assms distinct_map_filter [of fst es] by (simp add: comp_def)
  then have "map_of (from_entries (map (\<lambda>e. (fst e, reread (snd e))) ?es)) k
      = map_of (map (\<lambda>e. (fst e, reread (snd e))) ?es) k" by (simp only: map_of_from_entries)
  also have "\<dots> = (case map_of es k of None \<Rightarrow> None | Some v \<Rightarrow> if v = Undef then None else Some (reread v))"
    using assms
  proof (induction es)
    case (Cons e es)
    have "fst e \<notin> fst ` set es \<Longrightarrow> map_of es (fst e) = None" by (simp add: map_of_eq_None_iff)
    with Cons show ?case by (cases e) (auto split: option.splits)
  qed simp
  finally show ?thesis by (auto simp: reread_Obj reread_field_def simp del: reread.simps split: option.split)
qed

lemma reread_field_simps [simp]:
  "reread_field Undef = Undef" "reread_field (Str s) = Str s" "reread_field (num i) = num i"
  "reread_field (opt_js (\<lambda>x. Str (f x)) m) = opt_js (\<lambda>x. Str (f x)) m" "reread_field (opt_js Str m') = opt_js Str m'"
  by (simp_all add: reread_field_def; cases m; cases m'; simp)+

lemma reread_field_Obj [simp]: "reread_field (Obj es) = reread (Obj es)"
  by (simp add: reread_field_def)

lemma canonicalize_reread_field:
  "distinct_keys v \<Longrightarrow> \<not> has_bigint v \<Longrightarrow> canonicalize v = Inr c \<Longrightarrow> canonicalize (reread_field v) = Inr c"
  by (auto simp: reread_field_def canonicalize_reread)

lemma refs_js_json [simp]: "\<not> has_bigint (refs_js rs)" "distinct_keys (refs_js rs) \<longleftrightarrow> distinct (map fst rs)"
  by (auto simp: refs_js_def list_ex_iff list_all_iff comp_def case_prod_unfold)

lemma parkable_fields:
  "js_get (reread (parkable_js (parkable_of e))) ''intentHash'' = Inr (Str (e_intentHash e))"
  "js_get (reread (parkable_js (parkable_of e))) ''kind'' = Inr (Str (e_kind e))"
  "js_get (reread (parkable_js (parkable_of e))) ''payload'' = Inr (reread_field (e_payload e))"
  "js_get (reread (parkable_js (parkable_of e))) ''version'' = Inr (num (e_version e))"
  "js_get (reread (parkable_js (parkable_of e))) ''nonce'' = Inr (Str (e_nonce e))"
  "js_get (reread (parkable_js (parkable_of e))) ''taint'' = Inr (Str (taint_name (e_taint e)))"
  "js_get (reread (parkable_js (parkable_of e))) ''actorPrincipal'' = Inr (Str (principal_name (principal (e_actor e))))"
  "js_get (reread (parkable_js (parkable_of e))) ''origin'' = Inr (Str (origin_name (e_origin e)))"
  "js_get (reread (parkable_js (parkable_of e))) ''actorRole'' = Inr (opt_js Str (role (e_actor e)))"
  "js_get (reread (parkable_js (parkable_of e))) ''resourceRefs'' = Inr (reread_field (opt_js refs_js (e_resourceRefs e)))"
  "bindR (js_get (reread (parkable_js (parkable_of e))) ''actor'') (\<lambda>a. js_get a ''sessionId'') = Inr (Str (sessionId (e_actor e)))"
  by (simp_all add: parkable_js_def parkable_of_def js_get_reread del: reread.simps)

text \<open>The pre-image the verifier builds has the canonical form of the original one without the attestation.\<close>

definition verifier_input :: "IntentEnvelope \<Rightarrow> js" where
  "verifier_input e = Obj [(''version'', num (e_version e)), (''kind'', Str (e_kind e)), (''payload'', reread_field (e_payload e)),
     (''nonce'', Str (e_nonce e)), (''actor'', Obj [(''principal'', Str (principal_name (principal (e_actor e)))),
        (''sessionId'', Str (sessionId (e_actor e))), (''role'', opt_js Str (role (e_actor e)))]),
     (''taint'', Str (taint_name (e_taint e))), (''origin'', Str (origin_name (e_origin e))),
     (''resourceRefs'', reread_field (opt_js refs_js (e_resourceRefs e)))]"

lemma verifyParked_parkable:
  "verifyParkedEnvelopeHash sha (reread (parked_js (parkable_of e) signal at)) =
     mapR (\<lambda>d. if d = e_intentHash e then ParkVerified else ParkTampered d (Str (e_intentHash e)))
       (sha256Canonical sha (verifier_input e))"
proof -
  have "js_get (reread (parked_js (parkable_of e) signal at)) ''envelope'' = Inr (reread (parkable_js (parkable_of e)))"
    by (simp add: parked_js_def js_get_reread parkable_js_def del: reread.simps)
  then show ?thesis
    unfolding verifyParkedEnvelopeHash_def verifier_input_def
    by (simp add: parkable_fields del: reread.simps)
qed

lemma canonicalize_Obj_total:
  assumes "\<And>k v. (k, v) \<in> set es \<Longrightarrow> v \<noteq> Undef \<Longrightarrow> \<exists>c. canonicalize v = Inr c"
  shows "\<exists>c. canonicalize (Obj es) = Inr c"
proof -
  let ?L = "by_key (map (\<lambda>(k, v). (k, canonicalize v)) (filter (\<lambda>(k, v). v \<noteq> Undef) es))"
  have "\<exists>ps. seqR (map (\<lambda>(k, r). mapR (Pair k) r) ?L) = Inr ps"
  proof (rule seqR_all_Inr)
    fix r
    assume "r \<in> set (map (\<lambda>(k, r). mapR (Pair k) r) ?L)"
    then obtain k v where kv: "(k, v) \<in> set es" "v \<noteq> Undef" "r = mapR (Pair k) (canonicalize v)"
      by (auto simp: by_key_def)
    with assms [OF kv(1,2)] show "\<exists>x. r = Inr x" by auto
  qed
  then show ?thesis by (auto simp: canonicalize_Obj)
qed

lemma canonicalize_no_bigint: "canonicalize v = Inr c \<Longrightarrow> \<not> has_bigint v \<Longrightarrow> \<not> has_bigint c"
proof (induction v arbitrary: c)
  case (Num n)
  then show ?case by (cases n) auto
next
  case (Arr xs)
  then obtain cs where cs: "map canonicalize xs = map Inr cs" "c = Arr cs" by (auto simp: mapR_Inr seqR_Inr)
  have "\<not> has_bigint y" if "y \<in> set cs" for y
  proof -
    have "Inr y \<in> set (map canonicalize xs)" using that cs(1) by auto
    then obtain x where "x \<in> set xs" "canonicalize x = Inr y" by auto
    with Arr show ?thesis by (auto simp: list_ex_iff)
  qed
  with cs show ?case by (simp add: list_ex_iff)
next
  case (Obj es)
  from Obj.prems(1) obtain ps where ps: "by_key (map (\<lambda>(k, v). (k, canonicalize v)) (filter (\<lambda>(k, v). v \<noteq> Undef) es))
      = map (\<lambda>(k, x). (k, Inr x)) ps" and c: "c = Obj (foldl (\<lambda>out (k, v). obj_put k v out) [] ps)"
    by (rule canonicalize_Obj_Inr)
  have one: "\<not> has_bigint x" if "(k, x) \<in> set ps" for k x
  proof -
    have "(k, Inr x) \<in> set (by_key (map (\<lambda>(k, v). (k, canonicalize v)) (filter (\<lambda>(k, v). v \<noteq> Undef) es)))"
      unfolding ps using that by force
    then have "(k, Inr x) \<in> (\<lambda>(k, v). (k, canonicalize v)) ` set (filter (\<lambda>(k, v). v \<noteq> Undef) es)"
      by (simp add: by_key_def)
    then obtain v where "(k, v) \<in> set es" "canonicalize v = Inr x" by auto
    with Obj show ?thesis by (force simp: list_ex_iff)
  qed
  have "set (foldl (\<lambda>out (k, v). obj_put k v out) [] ps) \<subseteq> set ps"
    using set_foldl_put [of "[]" ps] by simp
  with one show ?case unfolding c by (fastforce simp: list_ex_iff)
qed auto

lemma sha256Canonical_total: "canonicalize v = Inr c \<Longrightarrow> \<not> has_bigint v \<Longrightarrow> \<exists>h. sha256Canonical sha v = Inr h"
  using canonicalize_no_bigint [of v c] by (simp add: sha256Canonical_def canonicalJson_def JSON_stringify_def)

definition json_envelope :: "IntentEnvelope \<Rightarrow> bool" where
  "json_envelope e \<longleftrightarrow> distinct_keys (e_payload e) \<and> \<not> has_bigint (e_payload e)
     \<and> (case e_resourceRefs e of None \<Rightarrow> True | Some rs \<Rightarrow> distinct (map fst rs))"

lemma verifier_input_canonical:
  assumes "json_envelope e" "canonicalize (intentHashInput e) = Inr c"
  shows "canonicalize (verifier_input e) = canonicalize (intentHashInput (without_attestation e))"
    and "\<exists>d. canonicalize (intentHashInput (without_attestation e)) = Inr d"
proof -
  note entry = canonicalize_entry_Inr [OF assms(2) [unfolded intentHashInput_def]]
  have field: "canonicalize (reread_field v) = canonicalize v \<and> (reread_field v = Undef) = (v = Undef)"
    if "distinct_keys v" "\<not> has_bigint v" "(k, v) \<in> set [(''payload'', e_payload e), (''resourceRefs'', opt_js refs_js (e_resourceRefs e))]"
    for k v
  proof (cases "v = Undef")
    case False
    have "\<exists>x. canonicalize v = Inr x" by (rule entry [of k]) (use that(3) False in auto)
    then obtain x where "canonicalize v = Inr x" ..
    with canonicalize_reread_field [OF that(1,2) this] False show ?thesis by (simp add: reread_field_def)
  qed simp
  have p: "canonicalize (reread_field (e_payload e)) = canonicalize (e_payload e) \<and> (reread_field (e_payload e) = Undef) = (e_payload e = Undef)"
    by (rule field [of _ "''payload''"]) (use assms(1) in \<open>simp_all add: json_envelope_def\<close>)
  have r: "canonicalize (reread_field (opt_js refs_js (e_resourceRefs e))) = canonicalize (opt_js refs_js (e_resourceRefs e))
      \<and> (reread_field (opt_js refs_js (e_resourceRefs e)) = Undef) = (opt_js refs_js (e_resourceRefs e) = Undef)"
    by (rule field [of _ "''resourceRefs''"]; cases "e_resourceRefs e") (use assms(1) in \<open>simp_all add: json_envelope_def\<close>)
  have a: "canonicalize (Obj [(''principal'', Str x), (''sessionId'', Str y), (''role'', opt_js Str z)])
      = canonicalize (actor_js \<lparr>principal = p', sessionId = y, role = z, attestation = None\<rparr>)" if "x = principal_name p'" for x y z p'
    using that by (simp add: actor_js_def canonicalize_Obj)
  have cong: "canonicalize (Obj es) = canonicalize (Obj fs)"
    if "map (\<lambda>(k, v). (k, v = Undef, canonicalize v)) es = map (\<lambda>(k, v). (k, v = Undef, canonicalize v)) fs" for es fs
  proof -
    have "map (\<lambda>(k, v). (k, canonicalize v)) (filter (\<lambda>(k, v). v \<noteq> Undef) es)
        = map (\<lambda>(k, v). (k, canonicalize v)) (filter (\<lambda>(k, v). v \<noteq> Undef) fs)"
      using that by (induction es fs rule: list_induct2') auto
    then show ?thesis by (simp only: canonicalize_Obj)
  qed
  show "canonicalize (verifier_input e) = canonicalize (intentHashInput (without_attestation e))"
    unfolding verifier_input_def intentHashInput_def
    by (rule cong) (use p r a in \<open>simp add: without_attestation_def actor_js_def\<close>)
  show "\<exists>d. canonicalize (intentHashInput (without_attestation e)) = Inr d"
    unfolding intentHashInput_def
  proof (rule canonicalize_Obj_total, goal_cases)
    case (1 k v)
    show ?case
    proof (cases "k = ''actor''")
      case True
      then have "v = actor_js (e_actor (without_attestation e))" using 1 by auto
      then show ?thesis
        by (cases "role (e_actor e)") (auto simp: actor_js_def without_attestation_def intro!: canonicalize_Obj_total)
    next
      case False
      show ?thesis by (rule entry [of k]) (use 1 False in \<open>auto simp: without_attestation_def\<close>)
    qed
  qed
qed

lemma verifier_hash:
  assumes "json_envelope e" "deriveIntentHash sha e = Inr h"
  obtains d where "sha256Canonical sha (verifier_input e) = Inr d" "deriveIntentHash sha (without_attestation e) = Inr d"
proof -
  obtain c where c: "canonicalize (intentHashInput e) = Inr c"
    using sha256Canonical_form [OF assms(2) [unfolded deriveIntentHash_def]] by blast
  note eq = verifier_input_canonical [OF assms(1) c]
  have "\<not> has_bigint (intentHashInput (without_attestation e))"
    using assms(1)
    by (cases "role (e_actor e)"; cases "e_resourceRefs e")
      (auto simp: intentHashInput_def json_envelope_def without_attestation_def actor_js_def)
  with eq(2) sha256Canonical_total obtain d where d: "sha256Canonical sha (intentHashInput (without_attestation e)) = Inr d"
    by blast
  then have "sha256Canonical sha (verifier_input e) = Inr d"
    by (simp add: sha256Canonical_def canonicalJson_def eq(1))
  with d that show thesis by (simp add: deriveIntentHash_def)
qed

text \<open>C36: the park and resume round trip: an envelope with a correct hash that the adapter parks is read back and
  verified by a strict resumption exactly if its actor carries no attestation; with an attestation, which
  the hash covers and the parked text omits, the untampered text is reported as tampered, unless the
  digest collides.\<close>

theorem park_resume_verifies:
  assumes "json_envelope e" "deriveIntentHash sha e = Inr (e_intentHash e)"
    and "JSON_stringify (parked_js (parkable_of e) signal at) = Inr text"
    and "\<not> collision sha (intentHashInput e) (intentHashInput (without_attestation e))"
  shows "resume_check sha verify_strict signal (Some text) =
    (if attestation (e_actor e) = None
     then Inr (Inr (reread (parked_js (parkable_of e) signal at), Str (e_intentHash e)))
     else Inr (Inl (not_resumed ''park_blob_tampered'' (Some (Str (e_intentHash e))))))"
proof -
  let ?blob = "reread (parked_js (parkable_of e) signal at)"
  obtain d where d: "sha256Canonical sha (verifier_input e) = Inr d" "deriveIntentHash sha (without_attestation e) = Inr d"
    using verifier_hash [OF assms(1,2)] .
  have "d = e_intentHash e \<longleftrightarrow> attestation (e_actor e) = None"
  proof
    assume "d = e_intentHash e"
    with d(2) intentHash_determines [OF assms(4,2)] have "e_actor e = e_actor (without_attestation e)" by simp
    then have "attestation (e_actor e) = attestation ((e_actor e)\<lparr>attestation := None\<rparr>)"
      by (simp add: without_attestation_def)
    then show "attestation (e_actor e) = None" by simp
  next
    assume "attestation (e_actor e) = None"
    then have "without_attestation e = e" by (simp add: without_attestation_def)
    with d(2) assms(2) show "d = e_intentHash e" by simp
  qed
  moreover have "JSON_parse text = Inr ?blob" by (rule JSON_roundtrip [OF assms(3)])
  moreover have "js_get ?blob ''signal'' = Inr (Str signal)"
    "js_get ?blob ''envelope'' = Inr (reread (parkable_js (parkable_of e)))"
    by (simp_all add: parked_js_def js_get_reread parkable_js_def del: reread.simps)
  ultimately show ?thesis
    by (simp add: resume_check_def parkable_fields verifyParked_parkable d(1) del: reread.simps)
qed

subsection \<open>A token is claimed once\<close>

text \<open>
  A resumption that succeeds owns the token of its hash and signal. \<open>tokens\<close> are the tokens present;
  the namespacing \<open>rk\<close> is injective, so that no other key is a token.
\<close>

definition tokens :: "(string \<Rightarrow> string) \<Rightarrow> ('w \<Rightarrow> string set) \<Rightarrow> 'w \<Rightarrow> string set" where
  "tokens rk keys w = {k \<in> keys w. \<exists>h. k = rk (token_key h)}"

definition token_of :: "(string \<Rightarrow> string) \<Rightarrow> (string \<Rightarrow> string) \<Rightarrow> DeferResumeResult \<Rightarrow> string option" where
  "token_of sha rk res = (case (rr_intentHash res, rr_parked res) of
     (Some h, Some p) \<Rightarrow> (case js_get p ''signal'' of
        Inr (Str s) \<Rightarrow> Some (rk (token_key (deferResumeHash sha (js_text h) s))) | _ \<Rightarrow> None)
   | _ \<Rightarrow> None)"

definition owns_token :: "(string \<Rightarrow> string) \<Rightarrow> (string \<Rightarrow> string) \<Rightarrow> string option \<Rightarrow> DeferResumeResult result \<Rightarrow> bool" where
  "owns_token sha rk c r \<longleftrightarrow> (\<forall>res. r = Inr res \<longrightarrow> resumed res \<longrightarrow> c \<noteq> None \<and> c = token_of sha rk res)"

lemma judge_park_Inr: "judge_park mode parked h v = Inr p \<Longrightarrow> p = (parked, h)"
  by (cases "(mode, parked, h, v)" rule: judge_park.cases) (auto split: if_splits)

lemma judge_park_Inl: "judge_park mode parked h v = Inl early \<Longrightarrow> \<not> resumed early"
  by (cases "(mode, parked, h, v)" rule: judge_park.cases) (auto simp: not_resumed_def split: if_splits)

lemma resume_check_signal:
  "resume_check sha mode signal raw = Inr (Inr (parked, h)) \<Longrightarrow> js_get parked ''signal'' = Inr (Str signal)"
  by (auto simp: resume_check_def bindR_Inr mapR_Inr dest!: judge_park_Inr [OF sym] split: option.splits sum.splits if_splits)

lemma resume_check_early: "resume_check sha mode signal raw = Inr (Inl early) \<Longrightarrow> \<not> resumed early"
  by (auto simp: resume_check_def bindR_Inr mapR_Inr dest!: judge_park_Inl [OF sym] split: option.splits sum.splits if_splits)
    (simp_all add: not_resumed_def)

text \<open>A step that removes no key leaves every claim in place.\<close>

lemma quiet_grows:
  assumes "\<And>w. held w \<subseteq> held (snd (m w))"
  shows "quiet held (effP m)"
proof -
  have "safe held (effP m) c (\<lambda>c' r. c' = c \<and> True)" for c
    using assms by (auto simp: effP_def case_prod_unfold intro!: claim_step_refl)
  then show ?thesis by (simp add: kept_def)
qed

lemma quiet_quietly: "quiet held (effP m) \<Longrightarrow> quiet held (quietly m)"
  unfolding quietly_def by (rule quiet_try [OF quiet_bind]) (simp_all add: quiet_basic)

context token_store
begin

lemma tokens_mono: "keys w \<subseteq> keys w' \<Longrightarrow> tokens rk keys w \<subseteq> tokens rk keys w'"
  by (auto simp: tokens_def)

lemma tokens_others:
  assumes "inj rk" "\<And>h. raw \<noteq> token_key h" "keys w - {rk raw} \<subseteq> keys w'"
  shows "tokens rk keys w \<subseteq> tokens rk keys w'"
proof -
  have "rk (token_key h) \<noteq> rk raw" for h using assms(2) [of h] inj_eq [OF assms(1)] by auto
  with assms(3) show ?thesis by (auto simp: tokens_def)
qed

lemma key_kinds: "deferParkKey s \<noteq> token_key h" "cycle_key s \<noteq> token_key h"
  by (simp_all add: deferParkKey_def token_key_def cycle_key_def)

lemma quiet_count_cycle:
  assumes "inj rk" "ra_redis args = R" "ra_rk args = rk"
  shows "quiet (tokens rk keys) (count_cycle args h)"
proof -
  have "quiet (tokens rk keys) (effP (incr (rk (cycle_key x))))" if "rd_incr R = Some incr" for incr x
    by (rule quiet_grows, rule tokens_mono, rule incr_keeps [OF that])
  moreover have "quiet (tokens rk keys) (quietly (expire (rk (cycle_key x)) t))" if "rd_expire R = Some expire" for expire x t
    by (rule quiet_quietly, rule quiet_grows, rule tokens_others [OF assms(1) key_kinds(2) expire_keeps [OF that]])
  ultimately show ?thesis
    unfolding count_cycle_def Let_def assms(2,3) by (auto split: option.split intro!: quiet_basic quiet_bind)
qed

lemma quiet_cleanup:
  assumes "inj rk" "ra_redis args = R" "ra_rk args = rk"
  shows "quiet (tokens rk keys) (resume_cleanup args)"
proof -
  have "quiet (tokens rk keys) (quietly (decr x))" if "rd_decr R = Some decr" for decr x
    by (rule quiet_quietly, rule quiet_grows, rule tokens_mono, rule decr_keeps [OF that])
  moreover have "quiet (tokens rk keys) (quietly (rd_del R (rk (deferParkKey x))))" for x
    by (rule quiet_quietly, rule quiet_grows, rule tokens_others [OF assms(1) key_kinds(1) del_keeps])
  ultimately show ?thesis
    unfolding resume_cleanup_def assms(2,3) by (auto split: option.split intro!: quiet_basic quiet_bind)
qed

lemma safe_setNX:
  assumes "0 < ttl"
  shows "safe (tokens rk keys) (effP (rd_setNX R (rk (token_key h)) v ttl)) None
    (\<lambda>c r. r = Inr (Some ''OK'') \<longrightarrow> c = Some (rk (token_key h)))"
proof -
  let ?held = "tokens rk keys" and ?k = "rk (token_key h)"
  have "\<exists>c'. claim_step None (?held w) c' (?held (snd (rd_setNX R ?k v ttl w)))
      \<and> (fst (rd_setNX R ?k v ttl w) = Inr (Some ''OK'') \<longrightarrow> c' = Some ?k)" for w
  proof (cases "fst (rd_setNX R ?k v ttl w) = Inr (Some ''OK'')")
    case True
    then have "rd_setNX R ?k v ttl w = (Inr (Some ''OK''), snd (rd_setNX R ?k v ttl w))" by (metis prod.collapse)
    from setNX_acquires [OF assms this] show ?thesis
      by (intro exI [of _ "Some ?k"]) (auto simp: claim_step_def tokens_def)
  next
    case False
    then show ?thesis using tokens_mono [OF setNX_keeps] by (intro exI [of _ None]) (simp add: claim_step_refl)
  qed
  then show ?thesis by (simp add: effP_def case_prod_unfold)
qed

lemma safe_resume:
  assumes rk: "inj rk" "ra_redis args = R" "ra_rk args = rk" and now: "\<And>w. keys w \<subseteq> keys (snd (ra_nowIso args w))"
  shows "safe (tokens rk keys) (resumeDeferredIntent sha args) None (owns_token sha rk)"
proof -
  let ?held = "tokens rk keys"
  have get: "quiet ?held (effP (rd_get R k))" for k by (rule quiet_grows, rule tokens_mono, rule get_keeps)
  have clock: "quiet ?held (effP (ra_nowIso args))" by (rule quiet_grows, rule tokens_mono, rule now)
  have idle: "owns_token sha rk c (Inl err)" "\<not> resumed res \<Longrightarrow> owns_token sha rk c (Inr res)" for c err res
    by (simp_all add: owns_token_def)
  have token: "safe ?held (claim_token sha args h) None
      (\<lambda>c r. r = Inr (Some ''OK'') \<longrightarrow> c = Some (resume_token args sha h))" for h
    unfolding claim_token_def resume_token_def rk(2,3)
    by (rule safe_kept_bind [OF clock], simp, rule safe_kept_bind [OF quiet_basic(3)], simp,
        rule safe_setNX) (simp add: DEFER_PENDING_TTL_GRACE_SECONDS_def)
  have rest: "safe ?held (bindP (count_cycle args h) (\<lambda>over.
      if over then retP (not_resumed ''cycle_cap_exceeded'' (Some h))
      else bindP (claim_token sha args h) (\<lambda>acquired.
        if acquired \<noteq> Some ''OK'' then retP (not_resumed ''duplicate_resume_suppressed'' (Some h))
        else bindP (resume_cleanup args) (\<lambda>_.
          retP \<lparr>resumed = True, rr_reason = None, rr_intentHash = Some h, rr_parked = Some parked\<rparr>)))) None (owns_token sha rk)"
    if "js_get parked ''signal'' = Inr (Str (ra_signal args))" for parked h
  proof (rule safe_kept_bind [OF quiet_count_cycle [OF rk]], simp add: idle, goal_cases)
    case (1 over)
    have fin: "owns_token sha rk (Some (resume_token args sha h))
        (Inr \<lparr>resumed = True, rr_reason = None, rr_intentHash = Some h, rr_parked = Some parked\<rparr>)"
      using that by (simp add: owns_token_def token_of_def resume_token_def rk)
    have clean: "safe ?held (bindP (resume_cleanup args) (\<lambda>_. retP \<lparr>resumed = True, rr_reason = None,
        rr_intentHash = Some h, rr_parked = Some parked\<rparr>)) (Some (resume_token args sha h)) (owns_token sha rk)"
      by (rule safe_kept_bind [OF quiet_cleanup [OF rk]]) (simp_all add: idle fin retP_def)
    show ?case
      by (cases over) (simp_all add: retP_def idle not_resumed_def,
        rule safe_bind, rule safe_mono [OF token], auto simp: idle retP_def not_resumed_def clean [unfolded retP_def] split: sum.split)
  qed
  show ?thesis
    unfolding resumeDeferredIntent_def rk(2,3)
  proof (rule safe_kept_bind [OF get], simp add: idle, goal_cases)
    case (1 raw)
    have "kept ?held (resultP r) (\<lambda>x. x = r)" for r :: "(DeferResumeResult + js \<times> js) result"
      by (simp add: resultP_def kept_Done)
    then show ?case
      by (rule safe_kept_bind) (auto simp: idle retP_def resume_check_early intro!: rest dest: resume_check_signal [OF sym] split: sum.split)
  qed
qed

end

text \<open>The resumptions considered: any session, signal and options, over one store and namespacing.\<close>

definition resume_calls ::
  "(string \<Rightarrow> string) \<Rightarrow> 'w DeferRedis \<Rightarrow> (string \<Rightarrow> string) \<Rightarrow> ('w \<Rightarrow> string set) \<Rightarrow> ('w, DeferResumeResult) proc set" where
  "resume_calls sha R rk keys = {resumeDeferredIntent sha args | args. ra_redis args = R \<and> ra_rk args = rk
     \<and> (\<forall>w. keys w \<subseteq> keys (snd (ra_nowIso args w)))}"

text \<open>C35: a deferred intent is resumed at most once: however many resumptions run concurrently over one store, for
  any sessions and however their steps interleave with each other, with parks and with everything
  else that frees no token, at most one of them succeeds for one intent hash and signal.\<close>

theorem resume_at_most_once:
  assumes "token_store R keys" "inj rk" "reachable (resume_calls sha R rk keys) env_step w0 (w, ts)"
    and "\<And>w w'. env_step w w' \<Longrightarrow> tokens rk keys w \<subseteq> tokens rk keys w'"
    and "ts i = Some (Done (Inr r1))" "ts j = Some (Done (Inr r2))" "resumed r1" "resumed r2"
    and "token_of sha rk r1 = token_of sha rk r2"
  shows "i = j"
proof -
  have "safe (tokens rk keys) p None (owns_token sha rk)" if "p \<in> resume_calls sha R rk keys" for p
    using that token_store.safe_resume [OF assms(1,2)] by (auto simp: resume_calls_def)
  from one_holder [OF assms(3) this assms(4-6), of "the (token_of sha rk r1)"] assms(7-9) show ?thesis
    by (auto simp: owns_token_def)
qed

subsection \<open>One slot per session\<close>

text \<open>
  The key of a parked text names the session only. Two parks of one session, both accepted and counted,
  leave the second text: the first intent can no longer be resumed.
\<close>

definition memory_park :: "(DeferStore \<times> int) ParkRedis" where
  "memory_park = snd (createInMemoryDeferStore fst (\<lambda>s w. (s, snd w)) snd)"

lemma memory_park_blob:
  assumes "run (parkDeferredIntent b) w0 = (Inr (Parked m), w)" "pa_redis b = memory_park" "pa_transform b = None"
    and "\<And>w. \<exists>now. pa_nowIso b w = (Inr now, w)" "0 < pa_ttlSeconds b"
  obtains now blob where "JSON_stringify (parked_js (pa_envelope b) (pa_signal b) now) = Inr blob"
    "live (snd w) (ds_store (fst w)) (pa_rk b (deferParkKey (pe_sessionId (pa_envelope b)))) = Some blob"
proof -
  from assms(1) obtain res w1 where c: "run (park_count b) w0 = (Inr res, w1)"
    and k: "run (case res of Parked n \<Rightarrow> bindP (park_write b) (\<lambda>_. retP (Parked n))
      | QuotaExceeded seen quota \<Rightarrow> retP (QuotaExceeded seen quota)) w1 = (Inr (Parked m), w)"
    by (auto simp: parkDeferredIntent_def bindE_Inr)
  then have "run (park_write b) w1 = (Inr (), w)"
    by (cases res) (auto simp: bindE_Inr retE_def)
  then obtain now blob x where blob: "JSON_stringify (parked_js (pa_envelope b) (pa_signal b) now) = Inr blob"
    and st: "pk_set memory_park (pa_rk b (deferParkKey (pe_sessionId (pa_envelope b)))) blob (pa_ttlSeconds b) w1 = (Inr x, w)"
    using assms(4) [of w1] by (auto simp: park_write_def bindE_Inr assms(2,3) retE_def)
  from st assms(5) have "live (snd w) (ds_store (fst w)) (pa_rk b (deferParkKey (pe_sessionId (pa_envelope b)))) = Some blob"
    by (auto simp: memory_park_def createInMemoryDeferStore_def Let_def stateE_def setRaw_def)
  with blob that show thesis by blast
qed

text \<open>C37: a session has one slot for parked intents although its quota counts many: once a park has been accepted,
  whatever was parked in the session before, a resumption with any other signal finds only the last
  text and is refused as a signal mismatch; an intent parked earlier is lost.\<close>

theorem last_park_wins:
  assumes "run (parkDeferredIntent b) w0 = (Inr (Parked m), w)" "pa_redis b = memory_park" "pa_transform b = None"
    and "\<And>w. \<exists>now. pa_nowIso b w = (Inr now, w)" "0 < pa_ttlSeconds b"
    and "ra_redis r = memory_defer" "ra_rk r = pa_rk b" "ra_sessionId r = pe_sessionId (pa_envelope b)" "ra_signal r \<noteq> pa_signal b"
  shows "fst (run (resumeDeferredIntent sha r) w) = Inr (not_resumed ''signal_mismatch'' None)"
proof -
  obtain now blob where blob: "JSON_stringify (parked_js (pa_envelope b) (pa_signal b) now) = Inr blob"
    and st: "live (snd w) (ds_store (fst w)) (pa_rk b (deferParkKey (pe_sessionId (pa_envelope b)))) = Some blob"
    using memory_park_blob [OF assms(1-5)] .
  from st have get: "rd_get memory_defer (pa_rk b (deferParkKey (pe_sessionId (pa_envelope b)))) w = (Inr (Some blob), w)"
    by (auto simp: memory_defer_def createInMemoryDeferStore_def Let_def stateE_def ds_get_def isAlive_def live_def
        split: option.splits if_splits)
  have "js_get (reread (parked_js (pa_envelope b) (pa_signal b) now)) ''signal'' = Inr (Str (pa_signal b))"
    by (simp add: parked_js_def js_get_reread del: reread.simps)
  with JSON_roundtrip [OF blob] assms(9)
  have "resume_check sha mode (ra_signal r) (Some blob) = Inr (Inl (not_resumed ''signal_mismatch'' None))" for mode
    by (simp add: resume_check_def)
  with get show ?thesis
    by (simp add: resumeDeferredIntent_def assms(6-8) bindE_def retE_def)
qed

subsection \<open>Witnesses\<close>

definition parked_sample :: IntentEnvelope where
  "parked_sample = \<lparr>e_version = 2, e_kind = ''pay'', e_payload = Obj [(''amount'', num 5)], e_createdAt = ''t'', e_nonce = ''n'',
     e_actor = \<lparr>principal = llm, sessionId = ''x'', role = None, attestation = None\<rparr>, e_taint = TRUSTED,
     e_origin = LLM, e_resourceRefs = None, e_intentHash = ''h''\<rparr>"

theorem park_resume_verifies_witness:
  "\<exists>blob p. JSON_stringify (parked_js (parkable_of parked_sample) ''webhook'' ''t'') = Inr blob
     \<and> resume_check (\<lambda>_. ''h'') verify_strict ''webhook'' (Some blob) = Inr (Inr (p, Str ''h''))"
proof -
  have json: "json_envelope parked_sample" by (simp add: json_envelope_def parked_sample_def)
  have hash: "deriveIntentHash (\<lambda>_. ''h'') parked_sample = Inr (e_intentHash parked_sample)"
    by (simp add: deriveIntentHash_def intentHashInput_def sha256Canonical_def canonicalJson_def parked_sample_def
        actor_js_def canonicalize_Obj by_key_def obj_put_def is_index_key_def is_digit_def JSON_stringify_def)
  have none: "attestation (e_actor parked_sample) = None" by (simp add: parked_sample_def)
  have "\<not> collision (\<lambda>_. ''h'') (intentHashInput parked_sample) (intentHashInput (without_attestation parked_sample))"
    by (simp add: collision_def without_attestation_def parked_sample_def split: sum.split)
  moreover obtain blob where blob: "JSON_stringify (parked_js (parkable_of parked_sample) ''webhook'' ''t'') = Inr blob"
    by (simp add: JSON_stringify_def parked_js_def parkable_js_def parkable_of_def parked_sample_def)
  ultimately show ?thesis
    using park_resume_verifies [OF json hash blob] none by (auto simp: parked_sample_def)
qed

definition sample_blob :: js where
  "sample_blob = Obj [(''signal'', Str ''go''), (''envelope'', Obj [(''intentHash'', Str ''h'')])]"

definition sample_store :: "DeferStore \<times> int" where
  "sample_store = (emptyDeferStore\<lparr>ds_store := [(deferParkKey ''x'', \<lparr>payload_of = stringify sample_blob, expiry = 9\<rparr>)]\<rparr>, 5)"

definition sample_resume :: "(DeferStore \<times> int) ResumeArgs" where
  "sample_resume = \<lparr>ra_sessionId = ''x'', ra_signal = ''go'', ra_redis = memory_defer, ra_rk = id, ra_maxResumeCycles = None,
     ra_verifyHash = Some verify_off, ra_nowIso = retE ''t''\<rparr>"

lemma sample_resume_run:
  "\<exists>w res. run (resumeDeferredIntent (\<lambda>s. s) sample_resume) sample_store = (Inr res, w) \<and> resumed res"
proof -
  have "JSON_stringify sample_blob = Inr (stringify sample_blob)" by (simp add: JSON_stringify_def sample_blob_def)
  from JSON_roundtrip [OF this] have parse: "JSON_parse (stringify sample_blob) = Inr (reread sample_blob)" .
  have "js_get (reread sample_blob) ''signal'' = Inr (Str ''go'')"
    "js_get (reread sample_blob) ''envelope'' = Inr (reread (Obj [(''intentHash'', Str ''h'')]))"
    "js_get (reread (Obj [(''intentHash'', Str ''h'')])) ''intentHash'' = Inr (Str ''h'')"
    by (simp_all add: sample_blob_def js_get_reread del: reread.simps)
  with parse have "resume_check sha verify_off ''go'' (Some (stringify sample_blob)) = Inr (Inr (reread sample_blob, Str ''h''))" for sha
    by (simp add: resume_check_def del: reread.simps)
  moreover have "deferParkKey ''x'' \<noteq> token_key h" for h by (simp add: deferParkKey_def token_key_def)
  ultimately show ?thesis
    by (simp add: resumeDeferredIntent_def sample_resume_def sample_store_def memory_defer_def createInMemoryDeferStore_def
        Let_def stateE_def ds_get_def isAlive_def bindE_def retE_def count_cycle_def ds_incr_def ds_expire_def quietly_def
        tryE_def claim_token_def JSON_stringify_def setRaw_def SWEEP_BATCH_def resume_token_def resume_cleanup_def
        ds_count_def emptyDeferStore_def DEFAULT_MAX_RESUME_CYCLES_def cycle_key_def deferParkKey_def token_key_def
        numeral_eq_Suc del: reread.simps stringify.simps split: prod.split)
qed

theorem resume_at_most_once_witness:
  "\<exists>w ts res. reachable (resume_calls (\<lambda>s. s) memory_defer id live_keys) (\<lambda>_ _. False) sample_store (w, ts)
     \<and> (\<forall>j r. ts j = Some (Done (Inr r)) \<longrightarrow> resumed r \<longrightarrow> token_of (\<lambda>s. s) id r = token_of (\<lambda>s. s) id res \<longrightarrow> j = (0::nat))
     \<and> ts 0 = Some (Done (Inr res)) \<and> resumed res"
proof -
  obtain w res where r: "run (resumeDeferredIntent (\<lambda>s. s) sample_resume) sample_store = (Inr res, w)" "resumed res"
    using sample_resume_run by blast
  let ?ts = "[0 \<mapsto> Done (Inr res)] :: nat \<rightharpoonup> (DeferStore \<times> int, DeferResumeResult) proc"
  have "resumeDeferredIntent (\<lambda>s. s) sample_resume \<in> resume_calls (\<lambda>s. s) memory_defer id live_keys"
    unfolding resume_calls_def by (rule CollectI, rule exI [of _ sample_resume]) (simp add: sample_resume_def retE_def)
  from start_reachable [OF this, of "\<lambda>_ _. False" sample_store 0]
  have reach: "reachable (resume_calls (\<lambda>s. s) memory_defer id live_keys) (\<lambda>_ _. False) sample_store (w, ?ts)"
    by (simp add: r(1))
  have "j = 0" if "?ts j = Some (Done (Inr r'))" "resumed r'" "token_of (\<lambda>s. s) id r' = token_of (\<lambda>s. s) id res" for j r'
    by (rule resume_at_most_once [OF memory_tokens.token_store_axioms _ reach _ that(1) _ that(2) r(2) that(3)]) simp_all
  then have all: "\<forall>j r. ?ts j = Some (Done (Inr r)) \<longrightarrow> resumed r \<longrightarrow> token_of (\<lambda>s. s) id r = token_of (\<lambda>s. s) id res \<longrightarrow> j = 0"
    by blast
  show ?thesis
    by (rule exI [of _ w], rule exI [of _ ?ts], rule exI [of _ res], intro conjI reach all r(2)) (rule fun_upd_same)
qed

definition sample_park :: "(DeferStore \<times> int) ParkArgs" where
  "sample_park = \<lparr>pa_envelope = parkable_of parked_sample, pa_signal = ''b'', pa_ttlSeconds = 60000, pa_redis = memory_park,
     pa_rk = id, pa_quotaPerSession = None, pa_transform = None, pa_recordResourceLimit = (\<lambda>_. retE ()), pa_nowIso = retE ''t''\<rparr>"

theorem last_park_wins_witness:
  "\<exists>w m. run (parkDeferredIntent sample_park) (emptyDeferStore, 0) = (Inr (Parked m), w)
     \<and> fst (run (resumeDeferredIntent (\<lambda>s. s) (sample_resume\<lparr>ra_signal := ''a''\<rparr>)) w) = Inr (not_resumed ''signal_mismatch'' None)"
proof -
  obtain w m where run: "run (parkDeferredIntent sample_park) (emptyDeferStore, 0) = (Inr (Parked m), w)"
    by (simp add: parkDeferredIntent_def sample_park_def park_count_def memory_park_def createInMemoryDeferStore_def Let_def
        stateE_def ds_evalIncrCheck_def emptyDeferStore_def ds_count_def bindE_def retE_def park_quota_def
        DEFAULT_DEFER_QUOTA_PER_SESSION_def park_write_def JSON_stringify_def parked_js_def parkable_js_def parkable_of_def
        parked_sample_def setRaw_def del: stringify.simps)
  have "fst (run (resumeDeferredIntent (\<lambda>s. s) (sample_resume\<lparr>ra_signal := ''a''\<rparr>)) w) = Inr (not_resumed ''signal_mismatch'' None)"
    by (rule last_park_wins [OF run]) (simp_all add: sample_park_def sample_resume_def retE_def parkable_of_def parked_sample_def)
  with run show ?thesis by blast
qed

end
