(* ===== verification/Contract.thy ===== *)
theory Contract
  imports Envelope
begin

text \<open>
  Two contracts at the executor seam: the shape a pack promises for the output of its executor
  (packages/core/src/pack-output-contract.ts) and the single-use capability that authorises one
  execution (packages/core/src/capability.ts).
\<close>

subsection \<open>Output shapes\<close>

text \<open>The fields of an object shape are in the order of \<open>Object.keys\<close>.\<close>

datatype OutputShape =
    ShUnknown | ShString | ShNumber | ShBoolean
  | ShArray OutputShape
  | ShObject "(string \<times> OutputShape) list" "string list"

record StructuralMismatch =
  sm_path :: string
  sm_expected :: string
  sm_actual :: string

fun shape_kind :: "OutputShape \<Rightarrow> string" where
  "shape_kind ShUnknown = ''unknown''"
| "shape_kind ShString = ''string''"
| "shape_kind ShNumber = ''number''"
| "shape_kind ShBoolean = ''boolean''"
| "shape_kind (ShArray s) = ''array''"
| "shape_kind (ShObject fs opt) = ''object''"

fun js_typeof :: "js \<Rightarrow> string" where
  "js_typeof Undef = ''undefined''"
| "js_typeof Null = ''object''"
| "js_typeof (Bool b) = ''boolean''"
| "js_typeof (Num n) = ''number''"
| "js_typeof (BigInt i) = ''bigint''"
| "js_typeof (Str s) = ''string''"
| "js_typeof (Arr vs) = ''object''"
| "js_typeof (Obj es) = ''object''"

fun observedType :: "js \<Rightarrow> string" where
  "observedType Null = ''null''"
| "observedType (Arr vs) = ''array''"
| "observedType v = js_typeof v"

definition joinField :: "string \<Rightarrow> string \<Rightarrow> string" where
  "joinField path field = (if path = [] then field else path @ ''.'' @ field)"

text \<open>A loop that returns the first result of its body.\<close>

fun first_found :: "('a \<Rightarrow> 'b option) \<Rightarrow> 'a list \<Rightarrow> 'b option" where
  "first_found f [] = None"
| "first_found f (x # xs) = (case f x of Some y \<Rightarrow> Some y | None \<Rightarrow> first_found f xs)"

lemma first_found_cong [fundef_cong]:
  "xs = ys \<Longrightarrow> (\<And>x. x \<in> set ys \<Longrightarrow> f x = g x) \<Longrightarrow> first_found f xs = first_found g ys"
  by (induction xs arbitrary: ys) (auto split: option.split)

lemma first_found_None: "first_found f xs = None \<longleftrightarrow> (\<forall>x \<in> set xs. f x = None)"
  by (induction xs) (auto split: option.splits)

lemma first_found_Some: "first_found f xs = Some y \<Longrightarrow> \<exists>x \<in> set xs. f x = Some y"
  by (induction xs) (auto split: option.splits)

fun walkShape :: "js \<Rightarrow> OutputShape \<Rightarrow> string \<Rightarrow> StructuralMismatch option" where
  "walkShape v ShUnknown path = None"
| "walkShape v (ShArray items) path = (case v of
      Arr vs \<Rightarrow> first_found (\<lambda>(i, x). walkShape x items (path @ ''['' @ show_nat i @ '']'')) (enumerate 0 vs)
    | _ \<Rightarrow> Some \<lparr>sm_path = path, sm_expected = ''array'', sm_actual = observedType v\<rparr>)"
| "walkShape v (ShObject fs opt) path = (case v of
      Obj es \<Rightarrow> first_found (\<lambda>(field, s). case map_of es field of
          None \<Rightarrow> if field \<in> set opt then None
            else Some \<lparr>sm_path = joinField path field, sm_expected = shape_kind s, sm_actual = ''absent''\<rparr>
        | Some x \<Rightarrow> walkShape x s (joinField path field)) fs
    | _ \<Rightarrow> Some \<lparr>sm_path = path, sm_expected = ''object'', sm_actual = observedType v\<rparr>)"
| "walkShape v shape path =
     (if js_typeof v = shape_kind shape then None
      else Some \<lparr>sm_path = path, sm_expected = shape_kind shape, sm_actual = observedType v\<rparr>)"

definition validateOutputShape :: "js \<Rightarrow> OutputShape \<Rightarrow> StructuralMismatch option" where
  "validateOutputShape v shape = walkShape v shape []"

text \<open>The meaning of a shape.\<close>

fun conforms :: "OutputShape \<Rightarrow> js \<Rightarrow> bool" where
  "conforms ShUnknown v = True"
| "conforms ShString v = (\<exists>s. v = Str s)"
| "conforms ShNumber v = (\<exists>n. v = Num n)"
| "conforms ShBoolean v = (\<exists>b. v = Bool b)"
| "conforms (ShArray items) v = (\<exists>vs. v = Arr vs \<and> (\<forall>x \<in> set vs. conforms items x))"
| "conforms (ShObject fs opt) v = (\<exists>es. v = Obj es \<and>
     (\<forall>(field, s) \<in> set fs. case map_of es field of None \<Rightarrow> field \<in> set opt | Some x \<Rightarrow> conforms s x))"

lemma walkShape_None: "walkShape v shape path = None \<longleftrightarrow> conforms shape v"
proof (induction shape arbitrary: v path)
  case (ShArray items)
  show ?case
  proof (cases v)
    case (Arr vs)
    have "set vs = snd ` set (enumerate 0 vs)" by (metis list.set_map map_snd_enumerate)
    then have "(\<forall>(i, x) \<in> set (enumerate 0 vs). walkShape x items (path @ ''['' @ show_nat i @ '']'') = None)
        \<longleftrightarrow> (\<forall>x \<in> set vs. conforms items x)"
      by (simp add: ShArray case_prod_unfold)
    then show ?thesis by (simp add: Arr first_found_None case_prod_unfold)
  qed simp_all
next
  case (ShObject fs opt)
  show ?case
  proof (cases v)
    case (Obj es)
    have "(case map_of es f of None \<Rightarrow> if f \<in> set opt then None
            else Some \<lparr>sm_path = joinField path f, sm_expected = shape_kind s, sm_actual = ''absent''\<rparr>
        | Some x \<Rightarrow> walkShape x s (joinField path f)) = None
        \<longleftrightarrow> (case map_of es f of None \<Rightarrow> f \<in> set opt | Some x \<Rightarrow> conforms s x)"
      if "(f, s) \<in> set fs" for f s
    proof (cases "map_of es f")
      case (Some x)
      have "walkShape x s (joinField path f) = None \<longleftrightarrow> conforms s x"
        by (rule ShObject [of "(f, s)" s]) (use that in \<open>auto simp: snds.simps\<close>)
      with Some show ?thesis by simp
    qed simp
    then show ?thesis by (fastforce simp add: Obj first_found_None)
  qed simp_all
next
  case ShString
  then show ?case by (cases v) simp_all
next
  case ShNumber
  then show ?case by (cases v) simp_all
next
  case ShBoolean
  then show ?case by (cases v) simp_all
qed simp

text \<open>C10: the output check decides the shape: it reports no mismatch exactly for the values that have the
  declared shape, with every required field present, every present field, optional or not, of its own
  shape, and every element of an array of the shape of the items.\<close>

theorem validateOutputShape_conforms: "validateOutputShape v shape = None \<longleftrightarrow> conforms shape v"
  by (simp add: validateOutputShape_def walkShape_None)

subsection \<open>Capabilities\<close>

record CapabilitySignature =
  cs_keyId :: string
  cs_alg :: string
  cs_value :: string

record UnsignedCapability =
  cap_intentHash :: string
  cap_kernelId :: string

record Capability = UnsignedCapability +
  cap_signature :: CapabilitySignature

definition CAPABILITY_PREIMAGE_VERSION :: string where
  "CAPABILITY_PREIMAGE_VERSION = ''adjudicate-capability-v1''"

definition capability_body :: "UnsignedCapability \<Rightarrow> js" where
  "capability_body cap = Obj [(''intentHash'', Str (cap_intentHash cap)), (''kernelId'', Str (cap_kernelId cap))]"

definition capabilityPreimage :: "(string \<Rightarrow> string) \<Rightarrow> UnsignedCapability \<Rightarrow> string result" where
  "capabilityPreimage sha cap =
     mapR (\<lambda>bodyHash. CAPABILITY_PREIMAGE_VERSION @ [CHR 0x0A] @ bodyHash) (sha256Canonical sha (capability_body cap))"

definition capability_value :: "(string \<Rightarrow> string) \<Rightarrow> UnsignedCapability \<Rightarrow> string result" where
  "capability_value sha cap = bindR (capabilityPreimage sha cap) (\<lambda>p. sha256Canonical sha (Str p))"

text \<open>The checks of a presented value, which is any value: the body and the signature text, if present.\<close>

fun capability_parts :: "js \<Rightarrow> (UnsignedCapability \<times> string) option" where
  "capability_parts (Obj es) = (case (map_of es ''intentHash'', map_of es ''kernelId'') of
      (Some (Str h), Some (Str k)) \<Rightarrow> (case map_of es ''signature'' of
          Some (Obj sig) \<Rightarrow> (case map_of sig ''value'' of
              Some (Str v) \<Rightarrow> Some (\<lparr>cap_intentHash = h, cap_kernelId = k\<rparr>, v)
            | _ \<Rightarrow> None)
        | _ \<Rightarrow> None)
    | _ \<Rightarrow> None)"
| "capability_parts v = None"

definition verifyCapability :: "(string \<Rightarrow> string) \<Rightarrow> js \<Rightarrow> bool result" where
  "verifyCapability sha cap = (case capability_parts cap of
      None \<Rightarrow> Inr False
    | Some (body, v) \<Rightarrow> mapR (\<lambda>expected. timingSafeHexEqual v expected) (capability_value sha body))"

definition bindCapability ::
  "(string \<Rightarrow> string) \<Rightarrow> UnsignedCapability \<Rightarrow> string \<Rightarrow> string \<Rightarrow> Capability result" where
  "bindCapability sha body keyId alg =
     mapR (\<lambda>v. \<lparr>cap_intentHash = cap_intentHash body, cap_kernelId = cap_kernelId body,
        cap_signature = \<lparr>cs_keyId = keyId, cs_alg = alg, cs_value = v\<rparr>\<rparr>) (capability_value sha body)"

definition capability_js :: "Capability \<Rightarrow> js" where
  "capability_js cap = Obj [(''intentHash'', Str (cap_intentHash cap)), (''kernelId'', Str (cap_kernelId cap)),
     (''signature'', Obj [(''keyId'', Str (cs_keyId (cap_signature cap))), (''alg'', Str (cs_alg (cap_signature cap))),
        (''value'', Str (cs_value (cap_signature cap)))])]"

lemma capability_canonical:
  "\<exists>h. sha256Canonical sha (capability_body cap) = Inr h" "\<exists>h. sha256Canonical sha (Str s) = Inr h"
  by (simp_all add: capability_body_def sha256Canonical_def canonicalJson_def canonicalize_Obj by_key_def
      obj_put_def is_index_key_def is_digit_def JSON_stringify_def)

lemma capability_body_inject:
  assumes "canonicalize (capability_body a) = canonicalize (capability_body b)"
  shows "cap_intentHash a = cap_intentHash b \<and> cap_kernelId a = cap_kernelId b"
  using assms by (simp add: capability_body_def canonicalize_Obj by_key_def obj_put_def is_index_key_def is_digit_def nfc_def)

lemma capability_value_Inr: "\<exists>v. capability_value sha cap = Inr v"
  using capability_canonical by (fastforce simp: capability_value_def capabilityPreimage_def result_simps)

lemma verifyCapability_js:
  "verifyCapability sha (capability_js cap) = mapR (\<lambda>x. cs_value (cap_signature cap) = x)
     (capability_value sha \<lparr>cap_intentHash = cap_intentHash cap, cap_kernelId = cap_kernelId cap\<rparr>)"
  by (cases "capability_value sha \<lparr>cap_intentHash = cap_intentHash cap, cap_kernelId = cap_kernelId cap\<rparr>")
    (simp_all add: verifyCapability_def capability_js_def)

lemma bindCapability_verifies:
  "\<exists>cap. bindCapability sha body keyId alg = Inr cap \<and> cap_intentHash cap = cap_intentHash body
     \<and> verifyCapability sha (capability_js cap) = Inr True"
  using capability_value_Inr [of sha "\<lparr>cap_intentHash = cap_intentHash body, cap_kernelId = cap_kernelId body\<rparr>"]
  by (auto simp: bindCapability_def verifyCapability_js capability_value_def capabilityPreimage_def capability_body_def)

text \<open>Two capabilities that verify under one signature text are the same grant, unless the digest collides.\<close>

lemma capability_value_binds:
  assumes "capability_value sha a = Inr v" "capability_value sha b = Inr v"
    and "\<not> collision sha (capability_body a) (capability_body b)"
    and "\<And>p q. capabilityPreimage sha a = Inr p \<Longrightarrow> capabilityPreimage sha b = Inr q \<Longrightarrow> \<not> collision sha (Str p) (Str q)"
  shows "cap_intentHash a = cap_intentHash b \<and> cap_kernelId a = cap_kernelId b"
proof -
  obtain p q where pq: "capabilityPreimage sha a = Inr p" "capabilityPreimage sha b = Inr q"
    "sha256Canonical sha (Str p) = Inr v" "sha256Canonical sha (Str q) = Inr v"
    using assms(1,2) by (auto simp: capability_value_def bindR_Inr)
  from sha256Canonical_inject [OF assms(4) [OF pq(1,2)] pq(3,4)] have "p = q" by (simp add: nfc_def)
  then obtain h where "sha256Canonical sha (capability_body a) = Inr h" "sha256Canonical sha (capability_body b) = Inr h"
    using pq(1,2) by (auto simp: capabilityPreimage_def mapR_Inr)
  from sha256Canonical_inject [OF assms(3) this] show ?thesis by (rule capability_body_inject)
qed

end
