(* ===== verification/Decisions.thy ===== *)
theory Decisions
  imports Shell Contract Defer
begin

text \<open>
  The two bridges of the adapter (packages/adapter-core): from a tool use of the model to an envelope
  (bridge.ts), and from a decision of the kernel to its effect (decisions.ts): running the executor behind
  the resource binding and the capability gate, storing a confirmation, parking, and routing reads
  through the kernel. Loggers are left out.
\<close>

subsection \<open>Tool uses (types.ts, bridge.ts)\<close>

record ToolUseRequest =
  tu_id :: string
  tu_name :: string
  tu_input :: js

datatype ToolClassification =
    ClsRead string js
  | ClsIntent string js
  | ClsOutOfPlan string

definition intentKindToApiName :: "string \<Rightarrow> string" where
  "intentKindToApiName name = map (\<lambda>c. if c = CHR ''.'' then CHR ''_'' else c) name"

definition matchesName :: "string \<Rightarrow> string \<Rightarrow> bool" where
  "matchesName name candidate \<longleftrightarrow> candidate = name \<or> intentKindToApiName candidate = name"

definition classifyIncomingToolUse :: "string \<Rightarrow> js \<Rightarrow> Plan \<Rightarrow> ToolClassification" where
  "classifyIncomingToolUse name input plan =
     (case (List.find (matchesName name) (visibleReadTools plan), List.find (matchesName name) (allowedIntents plan)) of
        (Some r, Some i) \<Rightarrow> ClsOutOfPlan name
      | (Some r, None) \<Rightarrow> ClsRead r input
      | (None, Some i) \<Rightarrow> ClsIntent i input
      | (None, None) \<Rightarrow> ClsOutOfPlan name)"

record BuildEnvelopeFromToolUseArgs =
  ba_intentKind :: string
  ba_payload :: js
  ba_sessionId :: string
  ba_taint :: Taint
  ba_origin :: Origin
  ba_contamination :: "SessionContamination option"
  ba_nonce :: string

definition buildEnvelopeFromToolUse ::
  "(string \<Rightarrow> string) \<Rightarrow> string \<Rightarrow> BuildEnvelopeFromToolUseArgs \<Rightarrow> IntentEnvelope result" where
  "buildEnvelopeFromToolUse sha nowIso args = buildEnvelope sha nowIso
     \<lparr>i_kind = ba_intentKind args, i_payload = ba_payload args,
      i_actor = \<lparr>principal = llm, sessionId = ba_sessionId args, role = None, attestation = None\<rparr>,
      i_taint = applySessionContamination (ba_taint args) (ba_contamination args), i_nonce = ba_nonce args,
      i_createdAt = None,
      i_origin = Some (case ba_contamination args of Some c \<Rightarrow> sc_origin c | None \<Rightarrow> ba_origin args),
      i_resourceRefs = None\<rparr>"

subsection \<open>Results and events (types.ts)\<close>

text \<open>\<open>isError\<close> is absent or true.\<close>

record ToolResultBlock =
  tr_toolUseId :: string
  tr_content :: string
  tr_isError :: bool

datatype AgentEvent =
    EvUserMessage string
  | EvAssistantText string
  | EvToolUse string string js
  | EvIntentProposed IntentEnvelope
  | EvDecision Decision IntentEnvelope
  | EvHandlerResult string js
  | EvToolResult string ToolResultBlock
  | EvContractViolation string string StructuralMismatch
  | EvToolBlocked string string

datatype LoopAction =
    LaContinue
  | LaPauseForConfirmation string string
  | LaPauseForDefer string string
  | LaCompleteForEscalation EscalateTo string

record DecisionTranslation =
  dt_toolResult :: "ToolResultBlock option"
  dt_loopAction :: LoopAction
  dt_extraEvents :: "AgentEvent list"

definition translation :: "string \<Rightarrow> string \<Rightarrow> bool \<Rightarrow> LoopAction \<Rightarrow> DecisionTranslation" where
  "translation toolUseId content isError action =
     (let r = \<lparr>tr_toolUseId = toolUseId, tr_content = content, tr_isError = isError\<rparr>
      in \<lparr>dt_toolResult = Some r, dt_loopAction = action, dt_extraEvents = [EvToolResult toolUseId r]\<rparr>)"

subsection \<open>What the adapter is given\<close>

record ('w, 's) AdopterExecutor =
  invokeRead :: "string \<Rightarrow> js \<Rightarrow> 's \<Rightarrow> ('w, js) eff"
  invokeIntent :: "IntentEnvelope \<Rightarrow> 's \<Rightarrow> ('w, js) eff"

record 'h PendingConfirmation =
  pc_envelope :: IntentEnvelope
  pc_sessionId :: string
  pc_assistantHistorySnapshot :: 'h
  pc_toolUseId :: string
  pc_prompt :: string

text \<open>\<open>verify\<close> is adopter code and may throw; the signing side may be asynchronous.\<close>

record 'w CapabilityGate =
  cg_mint :: "UnsignedCapability \<Rightarrow> ('w, Capability) eff"
  cg_verify :: "Capability \<Rightarrow> bool result"
  cg_burnStore :: "('w, Capability) BurnStore"
  cg_kernelId :: string
  cg_ttlSeconds :: "int option"

text \<open>
  What every call of the audited shell is given: the module state, the sink, the ledger, the runtime
  context and the clocks.
\<close>

record 'w Seam =
  se_module :: "'w Module"
  se_sink :: "AuditRecord \<Rightarrow> ('w, unit) eff"
  se_ledger :: "'w Ledger option"
  se_context :: "'w RuntimeContext"
  se_nowIso :: "('w, string) eff"
  se_nowMs :: "('w, int) eff"
  se_recordResourceLimit :: "ResourceLimitEvent \<Rightarrow> ('w, unit) eff"

abbreviation se_sha :: "'w Seam \<Rightarrow> string \<Rightarrow> string" where
  "se_sha se \<equiv> m_sha (se_module se)"

definition seam_deps :: "'w Seam \<Rightarrow> Plan \<Rightarrow> ('w, 's) Deps" where
  "seam_deps se plan = \<lparr>sink_emit = se_sink se, metadataProvider = None, dep_signer = None,
     dep_ledger = se_ledger se, clock_nowIso = se_nowIso se, clock_nowMs = se_nowMs se,
     resolveResourceVersion = None, dep_plan = Some (retE (Some plan)), dep_context = Some (se_context se),
     dep_policyVersion = None, dep_kernelVersion = None, dep_aggregateSnapshot = None, rateLimitRollback = None,
     confirmationReceipt = None, budgetGrant = None, dep_supersedes = None\<rparr>"

subsection \<open>Budget burn-down\<close>

text \<open>A store without the atomic primitive, or whose primitive throws, grants nothing.\<close>

definition runBudgetBurnDown ::
  "(string \<Rightarrow> int \<Rightarrow> int \<Rightarrow> ('w, int) eff) option \<Rightarrow> BudgetGrant \<Rightarrow> (string \<Rightarrow> string) \<Rightarrow> ('w, bool) proc" where
  "runBudgetBurnDown evalIncrCheck grant rk = (case evalIncrCheck of
      None \<Rightarrow> retP False
    | Some f \<Rightarrow> tryP
        (bindP (effP (f (rk (''budget:'' @ bg_budgetId grant @ '':'' @ bg_intentKind grant))
           (1000 * bg_windowSeconds grant) (bg_limit grant))) (\<lambda>n. retP (n \<noteq> 0)))
        (\<lambda>_. retP False))"

subsection \<open>Executing\<close>

record ('w, 's, 'h) DecisionTranslationContext =
  tc_seam :: "'w Seam"
  tc_toolUseId :: string
  tc_sessionId :: string
  tc_state :: 's
  tc_executor :: "('w, 's) AdopterExecutor"
  tc_deferStore :: "'w ParkRedis"
  tc_confirmationStore :: "('w, 'h PendingConfirmation) ConfirmationStore"
  tc_historySnapshot :: 'h
  tc_rk :: "string \<Rightarrow> string"
  tc_generateToken :: "('w, string) eff"
  tc_executorContract :: "OutputShape option"
  tc_resourceBindingPolicy :: "ResourceBindingPolicy option"
  tc_capabilityGate :: "'w CapabilityGate option"

text \<open>The envelope that a decision runs.\<close>

fun effective :: "Decision \<Rightarrow> IntentEnvelope \<Rightarrow> IntentEnvelope" where
  "effective (Rewrite rewritten why b) envelope = rewritten"
| "effective d envelope = envelope"

definition gate_passes :: "'w CapabilityGate \<Rightarrow> IntentEnvelope \<Rightarrow> ('w, bool) proc" where
  "gate_passes gate x =
     bindP (tryP (effP (burn (cg_burnStore gate) (e_nonce x))) (\<lambda>_. retP None)) (\<lambda>burned.
     case burned of
       None \<Rightarrow> retP False
     | Some cap \<Rightarrow> bindP (resultP (cg_verify gate cap)) (\<lambda>sigOk.
         retP (sigOk \<and> timingSafeHexEqual (cap_intentHash cap) (e_intentHash x))))"

text \<open>The dash of the note is a hyphen here, as the dash of the code is not a Latin-1 character.\<close>

definition execute_body :: "js \<Rightarrow> string option \<Rightarrow> js" where
  "execute_body v why = Obj ([(''ok'', Bool True), (''result'', v)]
     @ (case why of None \<Rightarrow> [] | Some r \<Rightarrow> [(''note'', Str (''Note: kernel rewrote your proposal - '' @ r))]))"

definition contract_events :: "OutputShape option \<Rightarrow> IntentEnvelope \<Rightarrow> js \<Rightarrow> AgentEvent list" where
  "contract_events contract x v = (case contract of None \<Rightarrow> [] | Some shape \<Rightarrow>
     (case validateOutputShape v shape of None \<Rightarrow> []
      | Some mismatch \<Rightarrow> [EvContractViolation (e_intentHash x) (e_kind x) mismatch]))"

fun executor_message :: "thrown \<Rightarrow> string" where
  "executor_message (ErrorObj n m) = m"
| "executor_message (ThrownValue s) = ''executor threw a non-Error value''"

definition run_executor ::
  "('w, 's, 'h) DecisionTranslationContext \<Rightarrow> IntentEnvelope \<Rightarrow> string option \<Rightarrow> ('w, DecisionTranslation) proc" where
  "run_executor ctx x why =
     bindP (tryP (bindP (effP (invokeIntent (tc_executor ctx) x (tc_state ctx))) (\<lambda>v. retP (Inr v)))
        (\<lambda>err. retP (Inl err))) (\<lambda>out.
     case out of
       Inl err \<Rightarrow> retP (translation (tc_toolUseId ctx) (''Executor failed: '' @ executor_message err) True LaContinue)
     | Inr v \<Rightarrow> bindP (resultP (JSON_stringify (execute_body v why))) (\<lambda>content.
         let r = \<lparr>tr_toolUseId = tc_toolUseId ctx, tr_content = content, tr_isError = False\<rparr>
         in retP \<lparr>dt_toolResult = Some r, dt_loopAction = LaContinue,
              dt_extraEvents = contract_events (tc_executorContract ctx) x v
                @ [EvHandlerResult (tc_toolUseId ctx) v, EvToolResult (tc_toolUseId ctx) r]\<rparr>))"

definition runExecute ::
  "('w, 's, 'h) DecisionTranslationContext \<Rightarrow> IntentEnvelope \<Rightarrow> string option \<Rightarrow> ('w, DecisionTranslation) proc" where
  "runExecute ctx x why =
     (let policy = (case tc_resourceBindingPolicy ctx of Some p \<Rightarrow> p | None \<Rightarrow> DEFAULT_RESOURCE_BINDING_POLICY) in
      if policy \<noteq> Off \<and> verifyResourceBinding (se_sha (tc_seam ctx)) x \<noteq> Bound
      then retP (translation (tc_toolUseId ctx)
        (if why \<noteq> None then ''Rewritten action could not be verified and was not executed.''
         else ''Action could not be verified (resource binding mismatch) and was not executed.'') True LaContinue)
      else case tc_capabilityGate ctx of
          None \<Rightarrow> run_executor ctx x why
        | Some gate \<Rightarrow> bindP (gate_passes gate x) (\<lambda>capOk.
            if \<not> capOk then retP (translation (tc_toolUseId ctx)
                ''Action could not be authorized (capability gate) and was not executed.'' True LaContinue)
            else run_executor ctx x why))"

subsection \<open>Translating a decision\<close>

fun escalate_name :: "EscalateTo \<Rightarrow> string" where
  "escalate_name human = ''human''"
| "escalate_name supervisor = ''supervisor''"

text \<open>\<open>Math.max(timeoutMs, 1000) / 1000 + 60\<close> seconds, in thousandths.\<close>

definition defer_ttl :: "int \<Rightarrow> int" where
  "defer_ttl timeoutMs = max timeoutMs 1000 + 60 * 1000"

definition translateDecision ::
  "('w, 's, 'h) DecisionTranslationContext \<Rightarrow> Decision \<Rightarrow> IntentEnvelope \<Rightarrow> ('w, DecisionTranslation) proc" where
  "translateDecision ctx decision envelope = (case decision of
      Execute b \<Rightarrow> runExecute ctx envelope None
    | Rewrite rewritten why b \<Rightarrow> runExecute ctx rewritten (Some why)
    | Refuse r b \<Rightarrow> retP (translation (tc_toolUseId ctx) (r_userFacing r) True LaContinue)
    | RequestConfirmation prompt b \<Rightarrow>
        bindP (effP (tc_generateToken ctx)) (\<lambda>token.
        bindP (effP (cfs_put (tc_confirmationStore ctx) token
           \<lparr>pc_envelope = envelope, pc_sessionId = tc_sessionId ctx,
            pc_assistantHistorySnapshot = tc_historySnapshot ctx, pc_toolUseId = tc_toolUseId ctx,
            pc_prompt = prompt\<rparr> (24 * 60 * 60 * 1000))) (\<lambda>_.
        retP (translation (tc_toolUseId ctx) (''Confirmation required: '' @ prompt) False
           (LaPauseForConfirmation prompt token))))
    | Escalate target why b \<Rightarrow> retP (translation (tc_toolUseId ctx)
        (''Escalated to '' @ escalate_name target @ '': '' @ why) False (LaCompleteForEscalation target why))
    | Defer signal timeoutMs b \<Rightarrow>
        bindP (parkDeferredIntent \<lparr>pa_envelope = parkable_of envelope, pa_signal = signal,
           pa_ttlSeconds = defer_ttl timeoutMs, pa_redis = tc_deferStore ctx, pa_rk = tc_rk ctx,
           pa_quotaPerSession = None, pa_transform = None,
           pa_recordResourceLimit = se_recordResourceLimit (tc_seam ctx), pa_nowIso = se_nowIso (tc_seam ctx)\<rparr>) (\<lambda>res.
        case res of
          QuotaExceeded observed limit \<Rightarrow> retP (translation (tc_toolUseId ctx)
            (''This action could not be queued (per-session quota exceeded; '' @ show_int observed @ ''/''
              @ show_int limit @ '').'') True LaContinue)
        | Parked n \<Rightarrow> retP (translation (tc_toolUseId ctx)
            (''Action queued. Waiting for signal \"'' @ signal @ ''\" (timeout '' @ show_int timeoutMs @ ''ms).'') False
            (LaPauseForDefer signal (e_intentHash envelope)))))"

definition makeOutOfPlanToolResult :: "string \<Rightarrow> string \<Rightarrow> ToolResultBlock" where
  "makeOutOfPlanToolResult toolUseId toolName = \<lparr>tr_toolUseId = toolUseId,
     tr_content = ''Tool \"'' @ toolName @ ''\" is not available in the current plan.'', tr_isError = True\<rparr>"

subsection \<open>Reads\<close>

definition readAuthorizationPolicy :: "TaintPolicy \<Rightarrow> 's PolicyBundle" where
  "readAuthorizationPolicy t = \<lparr>stateGuards = [], authGuards = [], taint_policy = t, business = [],
     policy_default = default_EXECUTE\<rparr>"

record ReadRouted =
  ro_toolResult :: ToolResultBlock
  ro_extraEvents :: "AgentEvent list"
  ro_served :: bool

fun read_detail :: "Decision \<Rightarrow> string" where
  "read_detail (Refuse r b) = r_userFacing r"
| "read_detail d = ''Read not authorized ('' @ kind_name (decision_kind d) @ '').''"

fun read_message :: "thrown \<Rightarrow> string" where
  "read_message (ErrorObj n m) = m"
| "read_message (ThrownValue s) = ''executor read failed''"

definition read_failed :: "string \<Rightarrow> string \<Rightarrow> AgentEvent list \<Rightarrow> ReadRouted" where
  "read_failed toolUseId content events =
     (let r = \<lparr>tr_toolUseId = toolUseId, tr_content = content, tr_isError = True\<rparr>
      in \<lparr>ro_toolResult = r, ro_extraEvents = events @ [EvToolResult toolUseId r], ro_served = False\<rparr>)"

definition serve_read ::
  "('w, 's) AdopterExecutor \<Rightarrow> string \<Rightarrow> js \<Rightarrow> 's \<Rightarrow> string \<Rightarrow> AgentEvent list \<Rightarrow> ('w, ReadRouted) proc" where
  "serve_read executor name input st toolUseId events =
     bindP (tryP (bindP (effP (invokeRead executor name input st)) (\<lambda>v. retP (Inr v))) (\<lambda>err. retP (Inl err))) (\<lambda>out.
     case out of
       Inl err \<Rightarrow> retP (read_failed toolUseId (''Tool failed: '' @ read_message err) events)
     | Inr v \<Rightarrow> bindP (resultP (JSON_stringify (execute_body v None))) (\<lambda>content.
         let r = \<lparr>tr_toolUseId = toolUseId, tr_content = content, tr_isError = False\<rparr>
         in retP \<lparr>ro_toolResult = r,
              ro_extraEvents = events @ [EvHandlerResult toolUseId v, EvToolResult toolUseId r], ro_served = True\<rparr>))"

definition routeReadThroughKernel ::
  "'w Seam \<Rightarrow> ('w, 's) AdopterExecutor \<Rightarrow> TaintPolicy \<Rightarrow> Plan \<Rightarrow> 's \<Rightarrow> string \<Rightarrow> string \<Rightarrow> string \<Rightarrow> js \<Rightarrow> string \<Rightarrow>
     ('w, ReadRouted) proc" where
  "routeReadThroughKernel se executor taint plan st sid toolUseId name input nonce =
     bindP (effP (se_nowIso se)) (\<lambda>now.
     bindP (resultP (buildEnvelopeFromToolUse (se_sha se) now
       \<lparr>ba_intentKind = name, ba_payload = input, ba_sessionId = sid, ba_taint = UNTRUSTED, ba_origin = LLM,
        ba_contamination = None, ba_nonce = nonce\<rparr>)) (\<lambda>envelope.
     bindP (adjudicateAndAudit (se_module se) envelope st (readAuthorizationPolicy taint) (seam_deps se plan)) (\<lambda>res.
     let events = [EvIntentProposed envelope, EvDecision (rs_decision res) envelope] in
     if decision_kind (rs_decision res) \<noteq> EXECUTE
     then retP (read_failed toolUseId (read_detail (rs_decision res)) events)
     else serve_read executor name input st toolUseId events)))"

end
