(* ===== verification/ConfigSeal.thy ===== *)
theory ConfigSeal
  imports Policy AuditRecords
begin

text \<open>
  Sealing the configuration of a pack: the description of a policy (packages/core/src/kernel/describe.ts),
  the seal over it (packages/conformance/src/config-seal.ts), pack fingerprints and signatures
  (pack-trust.ts) and the canonical rendering both use (canonical-json.ts). SHA-256 and the public-key
  operations of the platform are parameters.
\<close>

subsection \<open>The canonical rendering of the conformance package\<close>

definition seal_type_error :: "string \<Rightarrow> thrown" where
  "seal_type_error t = ErrorObj ''Error'' (''canonicalJson: unsupported value type ('' @ t @ '')'')"

definition seal_number_error :: "string \<Rightarrow> thrown" where
  "seal_number_error n = ErrorObj ''Error'' (''canonicalJson: non-finite number not representable (got '' @ n @ '')'')"

fun seal_json :: "js \<Rightarrow> string result" where
  "seal_json Undef = Inl (seal_type_error ''undefined'')"
| "seal_json Null = Inr ''null''"
| "seal_json (Bool b) = Inr (if b then ''true'' else ''false'')"
| "seal_json (Num (JInt i)) = Inr (show_int i)"
| "seal_json (Num JNaN) = Inl (seal_number_error ''NaN'')"
| "seal_json (Num JInf) = Inl (seal_number_error ''Infinity'')"
| "seal_json (Num JNegInf) = Inl (seal_number_error ''-Infinity'')"
| "seal_json (BigInt i) = Inl (seal_type_error ''bigint'')"
| "seal_json (Str s) = Inr (quote s)"
| "seal_json (Arr xs) = mapR (bracket (CHR ''['') (CHR '']''))
     (seqR (map (\<lambda>v. if v = Undef then Inr ''null'' else seal_json v) xs))"
| "seal_json (Obj es) = mapR (bracket (CHR ''{'') (CHR ''}''))
     (seqR (map (\<lambda>(k, r). mapR (\<lambda>t. quote k @ CHR '':'' # t) r)
       (by_key (map snd (filter fst (map (\<lambda>(k, v). (v \<noteq> Undef, k, seal_json v)) es))))))"

subsection \<open>The description of a policy\<close>

fun description_js :: "GuardDescription \<Rightarrow> js" where
  "description_js (desc_threshold n c e) = Obj [(''kind'', Str ''threshold''), (''threshold'', Num n),
     (''comparator'', Str c), (''emits'', opt_js (\<lambda>k. Str (kind_name k)) e)]"
| "description_js (desc_state_defer s t) = Obj [(''kind'', Str ''state_defer''), (''signal'', Str s), (''timeoutMs'', num t)]"
| "description_js (desc_system_taint ks) = Obj [(''kind'', Str ''system_taint''), (''systemOnlyKinds'', Arr (map Str ks))]"
| "description_js (desc_rewrite fs) = Obj [(''kind'', Str ''rewrite''), (''mutatesPayloadFields'', Arr (map Str fs))]"
| "description_js (desc_data_classification l a fs) = Obj [(''kind'', Str ''data_classification''),
     (''sensitivityLevel'', Str l), (''action'', Str (kind_name a)), (''scannedFields'', Arr (map Str fs))]"
| "description_js (desc_opaque n) = Obj [(''kind'', Str ''opaque''), (''note'', opt_js Str n)]"

fun meta_js :: "meta_value \<Rightarrow> js" where
  "meta_js MUndef = Undef"
| "meta_js (MStr s) = Str s"
| "meta_js (MDesc i d) = description_js d"

datatype GuardDescriptor = GdNamed GuardMetadata "string option" | GdAnonymous "string option"

record PolicyPhaseDescriptor =
  pd_phase :: string
  pd_guards :: "GuardDescriptor list"

record PolicyBundleDescriptor =
  pb_default :: PolicyDefault
  pb_phases :: "PolicyPhaseDescriptor list"

fun gd_codeDigest :: "GuardDescriptor \<Rightarrow> string option" where
  "gd_codeDigest (GdNamed m d) = d"
| "gd_codeDigest (GdAnonymous d) = d"

definition artifact_js :: "GuardCodeArtifact \<Rightarrow> js" where
  "artifact_js a = Obj [(''caps'', opt_js numbers_js (caps a)), (''source'', opt_js Str (art_source a))]"

definition digestGuardCode :: "(string \<Rightarrow> string) \<Rightarrow> GuardCodeArtifact option \<Rightarrow> string option result" where
  "digestGuardCode sha artifact = (case artifact of None \<Rightarrow> Inr None
     | Some a \<Rightarrow> mapR Some (sha256Canonical sha (artifact_js a)))"

definition describeGuard :: "(string \<Rightarrow> string) \<Rightarrow> 's Guard \<Rightarrow> GuardDescriptor result" where
  "describeGuard sha guard = mapR (\<lambda>codeDigest. case readGuardMetadata guard of
       None \<Rightarrow> GdAnonymous codeDigest | Some metadata \<Rightarrow> GdNamed metadata codeDigest)
     (digestGuardCode sha (readGuardCodeArtifact guard))"

definition describeGuards :: "(string \<Rightarrow> string) \<Rightarrow> 's Guard list \<Rightarrow> GuardDescriptor list result" where
  "describeGuards sha guards = seqR (map (describeGuard sha) guards)"

definition describePolicyBundle :: "(string \<Rightarrow> string) \<Rightarrow> 's PolicyBundle \<Rightarrow> PolicyBundleDescriptor result" where
  "describePolicyBundle sha bundle =
     bindR (describeGuards sha (stateGuards bundle)) (\<lambda>st.
     bindR (describeGuards sha (authGuards bundle)) (\<lambda>auth.
     mapR (\<lambda>biz. \<lparr>pb_default = policy_default bundle,
        pb_phases = [\<lparr>pd_phase = ''state'', pd_guards = st\<rparr>, \<lparr>pd_phase = ''taint'', pd_guards = [GdAnonymous None]\<rparr>,
          \<lparr>pd_phase = ''auth'', pd_guards = auth\<rparr>, \<lparr>pd_phase = ''business'', pd_guards = biz\<rparr>]\<rparr>)
       (describeGuards sha (business bundle))))"

fun descriptor_js :: "GuardDescriptor \<Rightarrow> js" where
  "descriptor_js (GdNamed m d) = Obj [(''kind'', Str ''named''),
     (''metadata'', Obj (map (\<lambda>(k, v). (k, meta_js v)) m)), (''codeDigest'', opt_js Str d)]"
| "descriptor_js (GdAnonymous d) = Obj [(''kind'', Str ''anonymous''), (''codeDigest'', opt_js Str d)]"

fun default_name :: "PolicyDefault \<Rightarrow> string" where
  "default_name default_REFUSE = ''REFUSE''"
| "default_name default_EXECUTE = ''EXECUTE''"

definition structure_js :: "PolicyBundleDescriptor \<Rightarrow> js" where
  "structure_js p = Obj [(''default'', Str (default_name (pb_default p))),
     (''phases'', Arr (map (\<lambda>ph. Obj [(''phase'', Str (pd_phase ph)),
        (''guards'', Arr (map descriptor_js (pd_guards ph)))]) (pb_phases p)))]"

subsection \<open>The sealed surface\<close>

record GuardCodeDigest =
  gc_phase :: string
  gc_index :: nat
  gc_codeDigest :: string

record SealableSurface =
  su_id :: string
  su_version :: string
  su_contract :: string
  su_intents :: "string list"
  su_signals :: "string list"
  su_basisCodes :: "string list"
  su_policyStructure :: PolicyBundleDescriptor
  su_guardCodeDigests :: "GuardCodeDigest list"
  su_taintMinimums :: "(string \<times> Taint) list"

record 's SealablePackInput =
  sp_id :: string
  sp_version :: string
  sp_contract :: string
  sp_intents :: "string list"
  sp_signals :: "string list option"
  sp_basisCodes :: "string list option"
  sp_policy :: "'s PolicyBundle"

definition collectGuardCodeDigests :: "PolicyBundleDescriptor \<Rightarrow> GuardCodeDigest list" where
  "collectGuardCodeDigests structure = concat (map (\<lambda>ph. concat (map (\<lambda>(i, g). case gd_codeDigest g of
       None \<Rightarrow> [] | Some d \<Rightarrow> [\<lparr>gc_phase = pd_phase ph, gc_index = i, gc_codeDigest = d\<rparr>])
     (enumerate 0 (pd_guards ph)))) (pb_phases structure))"

definition extractSealableSurface :: "(string \<Rightarrow> string) \<Rightarrow> 's SealablePackInput \<Rightarrow> SealableSurface result" where
  "extractSealableSurface sha pack =
     bindR (seqR (map (\<lambda>kind. mapR (Pair kind) (minimumFor (taint_policy (sp_policy pack)) kind)) (sort (sp_intents pack)))) (\<lambda>mins.
     mapR (\<lambda>structure. \<lparr>su_id = sp_id pack, su_version = sp_version pack, su_contract = sp_contract pack,
         su_intents = sort (sp_intents pack),
         su_signals = (case sp_signals pack of None \<Rightarrow> [] | Some xs \<Rightarrow> sort xs),
         su_basisCodes = (case sp_basisCodes pack of None \<Rightarrow> [] | Some xs \<Rightarrow> sort xs),
         su_policyStructure = structure, su_guardCodeDigests = collectGuardCodeDigests structure,
         su_taintMinimums = mins\<rparr>)
       (describePolicyBundle sha (sp_policy pack)))"

definition surface_js :: "SealableSurface \<Rightarrow> js" where
  "surface_js s = Obj [(''id'', Str (su_id s)), (''version'', Str (su_version s)), (''contract'', Str (su_contract s)),
     (''intents'', Arr (map Str (su_intents s))), (''signals'', Arr (map Str (su_signals s))),
     (''basisCodes'', Arr (map Str (su_basisCodes s))), (''policyStructure'', structure_js (su_policyStructure s)),
     (''guardCodeDigests'', Arr (map (\<lambda>g. Obj [(''phase'', Str (gc_phase g)), (''index'', num (int (gc_index g))),
        (''codeDigest'', Str (gc_codeDigest g))]) (su_guardCodeDigests s))),
     (''taintMinimums'', Arr (map (\<lambda>(k, t). Obj [(''kind'', Str k), (''minimum'', Str (taint_name t))])
        (su_taintMinimums s)))]"

definition computeConfigDigest :: "(string \<Rightarrow> string) \<Rightarrow> SealableSurface \<Rightarrow> string result" where
  "computeConfigDigest sha surface = mapR sha (seal_json (surface_js surface))"

subsection \<open>Signatures\<close>

record PackSignature =
  ps_algorithm :: string
  ps_keyId :: string
  ps_value :: string

text \<open>
  The platform's keys: the type of the key in a PEM text, signing and verifying a text with a key. Each
  may throw on a malformed key.
\<close>

record Crypto =
  cy_keyType :: "string \<Rightarrow> string result"
  cy_sign :: "string \<Rightarrow> string \<Rightarrow> string \<Rightarrow> string result"
  cy_verify :: "string \<Rightarrow> string \<Rightarrow> string \<Rightarrow> string \<Rightarrow> bool result"

datatype SignatureVerification = SigVerified | SigFailed string | SigAbsent string

definition signPackFingerprint :: "Crypto \<Rightarrow> string \<Rightarrow> string \<Rightarrow> string \<Rightarrow> string \<Rightarrow> PackSignature result" where
  "signPackFingerprint cy fingerprint privateKeyPem algorithm keyId =
     mapR (\<lambda>v. \<lparr>ps_algorithm = algorithm, ps_keyId = keyId, ps_value = v\<rparr>)
       (cy_sign cy algorithm privateKeyPem fingerprint)"

definition verifyPackSignature ::
  "Crypto \<Rightarrow> string \<Rightarrow> PackSignature \<Rightarrow> string \<Rightarrow> SignatureVerification result" where
  "verifyPackSignature cy fingerprint sig publicKeyPem = (case cy_keyType cy publicKeyPem of
      Inl err \<Rightarrow> Inl (ErrorObj ''Error'' (''verifyPackSignature: invalid public key PEM ('' @ err_message err @ '')''))
    | Inr keyType \<Rightarrow>
        if ps_algorithm sig = ''ed25519'' \<and> keyType \<noteq> ''ed25519'' \<or> ps_algorithm sig = ''rsa-pss-sha256'' \<and> keyType \<noteq> ''rsa''
        then Inr (SigFailed ''key_algorithm_mismatch'')
        else if ps_algorithm sig \<noteq> ''ed25519'' \<and> ps_algorithm sig \<noteq> ''rsa-pss-sha256''
        then Inr (SigFailed ''unsupported_algorithm'')
        else mapR (\<lambda>ok. if ok then SigVerified else SigFailed ''signature_mismatch'')
          (cy_verify cy (ps_algorithm sig) publicKeyPem fingerprint (ps_value sig)))"

subsection \<open>Seals\<close>

record ConfigSeal =
  cl_digest :: string
  cl_signature :: "PackSignature option"
  cl_packId :: string
  cl_sealedAt :: "string option"

record SealOptions =
  so_privateKeyPem :: "string option"
  so_algorithm :: "string option"
  so_keyId :: "string option"
  so_sealedAt :: "string option"

definition sealPackConfig ::
  "(string \<Rightarrow> string) \<Rightarrow> Crypto \<Rightarrow> 's SealablePackInput \<Rightarrow> SealOptions \<Rightarrow> ConfigSeal result" where
  "sealPackConfig sha cy pack opts =
     bindR (bindR (extractSealableSurface sha pack) (computeConfigDigest sha)) (\<lambda>digest.
     mapR (\<lambda>sig. \<lparr>cl_digest = digest, cl_signature = sig, cl_packId = sp_id pack, cl_sealedAt = so_sealedAt opts\<rparr>)
       (case so_privateKeyPem opts of None \<Rightarrow> Inr None
        | Some pem \<Rightarrow> mapR Some (signPackFingerprint cy digest pem
            (case so_algorithm opts of Some a \<Rightarrow> a | None \<Rightarrow> ''ed25519'')
            (case so_keyId opts of Some k \<Rightarrow> k | None \<Rightarrow> ''config-seal''))))"

datatype ConfigSealPolicy = require_digest | require_signature

record SealVerifyOptions =
  sv_publicKeyPem :: "string option"
  sv_policy :: "ConfigSealPolicy option"

record ConfigSealReport =
  sr_verified :: bool
  sr_digestMatch :: bool
  sr_computedDigest :: string
  sr_expectedDigest :: string
  sr_signatureVerification :: SignatureVerification
  sr_errors :: "string list"

definition seal_signature_check ::
  "Crypto \<Rightarrow> ConfigSeal \<Rightarrow> SealVerifyOptions \<Rightarrow> (SignatureVerification \<times> string list) result" where
  "seal_signature_check cy cl opts = (case (cl_signature cl, sv_publicKeyPem opts) of
      (Some sig, Some pem) \<Rightarrow> mapR (\<lambda>v. (v, case v of SigFailed r \<Rightarrow> [''config seal signature failed: '' @ r] | _ \<Rightarrow> []))
        (verifyPackSignature cy (cl_digest cl) sig pem)
    | _ \<Rightarrow> if sv_policy opts = Some require_signature
        then Inr (SigAbsent ''not_supplied'', [''config seal policy require_signature requires signature + publicKeyPem''])
        else Inr (SigAbsent ''not_required'', []))"

definition buildConfigSealReport ::
  "Crypto \<Rightarrow> string \<Rightarrow> ConfigSeal \<Rightarrow> SealVerifyOptions \<Rightarrow> ConfigSealReport result" where
  "buildConfigSealReport cy computed cl opts =
     mapR (\<lambda>(v, sigErrors).
       let errors = (if computed = cl_digest cl then []
             else [''config digest mismatch: expected '' @ cl_digest cl @ '', got '' @ computed]) @ sigErrors
       in \<lparr>sr_verified = (errors = []), sr_digestMatch = (computed = cl_digest cl), sr_computedDigest = computed,
           sr_expectedDigest = cl_digest cl, sr_signatureVerification = v, sr_errors = errors\<rparr>)
     (seal_signature_check cy cl opts)"

definition verifyConfigSealFrozen ::
  "(string \<Rightarrow> string) \<Rightarrow> Crypto \<Rightarrow> SealableSurface \<Rightarrow> ConfigSeal \<Rightarrow> SealVerifyOptions \<Rightarrow> ConfigSealReport result" where
  "verifyConfigSealFrozen sha cy frozen cl opts =
     bindR (computeConfigDigest sha frozen) (\<lambda>d. buildConfigSealReport cy d cl opts)"

definition verifyConfigSeal ::
  "(string \<Rightarrow> string) \<Rightarrow> Crypto \<Rightarrow> 's SealablePackInput \<Rightarrow> ConfigSeal \<Rightarrow> SealVerifyOptions \<Rightarrow> ConfigSealReport result" where
  "verifyConfigSeal sha cy pack cl opts =
     bindR (bindR (extractSealableSurface sha pack) (computeConfigDigest sha)) (\<lambda>d. buildConfigSealReport cy d cl opts)"

subsection \<open>The rendering determines the sealed surface\<close>

text \<open>The value a rendering stands for: keys in order, absent properties dropped.\<close>

fun seal_norm :: "js \<Rightarrow> js" where
  "seal_norm (Arr xs) = Arr (map (\<lambda>v. if v = Undef then Null else seal_norm v) xs)"
| "seal_norm (Obj es) = Obj (by_key (map snd (filter fst (map (\<lambda>(k, v). (v \<noteq> Undef, k, seal_norm v)) es))))"
| "seal_norm v = v"

lemma filter_entries:
  "map snd (filter fst (map (\<lambda>(k, v). (v \<noteq> Undef, k, f v)) es)) = map (\<lambda>(k, v). (k, f v)) (filter (\<lambda>(k, v). v \<noteq> Undef) es)"
  by (induction es) auto

lemma by_key_map:
  fixes f :: "'a \<Rightarrow> 'b"
  shows "by_key (map (\<lambda>(k, v). (k, f v)) es) = map (\<lambda>(k, v). (k, f v)) (by_key es)"
proof -
  have ins: "insort_key fst ((\<lambda>(k, v). (k, f v)) x) (map (\<lambda>(k, v). (k, f v)) ys)
      = map (\<lambda>(k, v). (k, f v)) (insort_key fst x ys)" for x :: "string \<times> 'a" and ys
    by (induction ys) (auto simp: case_prod_unfold)
  show ?thesis unfolding by_key_def by (induction es) (simp_all add: ins)
qed

lemma seqR_map_stringify:
  assumes "seqR (map f xs) = Inr ss" "\<And>x s. x \<in> set xs \<Longrightarrow> f x = Inr s \<Longrightarrow> s = g x"
  shows "ss = map g xs"
proof -
  have "map f xs = map Inr ss" using assms(1) by (rule seqR_InrD)
  then show ?thesis using assms(2)
  proof (induction xs arbitrary: ss)
    case (Cons x xs)
    then obtain s ss' where "ss = s # ss'" "f x = Inr s" "map f xs = map Inr ss'" by (cases ss) auto
    with Cons.IH [of ss'] Cons.prems(2) show ?case by simp
  qed simp
qed

lemma seqR_all: "seqR (map f xs) = Inr ss \<Longrightarrow> x \<in> set xs \<Longrightarrow> \<exists>s. f x = Inr s"
  by (induction xs arbitrary: ss) (auto split: sum.splits)

lemma seal_json_norm: "seal_json v = Inr s \<Longrightarrow> plain (seal_norm v) \<and> s = stringify (seal_norm v)"
proof (induction v arbitrary: s rule: seal_json.induct)
  case (10 xs)
  let ?f = "\<lambda>v. if v = Undef then Inr ''null'' else seal_json v"
  let ?n = "\<lambda>v. if v = Undef then Null else seal_norm v"
  from 10(2) obtain ss where ss: "seqR (map ?f xs) = Inr ss" "s = bracket (CHR ''['') (CHR '']'') ss"
    by (auto simp: mapR_Inr)
  have elem: "plain (?n x) \<and> t = stringify (?n x)" if "x \<in> set xs" "?f x = Inr t" for x t
    using 10(1) [OF that(1)] that(2) by (auto split: if_splits)
  have "ss = map (\<lambda>x. stringify (?n x)) xs"
    by (rule seqR_map_stringify [OF ss(1)]) (use elem in blast)
  moreover have "plain (?n x)" if "x \<in> set xs" for x
    using seqR_all [OF ss(1) that] elem [OF that] by metis
  then have "list_all plain (map ?n xs)" by (simp only: list_all_iff set_map) blast
  ultimately show ?case by (simp add: ss(2) comp_def)
next
  case (11 es)
  let ?es = "by_key (filter (\<lambda>(k, v). v \<noteq> Undef) es)"
  let ?f = "\<lambda>(k, v). mapR (\<lambda>t. quote k @ CHR '':'' # t) (seal_json v)"
  have norm: "seal_norm (Obj es) = Obj (map (\<lambda>(k, v). (k, seal_norm v)) ?es)"
    by (simp add: filter_entries by_key_map)
  have "seal_json (Obj es) = mapR (bracket (CHR ''{'') (CHR ''}'')) (seqR (map ?f ?es))"
    by (simp only: seal_json.simps filter_entries by_key_map map_map) (simp add: comp_def case_prod_unfold)
  from 11(2) [unfolded this] obtain ss where ss: "seqR (map ?f ?es) = Inr ss" "s = bracket (CHR ''{'') (CHR ''}'') ss"
    unfolding mapR_Inr by blast
  have sub: "e \<in> set es \<and> snd e \<noteq> Undef" if "e \<in> set ?es" for e
    using that by (auto simp: by_key_def)
  have elem: "plain (seal_norm (snd e)) \<and> t = stringify_entry (fst e, seal_norm (snd e))"
    if e: "e \<in> set ?es" "?f e = Inr t" for e t
  proof -
    from e(2) obtain t' where t': "seal_json (snd e) = Inr t'" "t = quote (fst e) @ CHR '':'' # t'"
      by (auto simp: mapR_Inr case_prod_unfold)
    have "plain (seal_norm (snd e)) \<and> t' = stringify (seal_norm (snd e))"
      using 11(1) [of e "fst e" "snd e" t'] sub [OF e(1)] t'(1) by simp
    with t'(2) show ?thesis by (simp add: stringify_entry_def)
  qed
  have "ss = map (\<lambda>e. stringify_entry (fst e, seal_norm (snd e))) ?es"
    by (rule seqR_map_stringify [OF ss(1)]) (use elem in blast)
  moreover have pl: "plain (seal_norm (Obj es))"
  proof -
    have "plain (seal_norm (snd e))" if "e \<in> set ?es" for e
      using seqR_all [OF ss(1) that] elem [OF that] by blast
    then show ?thesis by (simp only: norm plain.simps list_all_iff set_map) (simp add: case_prod_unfold)
  qed
  ultimately show ?case
    using stringify_plain_obj [OF pl [unfolded norm]] by (simp only: norm ss(2) map_map comp_def case_prod_unfold)
qed auto

lemma seal_json_inject: "seal_json v = Inr s \<Longrightarrow> seal_json w = Inr s \<Longrightarrow> seal_norm v = seal_norm w"
  using seal_json_norm stringify_plain_inject by metis

lemma norm_strings: "seal_norm (Arr (map Str xs)) = Arr (map Str xs)"
  by (simp add: comp_def)

text \<open>What two surfaces with the same rendering have in common.\<close>

definition same_surface :: "SealableSurface \<Rightarrow> SealableSurface \<Rightarrow> bool" where
  "same_surface s s' \<longleftrightarrow> su_id s = su_id s' \<and> su_version s = su_version s' \<and> su_contract s = su_contract s'
     \<and> su_intents s = su_intents s' \<and> su_signals s = su_signals s' \<and> su_basisCodes s = su_basisCodes s'
     \<and> su_guardCodeDigests s = su_guardCodeDigests s' \<and> su_taintMinimums s = su_taintMinimums s'
     \<and> seal_norm (structure_js (su_policyStructure s)) = seal_norm (structure_js (su_policyStructure s'))"

lemma map_inject_on: "map f xs = map f ys \<Longrightarrow> (\<And>x y. f x = f y \<Longrightarrow> x = y) \<Longrightarrow> xs = ys"
  by (metis injI inj_map_eq_map)

lemma structure_defined: "structure_js p \<noteq> Undef"
  by (simp add: structure_js_def)

lemma surface_norm:
  "seal_norm (surface_js s) = Obj
     [(''basisCodes'', Arr (map Str (su_basisCodes s))), (''contract'', Str (su_contract s)),
      (''guardCodeDigests'', Arr (map (\<lambda>g. Obj [(''codeDigest'', Str (gc_codeDigest g)), (''index'', num (int (gc_index g))),
         (''phase'', Str (gc_phase g))]) (su_guardCodeDigests s))),
      (''id'', Str (su_id s)), (''intents'', Arr (map Str (su_intents s))),
      (''policyStructure'', seal_norm (structure_js (su_policyStructure s))), (''signals'', Arr (map Str (su_signals s))),
      (''taintMinimums'', Arr (map (\<lambda>(k, t). Obj [(''kind'', Str k), (''minimum'', Str (taint_name t))]) (su_taintMinimums s))),
      (''version'', Str (su_version s))]"
  by (simp add: surface_js_def by_key_def comp_def case_prod_unfold structure_defined)

lemma surface_norm_inject: "seal_norm (surface_js s) = seal_norm (surface_js s') \<Longrightarrow> same_surface s s'"
  unfolding surface_norm same_surface_def
  by (auto simp: taint_name_inject elim!: map_inject_on intro!: GuardCodeDigest.equality)

subsection \<open>A verified seal\<close>

definition surface_collision :: "(string \<Rightarrow> string) \<Rightarrow> SealableSurface \<Rightarrow> SealableSurface \<Rightarrow> bool" where
  "surface_collision sha s s' \<longleftrightarrow> (\<exists>a b. seal_json (surface_js s) = Inr a \<and> seal_json (surface_js s') = Inr b
     \<and> a \<noteq> b \<and> sha a = sha b)"

lemma seal_signature_errors:
  "seal_signature_check cy cl opts = Inr (v, errs) \<Longrightarrow>
     errs = [] \<longleftrightarrow> v = SigVerified \<or> v = SigAbsent ''not_required'' \<and> sv_policy opts \<noteq> Some require_signature"
  by (auto simp: seal_signature_check_def mapR_Inr verifyPackSignature_def
      split: option.splits if_splits sum.splits SignatureVerification.splits)

lemma buildConfigSealReport_verified:
  "buildConfigSealReport cy d cl opts = Inr rep \<Longrightarrow> sr_verified rep \<longleftrightarrow> d = cl_digest cl
     \<and> (sr_signatureVerification rep = SigVerified
       \<or> sr_signatureVerification rep = SigAbsent ''not_required'' \<and> sv_policy opts \<noteq> Some require_signature)"
  using seal_signature_errors [of cy cl opts]
  by (auto simp: buildConfigSealReport_def mapR_Inr Let_def split: if_splits)

text \<open>A verified seal pins the configuration. If a pack verifies against a seal that was made from
  another pack, both have the same identity, version, contract, intents, signals, basis codes, taint
  minimums, digests of guard code and described policy structure, unless the digest of the two renderings
  collides; and where a signature is required, it was present and verified.\<close>

lemma drift_detected:
  assumes "sealPackConfig sha cy original so = Inr cl" "verifyConfigSeal sha cy pack cl opts = Inr rep" "sr_verified rep"
  shows "(\<exists>s0 s. extractSealableSurface sha original = Inr s0 \<and> extractSealableSurface sha pack = Inr s
      \<and> (surface_collision sha s s0 \<or> same_surface s s0))
    \<and> (sv_policy opts = Some require_signature \<longrightarrow> sr_signatureVerification rep = SigVerified)"
proof -
  from assms(1) obtain s0 where s0: "extractSealableSurface sha original = Inr s0"
    "computeConfigDigest sha s0 = Inr (cl_digest cl)" by (auto simp: sealPackConfig_def result_simps)
  from assms(2) obtain s d where s: "extractSealableSurface sha pack = Inr s" "computeConfigDigest sha s = Inr d"
    and rep: "buildConfigSealReport cy d cl opts = Inr rep" by (auto simp: verifyConfigSeal_def result_simps)
  note v = buildConfigSealReport_verified [OF rep]
  from v assms(3) have d: "d = cl_digest cl" by simp
  from s0(2) s(2) obtain a b where ab: "seal_json (surface_js s) = Inr a" "seal_json (surface_js s0) = Inr b"
    "sha a = d" "sha b = cl_digest cl" by (auto simp: computeConfigDigest_def mapR_Inr)
  have "surface_collision sha s s0 \<or> same_surface s s0"
  proof (cases "a = b")
    case True
    with ab(1,2) have "same_surface s s0" by (intro surface_norm_inject seal_json_inject [of _ a]) simp_all
    then show ?thesis ..
  next
    case False
    with ab d have "surface_collision sha s s0" by (simp add: surface_collision_def)
    then show ?thesis ..
  qed
  with s0(1) s(1) v assms(3) show ?thesis by auto
qed

definition sample_pack :: "string \<Rightarrow> unit SealablePackInput" where
  "sample_pack i = \<lparr>sp_id = i, sp_version = ''1'', sp_contract = ''v0'', sp_intents = [''b'', ''a''],
     sp_signals = None, sp_basisCodes = None, sp_policy = \<lparr>stateGuards = [], authGuards = [],
       taint_policy = \<lparr>minimumFor = (\<lambda>_. Inr TRUSTED), requiresUncontaminatedOrigin = None\<rparr>,
       business = [constant_guard (Execute [])], policy_default = default_REFUSE\<rparr>\<rparr>"

definition no_crypto :: Crypto where
  "no_crypto = \<lparr>cy_keyType = (\<lambda>_. Inr []), cy_sign = (\<lambda>_ _ _. Inr []), cy_verify = (\<lambda>_ _ _ _. Inr False)\<rparr>"

definition plain_seal :: SealOptions where
  "plain_seal = \<lparr>so_privateKeyPem = None, so_algorithm = None, so_keyId = None, so_sealedAt = None\<rparr>"

definition digest_only :: SealVerifyOptions where
  "digest_only = \<lparr>sv_publicKeyPem = None, sv_policy = None\<rparr>"

lemma sample_surface:
  "\<exists>s d. extractSealableSurface sha (sample_pack i) = Inr s \<and> computeConfigDigest sha s = Inr d"
  by (simp add: extractSealableSurface_def sample_pack_def describePolicyBundle_def describeGuards_def
      describeGuard_def digestGuardCode_def constant_guard_def anonymous_guard_def readGuardCodeArtifact_def readGuardMetadata_def
      computeConfigDigest_def surface_js_def structure_js_def collectGuardCodeDigests_def by_key_def)

lemma sample_sealed:
  "\<exists>cl rep. sealPackConfig sha no_crypto (sample_pack i) plain_seal = Inr cl
     \<and> verifyConfigSeal sha no_crypto (sample_pack i) cl digest_only = Inr rep \<and> sr_verified rep"
proof -
  obtain s d where s: "extractSealableSurface sha (sample_pack i) = Inr s" "computeConfigDigest sha s = Inr d"
    using sample_surface by blast
  then obtain cl where cl: "sealPackConfig sha no_crypto (sample_pack i) plain_seal = Inr cl" "cl_digest cl = d"
    "cl_signature cl = None"
    by (simp add: sealPackConfig_def plain_seal_def)
  then obtain rep where "verifyConfigSeal sha no_crypto (sample_pack i) cl digest_only = Inr rep" "sr_verified rep"
    using s by (simp add: verifyConfigSeal_def buildConfigSealReport_def seal_signature_check_def digest_only_def)
  with cl show ?thesis by blast
qed

text \<open>Checking the frozen surface is the same as checking the pack the surface was taken from.\<close>

lemma frozen_seal:
  "extractSealableSurface sha pack = Inr s \<Longrightarrow> verifyConfigSealFrozen sha cy s cl opts = verifyConfigSeal sha cy pack cl opts"
  by (simp add: verifyConfigSealFrozen_def verifyConfigSeal_def)

text \<open>
  What the seal does not pin: the behaviour of guards without a code artifact, and the origins the taint
  policy demands.
\<close>

definition reshaped :: "('s Guard \<Rightarrow> 's Guard) \<Rightarrow> (string \<Rightarrow> bool result) option \<Rightarrow> 's SealablePackInput \<Rightarrow> 's SealablePackInput" where
  "reshaped f origins pack = pack\<lparr>sp_policy := (sp_policy pack)\<lparr>stateGuards := map f (stateGuards (sp_policy pack)),
     authGuards := map f (authGuards (sp_policy pack)), business := map f (business (sp_policy pack)),
     taint_policy := (taint_policy (sp_policy pack))\<lparr>requiresUncontaminatedOrigin := origins\<rparr>\<rparr>\<rparr>"

lemma seal_blind:
  "extractSealableSurface sha (reshaped (\<lambda>g. g\<lparr>g_call := body g\<rparr>) origins pack) = extractSealableSurface sha pack"
proof -
  have "describeGuards sha (map (\<lambda>g. g\<lparr>g_call := body g\<rparr>) gs) = describeGuards sha gs" for gs :: "'a Guard list"
  proof -
    have "describeGuard sha (g\<lparr>g_call := body g\<rparr>) = describeGuard sha g" for g
      by (simp add: describeGuard_def readGuardMetadata_def readGuardCodeArtifact_def)
    then show ?thesis by (simp add: describeGuards_def comp_def)
  qed
  then show ?thesis by (simp add: extractSealableSurface_def reshaped_def describePolicyBundle_def)
qed

end
