(* ===== verification/Agent.thy ===== *)
theory Agent
  imports Decisions ConfigSeal
begin

text \<open>
  The adjudicated agent (packages/adapter-core/src/loop.ts, types.ts, errors.ts, trace.ts): the turn loop over a
  provider, with its three entry points send, resume and confirm. Every awaited or synchronous call is a
  step of a process; what runs without interruption in the code, the seal check together with the capture
  of the policy it vouches for, is one step. The installed pack is read from the world, as it may be
  changed under the agent. Loggers are left out; the operations of a provider's history are total.
\<close>

subsection \<open>Options\<close>

record TokenUsage =
  us_inputTokens :: "int option"
  us_outputTokens :: "int option"

record AssistantTurn =
  at_textBlocks :: "string list"
  at_toolUses :: "ToolUseRequest list"
  at_usage :: "TokenUsage option"

record ProviderRequest =
  pr_systemPrompt :: string
  pr_maxTokens :: int
  pr_toolSchemas :: "js list"

record ('w, 'h) ProviderBridge =
  emptyHistory :: 'h
  appendUserMessage :: "'h \<Rightarrow> string \<Rightarrow> 'h"
  bridge_send :: "'h \<Rightarrow> ProviderRequest \<Rightarrow> ('w, 'h \<times> AssistantTurn) eff"
  appendToolResults :: "'h \<Rightarrow> ToolResultBlock list \<Rightarrow> 'h"

datatype AgentOutcome =
    OutCompleted string
  | OutDeferred string string
  | OutAwaitingConfirmation string string
  | OutEscalated EscalateTo string
  | OutMaxIterations "Decision option"
  | OutRefused string string

record 'h AgentTurnResult =
  at_events :: "AgentEvent list"
  at_history :: 'h
  at_outcome :: AgentOutcome

datatype AdapterTracePhase =
  tp_iteration_start | tp_decision_emitted | tp_paused | tp_completed | tp_max_iterations | tp_config_seal_violation

datatype AdapterPauseReason = pr_deferred | pr_awaiting_confirmation | pr_escalated

record AdapterTraceEvent =
  te_phase :: AdapterTracePhase
  te_sessionId :: string
  te_iteration :: nat
  te_decisionKind :: "DecisionKind option"
  te_pauseReason :: "AdapterPauseReason option"

datatype Reverify = every_turn | frozen_surface | ttl_ms int

record 'w AgentConfigSealOptions =
  ac_seal :: ConfigSeal
  ac_verify :: SealVerifyOptions
  ac_engageKillSwitchOnMismatch :: bool
  ac_reverify :: "Reverify option"
  ac_onDrift :: "(ConfigSealReport \<Rightarrow> ('w, unit) eff) option"

text \<open>The variables of the agent's closure that outlive a turn.\<close>

record SealCache =
  frozenSurface :: "SealableSurface option"
  sealCachedReport :: "(ConfigSealReport \<times> int) option"

record ('s, 'c) PackV0 =
  pv_sealable :: "'s SealablePackInput"
  pv_plan :: "'s \<Rightarrow> 'c \<Rightarrow> Plan result"
  pv_executorContract :: "string \<Rightarrow> OutputShape option"

record 'w MemoryStore =
  mm_get :: "string \<Rightarrow> ('w, js option) eff"
  mm_put :: "string \<Rightarrow> js \<Rightarrow> int \<Rightarrow> ('w, unit) eff"
  mm_versioned :: "((string \<Rightarrow> ('w, js option \<times> nat) eff) \<times> (string \<Rightarrow> js \<Rightarrow> nat \<Rightarrow> int \<Rightarrow> ('w, nat option) eff)) option"

record 'w ContaminationStore =
  ct_get :: "string \<Rightarrow> ('w, SessionContamination option) eff"
  ct_put :: "string \<Rightarrow> SessionContamination \<Rightarrow> int \<Rightarrow> ('w, unit) eff"
  ct_clear :: "string \<Rightarrow> ('w, unit) eff"

record 'w BudgetConfig =
  bc_evalIncrCheck :: "(string \<Rightarrow> int \<Rightarrow> int \<Rightarrow> ('w, int) eff) option"
  bc_resolveGrant :: "string \<Rightarrow> ('w, BudgetGrant option) eff"

record ('w, 's, 'c, 'h) AgentOptions =
  ao_seam :: "'w Seam"
  ao_pack :: "'w \<Rightarrow> ('s, 'c) PackV0"
  ao_render :: "'s \<Rightarrow> 'c \<Rightarrow> Plan \<Rightarrow> ProviderRequest result"
  ao_bridge :: "('w, 'h) ProviderBridge"
  ao_deferRedis :: "'w DeferRedis"
  ao_parkRedis :: "'w ParkRedis"
  ao_confirmationStore :: "('w, 'h PendingConfirmation) ConfirmationStore"
  ao_maxIterations :: "nat option"
  ao_executor :: "('w, 's) AdopterExecutor"
  ao_rk :: "(string \<Rightarrow> string) option"
  ao_deriveNonce :: "(string \<Rightarrow> string \<Rightarrow> js \<Rightarrow> string result) option"
  ao_onTokenUsage :: "(string \<Rightarrow> nat \<Rightarrow> TokenUsage option \<Rightarrow> ('w, unit) eff) option"
  ao_onCatch :: "(string \<Rightarrow> string \<Rightarrow> string \<Rightarrow> ('w, unit) eff) option"
  ao_memoryStore :: "'w MemoryStore option"
  ao_enrichContext :: "('c \<Rightarrow> js option \<Rightarrow> 'c result) option"
  ao_deriveMemoryWriteback :: "(string \<Rightarrow> 'c \<Rightarrow> js option \<Rightarrow> 'h AgentTurnResult \<Rightarrow> (js \<times> int) option result) option"
  ao_configSeal :: "'w AgentConfigSealOptions option"
  ao_crypto :: Crypto
  ao_sealCache :: "'w \<Rightarrow> SealCache"
  ao_putSealCache :: "SealCache \<Rightarrow> 'w \<Rightarrow> 'w"
  ao_setKillSwitch :: "('w, unit) eff"
  ao_verifyParkedHash :: "verify_mode option"
  ao_resourceBindingPolicy :: "ResourceBindingPolicy option"
  ao_capabilityGate :: "'w CapabilityGate option"
  ao_budget :: "'w BudgetConfig option"
  ao_contaminationEnabled :: bool
  ao_contaminationStore :: "'w ContaminationStore option"
  ao_onTrace :: "AdapterTraceEvent \<Rightarrow> ('w, unit) eff"
  ao_randomUUID :: "('w, string) eff"

definition max_iterations :: "('w, 's, 'c, 'h) AgentOptions \<Rightarrow> nat" where
  "max_iterations ao = (case ao_maxIterations ao of Some n \<Rightarrow> n | None \<Rightarrow> 8)"

definition agent_rk :: "('w, 's, 'c, 'h) AgentOptions \<Rightarrow> string \<Rightarrow> string" where
  "agent_rk ao = (case ao_rk ao of Some f \<Rightarrow> f | None \<Rightarrow> id)"

definition deriveNonce :: "('w, 's, 'c, 'h) AgentOptions \<Rightarrow> string \<Rightarrow> string \<Rightarrow> js \<Rightarrow> string result" where
  "deriveNonce ao sid toolUseId p = (case ao_deriveNonce ao of Some f \<Rightarrow> f sid toolUseId p | None \<Rightarrow> Inr toolUseId)"

text \<open>The store is used only when contamination is enabled.\<close>

definition contamination_store :: "('w, 's, 'c, 'h) AgentOptions \<Rightarrow> 'w ContaminationStore option" where
  "contamination_store ao = (if ao_contaminationEnabled ao then ao_contaminationStore ao else None)"

definition readE :: "('w \<Rightarrow> 'a) \<Rightarrow> ('w, 'a) eff" where
  "readE f = (\<lambda>w. (Inr (f w), w))"

definition trace_event :: "AdapterTracePhase \<Rightarrow> string \<Rightarrow> nat \<Rightarrow> AdapterTraceEvent" where
  "trace_event ph sid i = \<lparr>te_phase = ph, te_sessionId = sid, te_iteration = i, te_decisionKind = None, te_pauseReason = None\<rparr>"

subsection \<open>The configuration seal\<close>

definition seal_report ::
  "('w, 's, 'c, 'h) AgentOptions \<Rightarrow> 'w AgentConfigSealOptions \<Rightarrow> ('w, ConfigSealReport) eff" where
  "seal_report ao cfg =
     (let sha = se_sha (ao_seam ao);
          current = (\<lambda>w. (verifyConfigSeal sha (ao_crypto ao) (pv_sealable (ao_pack ao w)) (ac_seal cfg) (ac_verify cfg), w))
      in case ac_reverify cfg of
        Some frozen_surface \<Rightarrow>
          bindE (\<lambda>w. case frozenSurface (ao_sealCache ao w) of
              Some s \<Rightarrow> (Inr s, w)
            | None \<Rightarrow> (case extractSealableSurface sha (pv_sealable (ao_pack ao w)) of
                Inl err \<Rightarrow> (Inl err, w)
              | Inr s \<Rightarrow> (Inr s, ao_putSealCache ao ((ao_sealCache ao w)\<lparr>frozenSurface := Some s\<rparr>) w)))
            (\<lambda>s w. (verifyConfigSealFrozen sha (ao_crypto ao) s (ac_seal cfg) (ac_verify cfg), w))
      | Some (ttl_ms ttl) \<Rightarrow>
          bindE (se_nowMs (ao_seam ao)) (\<lambda>now. bindE (readE (\<lambda>w. sealCachedReport (ao_sealCache ao w))) (\<lambda>cached.
            case cached of
              Some (rep, t) \<Rightarrow> if now - t < ttl then retE rep
                else bindE current (\<lambda>r w. (Inr r, ao_putSealCache ao ((ao_sealCache ao w)\<lparr>sealCachedReport := Some (r, now)\<rparr>) w))
            | None \<Rightarrow> bindE current (\<lambda>r w. (Inr r, ao_putSealCache ao ((ao_sealCache ao w)\<lparr>sealCachedReport := Some (r, now)\<rparr>) w))))
      | _ \<Rightarrow> current)"

definition seal_refusal :: "('w, 's, 'c, 'h) AgentOptions \<Rightarrow> ConfigSealReport \<Rightarrow> 'h AgentTurnResult" where
  "seal_refusal ao rep = \<lparr>at_events = [], at_history = emptyHistory (ao_bridge ao),
     at_outcome = OutRefused ''config_seal_mismatch'' (join ''; '' (sr_errors rep))\<rparr>"

definition checkConfigSeal ::
  "('w, 's, 'c, 'h) AgentOptions \<Rightarrow> string \<Rightarrow> ('w, 'h AgentTurnResult option) eff" where
  "checkConfigSeal ao sid = (case ao_configSeal ao of
      None \<Rightarrow> retE None
    | Some cfg \<Rightarrow> bindE (seal_report ao cfg) (\<lambda>rep.
        if sr_verified rep then retE None
        else bindE (case ac_onDrift cfg of None \<Rightarrow> retE () | Some f \<Rightarrow> tryE (f rep) (\<lambda>_. retE ())) (\<lambda>_.
          bindE (if ac_engageKillSwitchOnMismatch cfg then ao_setKillSwitch ao else retE ()) (\<lambda>_.
          bindE (ao_onTrace ao (trace_event tp_config_seal_violation sid 0)) (\<lambda>_.
          retE (Some (seal_refusal ao rep)))))))"

text \<open>The check and, in the same step, the capture of the policy: a refused turn, or the policy of the turn.\<close>

definition open_turn ::
  "('w, 's, 'c, 'h) AgentOptions \<Rightarrow> string \<Rightarrow> ('w, 'h AgentTurnResult + 's PolicyBundle) eff" where
  "open_turn ao sid = bindE (checkConfigSeal ao sid) (\<lambda>r. case r of
      Some refused \<Rightarrow> retE (Inl refused)
    | None \<Rightarrow> bindE (readE (ao_pack ao)) (\<lambda>pack. retE (Inr (sp_policy (pv_sealable pack)))))"

subsection \<open>Memory\<close>

definition resolveContext :: "('w, 's, 'c, 'h) AgentOptions \<Rightarrow> string \<Rightarrow> 'c \<Rightarrow> ('w, 'c) proc" where
  "resolveContext ao sid baseContext = (case (ao_memoryStore ao, ao_enrichContext ao) of
      (Some store, Some enrich) \<Rightarrow> bindP (effP (mm_get store sid)) (\<lambda>memory. resultP (enrich baseContext memory))
    | _ \<Rightarrow> retP baseContext)"

definition MAX_CAS_RETRIES :: nat where
  "MAX_CAS_RETRIES = 3"

primrec cas_loop ::
  "nat \<Rightarrow> (string \<Rightarrow> ('w, js option \<times> nat) eff) \<Rightarrow> (string \<Rightarrow> js \<Rightarrow> nat \<Rightarrow> int \<Rightarrow> ('w, nat option) eff) \<Rightarrow>
     (js option \<Rightarrow> (js \<times> int) option result) \<Rightarrow> string \<Rightarrow> ('w, unit) proc" where
  "cas_loop 0 getVersioned putIfVersion patchOf sid = retP ()"
| "cas_loop (Suc n) getVersioned putIfVersion patchOf sid =
     bindP (effP (getVersioned sid)) (\<lambda>(prior, version).
     bindP (resultP (patchOf prior)) (\<lambda>patch. case patch of
       None \<Rightarrow> retP ()
     | Some (memory, ttl) \<Rightarrow> bindP (effP (putIfVersion sid memory version (1000 * ttl))) (\<lambda>newVersion.
         if newVersion \<noteq> None then retP () else cas_loop n getVersioned putIfVersion patchOf sid)))"

definition writeMemoryback ::
  "('w, 's, 'c, 'h) AgentOptions \<Rightarrow> string \<Rightarrow> 'c \<Rightarrow> 'h AgentTurnResult \<Rightarrow> ('w, unit) proc" where
  "writeMemoryback ao sid baseContext result = (case (ao_memoryStore ao, ao_deriveMemoryWriteback ao) of
      (Some store, Some derive) \<Rightarrow>
        let patchOf = (\<lambda>prior. derive sid baseContext prior result) in
        tryP (case mm_versioned store of
            Some (getVersioned, putIfVersion) \<Rightarrow> cas_loop MAX_CAS_RETRIES getVersioned putIfVersion patchOf sid
          | None \<Rightarrow> bindP (effP (mm_get store sid)) (\<lambda>prior.
              bindP (resultP (patchOf prior)) (\<lambda>patch. case patch of
                None \<Rightarrow> retP () | Some (memory, ttl) \<Rightarrow> effP (mm_put store sid memory (1000 * ttl)))))
          (\<lambda>_. retP ())
    | _ \<Rightarrow> retP ())"

subsection \<open>One decision\<close>

text \<open>A capability for the envelope that will run; whatever fails here is left to the gate of the executor.\<close>

definition mintCapabilityForDecision ::
  "'w CapabilityGate \<Rightarrow> Decision \<Rightarrow> IntentEnvelope \<Rightarrow> ('w, unit) proc" where
  "mintCapabilityForDecision gate decision envelope =
     (if decision_kind decision \<noteq> EXECUTE \<and> decision_kind decision \<noteq> REWRITE then retP ()
      else let x = effective decision envelope in
        tryP (bindP (effP (cg_mint gate \<lparr>cap_intentHash = e_intentHash x, cap_kernelId = cg_kernelId gate\<rparr>)) (\<lambda>capability.
          bindP (effP (mint (cg_burnStore gate) (e_nonce x) capability
            (1000 * (case cg_ttlSeconds gate of Some t \<Rightarrow> t | None \<Rightarrow> 60)))) (\<lambda>_. retP ())))
        (\<lambda>_. retP ()))"

definition translation_context ::
  "('w, 's, 'c, 'h) AgentOptions \<Rightarrow> OutputShape option \<Rightarrow> string \<Rightarrow> string \<Rightarrow> 's \<Rightarrow> 'h \<Rightarrow>
     ('w, 's, 'h) DecisionTranslationContext" where
  "translation_context ao contract toolUseId sid st history =
     \<lparr>tc_seam = ao_seam ao, tc_toolUseId = toolUseId, tc_sessionId = sid, tc_state = st,
      tc_executor = ao_executor ao, tc_deferStore = ao_parkRedis ao, tc_confirmationStore = ao_confirmationStore ao,
      tc_historySnapshot = history, tc_rk = agent_rk ao, tc_generateToken = ao_randomUUID ao,
      tc_executorContract = contract, tc_resourceBindingPolicy = ao_resourceBindingPolicy ao,
      tc_capabilityGate = ao_capabilityGate ao\<rparr>"

definition processSingleDecision ::
  "('w, 's, 'c, 'h) AgentOptions \<Rightarrow> Decision \<Rightarrow> IntentEnvelope \<Rightarrow> string \<Rightarrow> string \<Rightarrow> 's \<Rightarrow> 'h \<Rightarrow>
     ('w, DecisionTranslation) proc" where
  "processSingleDecision ao decision envelope toolUseId sid st history =
     bindP (case ao_capabilityGate ao of None \<Rightarrow> retP ()
       | Some gate \<Rightarrow> mintCapabilityForDecision gate decision envelope) (\<lambda>_.
     bindP (effP (readE (\<lambda>w. pv_executorContract (ao_pack ao w) (e_kind envelope)))) (\<lambda>contract.
       translateDecision (translation_context ao contract toolUseId sid st history) decision envelope))"

definition agent_adjudicate ::
  "('w, 's, 'c, 'h) AgentOptions \<Rightarrow> IntentEnvelope \<Rightarrow> 's \<Rightarrow> 's PolicyBundle \<Rightarrow>
     (('w, 's) Deps \<Rightarrow> ('w, 's) Deps) \<Rightarrow> Plan \<Rightarrow> ('w, AdjudicateAndAuditResult) proc" where
  "agent_adjudicate ao envelope st policy extra plan =
     adjudicateAndAudit (se_module (ao_seam ao)) envelope st policy (extra (seam_deps (ao_seam ao) plan))"

text \<open>A REQUEST_CONFIRMATION may be replaced by an adjudication that presents a budget grant.\<close>

definition tryBudgetSubstitution ::
  "('w, 's, 'c, 'h) AgentOptions \<Rightarrow> IntentEnvelope \<Rightarrow> 's \<Rightarrow> 's PolicyBundle \<Rightarrow> Plan \<Rightarrow> string \<Rightarrow>
     ('w, AdjudicateAndAuditResult option) proc" where
  "tryBudgetSubstitution ao envelope st policy plan originalAt = (case ao_budget ao of
      None \<Rightarrow> retP None
    | Some budget \<Rightarrow>
        bindP (tryP (effP (bc_resolveGrant budget (e_kind envelope))) (\<lambda>_. retP None)) (\<lambda>grant. case grant of
          None \<Rightarrow> retP None
        | Some g \<Rightarrow> if bg_intentKind g \<noteq> e_kind envelope then retP None
            else bindP (runBudgetBurnDown (bc_evalIncrCheck budget) g (agent_rk ao)) (\<lambda>inBudget.
              if \<not> inBudget then retP None
              else bindP (agent_adjudicate ao envelope st policy (\<lambda>deps. deps\<lparr>budgetGrant := Some (g, Some originalAt)\<rparr>) plan)
                (\<lambda>res. retP (Some res)))))"

subsection \<open>Tool uses\<close>

record 'h TurnState =
  ts_events :: "AgentEvent list"
  ts_history :: 'h
  ts_lastDecision :: "Decision option"
  ts_contamination :: "SessionContamination option"
  ts_toolResults :: "ToolResultBlock list"
  ts_pauseAction :: "LoopAction option"

definition add_events :: "AgentEvent list \<Rightarrow> 'h TurnState \<Rightarrow> 'h TurnState" where
  "add_events es ts = ts\<lparr>ts_events := ts_events ts @ es\<rparr>"

definition add_result :: "ToolResultBlock \<Rightarrow> 'h TurnState \<Rightarrow> 'h TurnState" where
  "add_result r ts = ts\<lparr>ts_toolResults := ts_toolResults ts @ [r]\<rparr>"

definition out_of_plan_step ::
  "('w, 's, 'c, 'h) AgentOptions \<Rightarrow> string \<Rightarrow> ToolUseRequest \<Rightarrow> 'h TurnState \<Rightarrow> ('w, 'h TurnState) proc" where
  "out_of_plan_step ao sid tu ts =
     (let r = makeOutOfPlanToolResult (tu_id tu) (tu_name tu) in
      bindP (case ao_onCatch ao of None \<Rightarrow> retP () | Some f \<Rightarrow> quietly (f sid (tu_id tu) (tu_name tu))) (\<lambda>_.
      retP (add_events [EvToolBlocked (tu_id tu) (tu_name tu), EvToolResult (tu_id tu) r] (add_result r ts))))"

definition DEFAULT_CONTAMINATION_TTL :: int where
  "DEFAULT_CONTAMINATION_TTL = 24 * 60 * 60 * 1000"

text \<open>
  A read that served data contaminates the session. The code compares the flags by identity;
  \<open>contaminateSession\<close> makes a new object whenever the origin contaminates, and this one does.
\<close>

definition read_step ::
  "('w, 's, 'c, 'h) AgentOptions \<Rightarrow> 's PolicyBundle \<Rightarrow> Plan \<Rightarrow> string \<Rightarrow> 's \<Rightarrow> ToolUseRequest \<Rightarrow> string \<Rightarrow> js \<Rightarrow>
     'h TurnState \<Rightarrow> ('w, 'h TurnState) proc" where
  "read_step ao policy plan sid st tu name input ts =
     bindP (resultP (deriveNonce ao sid (tu_id tu) input)) (\<lambda>nonce.
     bindP (routeReadThroughKernel (ao_seam ao) (ao_executor ao) (taint_policy policy) plan st sid (tu_id tu) name input nonce) (\<lambda>ro.
     let ts' = add_events (ro_extraEvents ro) (add_result (ro_toolResult ro) ts) in
     if \<not> (ao_contaminationEnabled ao \<and> ro_served ro) then retP ts'
     else let next = contaminateSession (ts_contamination ts) Retrieved UNTRUSTED in
       bindP (case (contamination_store ao, next) of
           (Some store, Some flag) \<Rightarrow> quietly (ct_put store sid flag DEFAULT_CONTAMINATION_TTL)
         | _ \<Rightarrow> retP ()) (\<lambda>_.
       retP (ts'\<lparr>ts_contamination := next\<rparr>))))"

definition intent_envelope ::
  "('w, 's, 'c, 'h) AgentOptions \<Rightarrow> string \<Rightarrow> string \<Rightarrow> SessionContamination option \<Rightarrow> string \<Rightarrow> js \<Rightarrow> string \<Rightarrow>
     IntentEnvelope result" where
  "intent_envelope ao now sid contamination kind p nonce = buildEnvelopeFromToolUse (se_sha (ao_seam ao)) now
     \<lparr>ba_intentKind = kind, ba_payload = p, ba_sessionId = sid,
      ba_taint = mergeTaint UNTRUSTED (case contamination of Some c \<Rightarrow> sc_taint c | None \<Rightarrow> UNTRUSTED),
      ba_origin = LLM, ba_contamination = contamination, ba_nonce = nonce\<rparr>"

definition intent_step ::
  "('w, 's, 'c, 'h) AgentOptions \<Rightarrow> 's PolicyBundle \<Rightarrow> Plan \<Rightarrow> string \<Rightarrow> 's \<Rightarrow> nat \<Rightarrow> ToolUseRequest \<Rightarrow> string \<Rightarrow> js \<Rightarrow>
     'h TurnState \<Rightarrow> ('w, 'h TurnState) proc" where
  "intent_step ao policy plan sid st iter tu kind p ts =
     bindP (resultP (deriveNonce ao sid (tu_id tu) p)) (\<lambda>nonce.
     bindP (effP (se_nowIso (ao_seam ao))) (\<lambda>now.
     bindP (resultP (intent_envelope ao now sid (ts_contamination ts) kind p nonce)) (\<lambda>envelope.
     bindP (agent_adjudicate ao envelope st policy id plan) (\<lambda>first.
     bindP (if decision_kind (rs_decision first) = REQUEST_CONFIRMATION
            then tryBudgetSubstitution ao envelope st policy plan (ar_at (rs_record first)) else retP None) (\<lambda>budgeted.
     let decision = rs_decision (case budgeted of Some r \<Rightarrow> r | None \<Rightarrow> first) in
     bindP (effP (ao_onTrace ao ((trace_event tp_decision_emitted sid (Suc iter))
        \<lparr>te_decisionKind := Some (decision_kind decision)\<rparr>))) (\<lambda>_.
     bindP (processSingleDecision ao decision envelope (tu_id tu) sid st (ts_history ts)) (\<lambda>single.
     let ts1 = (add_events ([EvIntentProposed envelope, EvDecision decision envelope] @ dt_extraEvents single) ts)
                  \<lparr>ts_lastDecision := Some decision\<rparr>;
         ts2 = (case dt_toolResult single of Some r \<Rightarrow> add_result r ts1 | None \<Rightarrow> ts1)
     in retP (if dt_loopAction single \<noteq> LaContinue then ts2\<lparr>ts_pauseAction := Some (dt_loopAction single)\<rparr> else ts2))))))))"

definition tool_step ::
  "('w, 's, 'c, 'h) AgentOptions \<Rightarrow> 's PolicyBundle \<Rightarrow> Plan \<Rightarrow> string \<Rightarrow> 's \<Rightarrow> nat \<Rightarrow> ToolUseRequest \<Rightarrow>
     'h TurnState \<Rightarrow> ('w, 'h TurnState) proc" where
  "tool_step ao policy plan sid st iter tu ts0 =
     (let ts = add_events [EvToolUse (tu_id tu) (tu_name tu) (tu_input tu)] ts0 in
      if ts_pauseAction ts \<noteq> None
      then retP (add_result \<lparr>tr_toolUseId = tu_id tu, tr_content = ''Not processed: prior tool_use paused this turn.'',
             tr_isError = True\<rparr> ts)
      else case classifyIncomingToolUse (tu_name tu) (tu_input tu) plan of
          ClsOutOfPlan name \<Rightarrow> out_of_plan_step ao sid tu ts
        | ClsRead name input \<Rightarrow> read_step ao policy plan sid st tu name input ts
        | ClsIntent kind p \<Rightarrow> intent_step ao policy plan sid st iter tu kind p ts)"

primrec tool_loop ::
  "('w, 's, 'c, 'h) AgentOptions \<Rightarrow> 's PolicyBundle \<Rightarrow> Plan \<Rightarrow> string \<Rightarrow> 's \<Rightarrow> nat \<Rightarrow> ToolUseRequest list \<Rightarrow>
     'h TurnState \<Rightarrow> ('w, 'h TurnState) proc" where
  "tool_loop ao policy plan sid st iter [] ts = retP ts"
| "tool_loop ao policy plan sid st iter (tu # tus) ts =
     bindP (tool_step ao policy plan sid st iter tu ts) (tool_loop ao policy plan sid st iter tus)"

subsection \<open>The turn loop\<close>

fun pauseActionToReason :: "LoopAction \<Rightarrow> AdapterPauseReason option" where
  "pauseActionToReason (LaPauseForDefer s h) = Some pr_deferred"
| "pauseActionToReason (LaPauseForConfirmation p t) = Some pr_awaiting_confirmation"
| "pauseActionToReason (LaCompleteForEscalation to why) = Some pr_escalated"
| "pauseActionToReason LaContinue = None"

fun pauseToOutcome :: "LoopAction \<Rightarrow> Decision option \<Rightarrow> AgentOutcome" where
  "pauseToOutcome LaContinue d = OutMaxIterations d"
| "pauseToOutcome (LaPauseForConfirmation p t) d = OutAwaitingConfirmation p t"
| "pauseToOutcome (LaPauseForDefer s h) d = OutDeferred s h"
| "pauseToOutcome (LaCompleteForEscalation target why) d = OutEscalated target why"

definition turn_result :: "'h TurnState \<Rightarrow> AgentOutcome \<Rightarrow> 'h AgentTurnResult" where
  "turn_result ts out = \<lparr>at_events = ts_events ts, at_history = ts_history ts, at_outcome = out\<rparr>"

definition report_usage ::
  "('w, 's, 'c, 'h) AgentOptions \<Rightarrow> string \<Rightarrow> nat \<Rightarrow> TokenUsage option \<Rightarrow> ('w, unit) proc" where
  "report_usage ao sid iter usage = (case ao_onTokenUsage ao of None \<Rightarrow> retP () | Some f \<Rightarrow> quietly (f sid (Suc iter) usage))"

text \<open>What one pass of the loop ends with: the result of the turn, or the state for the next pass.\<close>

definition process_tools ::
  "('w, 's, 'c, 'h) AgentOptions \<Rightarrow> 's PolicyBundle \<Rightarrow> Plan \<Rightarrow> string \<Rightarrow> 's \<Rightarrow> nat \<Rightarrow> ToolUseRequest list \<Rightarrow>
     'h TurnState \<Rightarrow> ('w, 'h AgentTurnResult + 'h TurnState) proc" where
  "process_tools ao policy plan sid st iter tus ts0 =
     bindP (tool_loop ao policy plan sid st iter tus (ts0\<lparr>ts_toolResults := [], ts_pauseAction := None\<rparr>)) (\<lambda>ts.
     let ts' = (if ts_toolResults ts = [] then ts
           else ts\<lparr>ts_history := appendToolResults (ao_bridge ao) (ts_history ts) (ts_toolResults ts)\<rparr>)
     in case ts_pauseAction ts of
          None \<Rightarrow> retP (Inr ts')
        | Some action \<Rightarrow> bindP (effP (ao_onTrace ao ((trace_event tp_paused sid (Suc iter))
              \<lparr>te_pauseReason := pauseActionToReason action,
               te_decisionKind := map_option decision_kind (ts_lastDecision ts)\<rparr>))) (\<lambda>_.
            retP (Inl (turn_result ts' (pauseToOutcome action (ts_lastDecision ts))))))"

definition iteration ::
  "('w, 's, 'c, 'h) AgentOptions \<Rightarrow> 's PolicyBundle \<Rightarrow> string \<Rightarrow> 's \<Rightarrow> 'c \<Rightarrow> nat \<Rightarrow> 'h TurnState \<Rightarrow>
     ('w, 'h AgentTurnResult + 'h TurnState) proc" where
  "iteration ao policy sid st ctx iter ts =
     bindP (effP (ao_onTrace ao (trace_event tp_iteration_start sid (Suc iter)))) (\<lambda>_.
     bindP (resolveContext ao sid ctx) (\<lambda>effectiveContext.
     bindP (effP (readE (ao_pack ao))) (\<lambda>pack.
     bindP (resultP (pv_plan pack st effectiveContext)) (\<lambda>plan.
     bindP (resultP (ao_render ao st effectiveContext plan)) (\<lambda>rendered.
     bindP (effP (bridge_send (ao_bridge ao) (ts_history ts) rendered)) (\<lambda>(history, turn).
     bindP (report_usage ao sid iter (at_usage turn)) (\<lambda>_.
     let ts1 = add_events (map EvAssistantText (at_textBlocks turn)) (ts\<lparr>ts_history := history\<rparr>) in
     if at_toolUses turn = [] then
       bindP (effP (ao_onTrace ao (trace_event tp_completed sid (Suc iter)))) (\<lambda>_.
       retP (Inl (turn_result ts1 (OutCompleted (concat (at_textBlocks turn))))))
     else process_tools ao policy plan sid st iter (at_toolUses turn) ts1)))))))"

text \<open>\<open>n\<close> passes are left.\<close>

primrec iterate ::
  "('w, 's, 'c, 'h) AgentOptions \<Rightarrow> 's PolicyBundle \<Rightarrow> string \<Rightarrow> 's \<Rightarrow> 'c \<Rightarrow> nat \<Rightarrow> 'h TurnState \<Rightarrow>
     ('w, 'h AgentTurnResult) proc" where
  "iterate ao policy sid st ctx 0 ts =
     bindP (effP (ao_onTrace ao ((trace_event tp_max_iterations sid (max_iterations ao))
        \<lparr>te_decisionKind := map_option decision_kind (ts_lastDecision ts)\<rparr>))) (\<lambda>_.
     retP (turn_result ts (OutMaxIterations (ts_lastDecision ts))))"
| "iterate ao policy sid st ctx (Suc n) ts =
     bindP (iteration ao policy sid st ctx (max_iterations ao - Suc n) ts) (\<lambda>r. case r of
       Inl result \<Rightarrow> retP result
     | Inr ts' \<Rightarrow> iterate ao policy sid st ctx n ts')"

record SeedDecision =
  sd_decision :: Decision
  sd_envelope :: IntentEnvelope
  sd_toolUseId :: string

definition seed_step ::
  "('w, 's, 'c, 'h) AgentOptions \<Rightarrow> string \<Rightarrow> 's \<Rightarrow> SeedDecision \<Rightarrow> 'h TurnState \<Rightarrow>
     ('w, 'h AgentTurnResult + 'h TurnState) proc" where
  "seed_step ao sid st sd ts =
     bindP (processSingleDecision ao (sd_decision sd) (sd_envelope sd) (sd_toolUseId sd) sid st (ts_history ts)) (\<lambda>single.
     let ts1 = add_events (dt_extraEvents single) (ts\<lparr>ts_lastDecision := Some (sd_decision sd)\<rparr>);
         ts2 = (case dt_toolResult single of None \<Rightarrow> ts1
           | Some r \<Rightarrow> ts1\<lparr>ts_history := appendToolResults (ao_bridge ao) (ts_history ts1) [r]\<rparr>)
     in if dt_loopAction single \<noteq> LaContinue
        then retP (Inl (turn_result ts2 (pauseToOutcome (dt_loopAction single) (ts_lastDecision ts2))))
        else retP (Inr ts2))"

definition runLoop ::
  "('w, 's, 'c, 'h) AgentOptions \<Rightarrow> string \<Rightarrow> 'h \<Rightarrow> 's \<Rightarrow> 'c \<Rightarrow> AgentEvent list \<Rightarrow> SeedDecision option \<Rightarrow>
     ('w, 'h AgentTurnResult) proc" where
  "runLoop ao sid history st ctx seedEvents seed =
     bindP (effP (open_turn ao sid)) (\<lambda>r. case r of
       Inl refused \<Rightarrow> retP refused
     | Inr policy \<Rightarrow>
         bindP (case contamination_store ao of None \<Rightarrow> retP None | Some store \<Rightarrow> effP (ct_get store sid)) (\<lambda>flag.
         let ts = \<lparr>ts_events = seedEvents, ts_history = history, ts_lastDecision = None, ts_contamination = flag,
               ts_toolResults = [], ts_pauseAction = None\<rparr>
         in bindP (case seed of None \<Rightarrow> retP (Inr ts) | Some sd \<Rightarrow> seed_step ao sid st sd ts) (\<lambda>r. case r of
              Inl result \<Rightarrow> retP result
            | Inr ts' \<Rightarrow> iterate ao policy sid st ctx (max_iterations ao) ts')))"

subsection \<open>Entry points\<close>

definition send ::
  "('w, 's, 'c, 'h) AgentOptions \<Rightarrow> string \<Rightarrow> string \<Rightarrow> 's \<Rightarrow> 'c \<Rightarrow> 'h option \<Rightarrow> ('w, 'h AgentTurnResult) proc" where
  "send ao sid userMessage st ctx history =
     (let base = (case history of Some h \<Rightarrow> h | None \<Rightarrow> emptyHistory (ao_bridge ao)) in
      bindP (runLoop ao sid (appendUserMessage (ao_bridge ao) base userMessage) st ctx [EvUserMessage userMessage] None) (\<lambda>result.
      bindP (writeMemoryback ao sid ctx result) (\<lambda>_. retP result)))"

text \<open>
  The fields of a parked text are any values; the envelope of the model holds strings. A parked text
  whose kind, session or hash is not a string, which no park of the adapter produces, is outside the model.
\<close>

fun as_string :: "js \<Rightarrow> string result" where
  "as_string (Str s) = Inr s"
| "as_string v = Inl (ErrorObj ''Model'' ''not a string'')"

definition resume_error :: "string \<Rightarrow> string \<Rightarrow> string option \<Rightarrow> thrown" where
  "resume_error sid signal why = ErrorObj ''AdapterError'' (''No parked envelope for session \"'' @ sid @ ''\" and signal \"''
     @ signal @ ''\" (reason: '' @ (case why of Some r \<Rightarrow> r | None \<Rightarrow> ''unknown'') @ '')'')"

text \<open>What a resumption takes from the parked value: kind, payload, hash, session and time of parking.\<close>

definition parked_fields :: "js \<Rightarrow> (string \<times> js \<times> string \<times> string \<times> string) result" where
  "parked_fields parked =
     bindR (js_get parked ''envelope'') (\<lambda>e.
     bindR (bindR (js_get e ''kind'') as_string) (\<lambda>kind.
     bindR (js_get e ''payload'') (\<lambda>p.
     bindR (bindR (js_get e ''intentHash'') as_string) (\<lambda>h.
     bindR (bindR (bindR (js_get e ''actor'') (\<lambda>a. js_get a ''sessionId'')) as_string) (\<lambda>sid.
     bindR (bindR (js_get parked ''parkedAt'') as_string) (\<lambda>parkedAt.
       Inr (kind, p, h, sid, parkedAt)))))))"

definition resume_input :: "string \<Rightarrow> js \<Rightarrow> string \<Rightarrow> string \<Rightarrow> BuildEnvelopeInput" where
  "resume_input kind p h sid = \<lparr>i_kind = kind, i_payload = p,
     i_actor = \<lparr>principal = system, sessionId = sid, role = None, attestation = None\<rparr>, i_taint = TRUSTED,
     i_nonce = h, i_createdAt = None, i_origin = None, i_resourceRefs = None\<rparr>"

definition resume_decision ::
  "('w, 's, 'c, 'h) AgentOptions \<Rightarrow> 's \<Rightarrow> 'c \<Rightarrow> 's PolicyBundle \<Rightarrow> js \<Rightarrow> ('w, SeedDecision) proc" where
  "resume_decision ao st ctx policy parked =
     bindP (resultP (parked_fields parked)) (\<lambda>(kind, p, h, sid, parkedAt).
     bindP (effP (se_nowIso (ao_seam ao))) (\<lambda>now.
     bindP (resultP (buildEnvelope (se_sha (ao_seam ao)) now (resume_input kind p h sid))) (\<lambda>envelope.
     bindP (effP (readE (ao_pack ao))) (\<lambda>pack.
     bindP (resultP (pv_plan pack st ctx)) (\<lambda>plan.
     bindP (agent_adjudicate ao envelope st policy (\<lambda>deps. deps\<lparr>dep_supersedes := Some
        \<lparr>ss_predecessorIntentHash = h, ss_predecessorAt = parkedAt, ss_reason = defer_resumed, ss_token = None,
         ss_binding = None\<rparr>\<rparr>) plan) (\<lambda>res.
     retP \<lparr>sd_decision = rs_decision res, sd_envelope = envelope,
       sd_toolUseId = ''resume-'' @ take 8 h\<rparr>))))))"

definition resume ::
  "('w, 's, 'c, 'h) AgentOptions \<Rightarrow> string \<Rightarrow> string \<Rightarrow> 's \<Rightarrow> 'c \<Rightarrow> 'h option \<Rightarrow> ('w, 'h AgentTurnResult) proc" where
  "resume ao sid signal st ctx history =
     bindP (effP (open_turn ao sid)) (\<lambda>r. case r of
       Inl refused \<Rightarrow> retP refused
     | Inr policy \<Rightarrow>
         bindP (resumeDeferredIntent (se_sha (ao_seam ao)) \<lparr>ra_sessionId = sid, ra_signal = signal,
            ra_redis = ao_deferRedis ao, ra_rk = agent_rk ao, ra_maxResumeCycles = None,
            ra_verifyHash = Some (case ao_verifyParkedHash ao of Some m \<Rightarrow> m | None \<Rightarrow> verify_strict),
            ra_nowIso = se_nowIso (ao_seam ao)\<rparr>) (\<lambda>res.
         case (resumed res, rr_parked res) of
           (True, Some parked) \<Rightarrow>
             bindP (resume_decision ao st ctx policy parked) (\<lambda>sd.
             bindP (case contamination_store ao of None \<Rightarrow> retP () | Some store \<Rightarrow> quietly (ct_clear store sid)) (\<lambda>_.
             runLoop ao sid (case history of Some h \<Rightarrow> h | None \<Rightarrow> emptyHistory (ao_bridge ao)) st ctx
               [EvIntentProposed (sd_envelope sd), EvDecision (sd_decision sd) (sd_envelope sd)] (Some sd)))
         | _ \<Rightarrow> throwP (resume_error sid signal (rr_reason res))))"

text \<open>The text re-hashed on a confirmation: every hashed field of the envelope but its resource references.\<close>

definition confirm_hash_input :: "IntentEnvelope \<Rightarrow> js" where
  "confirm_hash_input e = Obj
     [(''version'', num (e_version e)), (''kind'', Str (e_kind e)), (''payload'', e_payload e),
      (''nonce'', Str (e_nonce e)), (''actor'', actor_js (e_actor e)),
      (''taint'', Str (taint_name (e_taint e))), (''origin'', Str (origin_name (e_origin e)))]"

definition confirm_untampered :: "('w, 's, 'c, 'h) AgentOptions \<Rightarrow> IntentEnvelope \<Rightarrow> bool result" where
  "confirm_untampered ao e =
     (if (case ao_verifyParkedHash ao of Some m \<Rightarrow> m | None \<Rightarrow> verify_strict) = verify_off then Inr True
      else mapR (\<lambda>derived. timingSafeHexEqual derived (e_intentHash e)) (sha256Canonical (se_sha (ao_seam ao)) (confirm_hash_input e)))"

definition token_error :: "string \<Rightarrow> string \<Rightarrow> thrown" where
  "token_error token what = ErrorObj ''AdapterError'' (''Confirmation token \"'' @ token @ ''\" '' @ what)"

definition declined_text :: string where
  "declined_text = ''User declined the confirmation. Action skipped.''"

definition confirm_decision ::
  "('w, 's, 'c, 'h) AgentOptions \<Rightarrow> string \<Rightarrow> ConfirmationBinding option \<Rightarrow> 's \<Rightarrow> 'c \<Rightarrow> 's PolicyBundle \<Rightarrow>
     'h PendingConfirmation \<Rightarrow> ('w, SeedDecision) proc" where
  "confirm_decision ao token binding st ctx policy pending =
     (let envelope = pc_envelope pending in
      bindP (effP (readE (ao_pack ao))) (\<lambda>pack.
      bindP (resultP (pv_plan pack st ctx)) (\<lambda>plan.
      bindP (effP (se_nowIso (ao_seam ao))) (\<lambda>now.
      bindP (agent_adjudicate ao envelope st policy (\<lambda>deps. deps\<lparr>confirmationReceipt := Some
         \<lparr>cr_intentHash = e_intentHash envelope, cr_at = now, cr_originalAt = None, cr_token = Some token,
          cr_binding = binding\<rparr>\<rparr>) plan) (\<lambda>res.
      retP \<lparr>sd_decision = rs_decision res, sd_envelope = envelope, sd_toolUseId = pc_toolUseId pending\<rparr>)))))"

definition confirm_agent ::
  "('w, 's, 'c, 'h) AgentOptions \<Rightarrow> string \<Rightarrow> bool \<Rightarrow> 's \<Rightarrow> 'c \<Rightarrow> ConfirmationBinding option \<Rightarrow>
     ('w, 'h AgentTurnResult) proc" where
  "confirm_agent ao token accepted st ctx binding =
     bindP (effP (cfs_take (ao_confirmationStore ao) token)) (\<lambda>p. case p of
       None \<Rightarrow> throwP (token_error token ''is unknown or expired.'')
     | Some pending \<Rightarrow> bindP (effP (open_turn ao (pc_sessionId pending))) (\<lambda>r. case r of
         Inl refused \<Rightarrow> retP refused
       | Inr policy \<Rightarrow> bindP (resultP (confirm_untampered ao (pc_envelope pending))) (\<lambda>ok.
           if \<not> ok then throwP (token_error token ''failed hash verification (envelope was modified after persistence).'')
           else if \<not> accepted then retP \<lparr>at_events = [EvAssistantText declined_text],
                at_history = pc_assistantHistorySnapshot pending, at_outcome = OutCompleted declined_text\<rparr>
           else bindP (confirm_decision ao token binding st ctx policy pending) (\<lambda>sd.
             runLoop ao (pc_sessionId pending) (pc_assistantHistorySnapshot pending) st ctx
               [EvIntentProposed (sd_envelope sd), EvDecision (sd_decision sd) (sd_envelope sd)] (Some sd)))))"

end
