(* ===== verification/Watching.thy ===== *)
theory Watching
  imports Claiming
begin

text \<open>
  Effects that must be paid for, on interleaved processes. A process claims a key, a record of the
  decision is accepted, and only then may it run the thing with that key, once. Every process is followed
  with two ghosts: the key it holds and has not used, and the accepted records it knows of.
\<close>

text \<open>What is observed of a world: the held keys, the accepted records, and the things that were run.\<close>

record ('w, 'r, 'x) observers =
  ob_held :: "'w \<Rightarrow> string set"
  ob_accepted :: "'w \<Rightarrow> 'r set"
  ob_run :: "'w \<Rightarrow> 'x list"
  ob_key :: "'x \<Rightarrow> string"
  ob_covers :: "'r \<Rightarrow> 'x \<Rightarrow> bool"

definition used :: "('w, 'r, 'x, 'z) observers_scheme \<Rightarrow> 'w \<Rightarrow> string set" where
  "used ob w = ob_key ob ` set (ob_run ob w)"

subsection \<open>Records\<close>

text \<open>A process that runs nothing, followed with the accepted records it knows of.\<close>

primrec noted ::
  "('w, 'r, 'x) observers \<Rightarrow> ('w, 'a) proc \<Rightarrow> 'r set \<Rightarrow> ('r set \<Rightarrow> 'a result \<Rightarrow> bool) \<Rightarrow> bool" where
  "noted ob (Done r) = (\<lambda>K Q. Q K r)"
| "noted ob (Step g) = (\<lambda>K Q. \<forall>w. K \<subseteq> ob_accepted ob w \<longrightarrow>
     (case map_prod (noted ob) id (g w) of (s, w') \<Rightarrow>
        ob_run ob w' = ob_run ob w \<and> ob_accepted ob w \<subseteq> ob_accepted ob w'
        \<and> (\<exists>K'. K' \<subseteq> ob_accepted ob w' \<and> s K' Q)))"

lemma noted_Step [simp]:
  "noted ob (Step g) K Q \<longleftrightarrow> (\<forall>w. K \<subseteq> ob_accepted ob w \<longrightarrow>
     ob_run ob (snd (g w)) = ob_run ob w \<and> ob_accepted ob w \<subseteq> ob_accepted ob (snd (g w))
     \<and> (\<exists>K'. K' \<subseteq> ob_accepted ob (snd (g w)) \<and> noted ob (fst (g w)) K' Q))"
  by (simp add: case_prod_unfold)

declare noted.simps(2) [simp del]

lemma noted_mono: "noted ob p K Q \<Longrightarrow> (\<And>K r. Q K r \<Longrightarrow> Q' K r) \<Longrightarrow> noted ob p K Q'"
proof (induction p arbitrary: K rule: proc_step_induct)
  case (Step g)
  show ?case unfolding noted_Step
  proof (intro allI impI)
    fix w
    assume "K \<subseteq> ob_accepted ob w"
    from Step.prems(1) [unfolded noted_Step, rule_format, OF this] Step.IH [OF _ Step.prems(2)]
    show "ob_run ob (snd (g w)) = ob_run ob w \<and> ob_accepted ob w \<subseteq> ob_accepted ob (snd (g w))
        \<and> (\<exists>K'. K' \<subseteq> ob_accepted ob (snd (g w)) \<and> noted ob (fst (g w)) K' Q')" by blast
  qed
qed simp

lemma noted_bind:
  "noted ob p K (\<lambda>K' r. case r of Inl e \<Rightarrow> Q K' (Inl e) | Inr x \<Rightarrow> noted ob (f x) K' Q) \<Longrightarrow> noted ob (bindP p f) K Q"
proof (induction p arbitrary: K rule: proc_step_induct)
  case (Done r)
  then show ?case by (cases r) simp_all
next
  case (Step g)
  show ?case unfolding step_simps noted_Step fst_conv snd_conv
  proof (intro allI impI)
    fix w
    assume "K \<subseteq> ob_accepted ob w"
    from Step.prems [unfolded noted_Step, rule_format, OF this] Step.IH
    show "ob_run ob (snd (g w)) = ob_run ob w \<and> ob_accepted ob w \<subseteq> ob_accepted ob (snd (g w))
        \<and> (\<exists>K'. K' \<subseteq> ob_accepted ob (snd (g w)) \<and> noted ob (bindP (fst (g w)) f) K' Q)" by blast
  qed
qed

lemma noted_try:
  "noted ob p K (\<lambda>K' r. case r of Inl e \<Rightarrow> noted ob (h e) K' Q | Inr x \<Rightarrow> Q K' (Inr x)) \<Longrightarrow> noted ob (tryP p h) K Q"
proof (induction p arbitrary: K rule: proc_step_induct)
  case (Done r)
  then show ?case by (cases r) simp_all
next
  case (Step g)
  show ?case unfolding step_simps noted_Step fst_conv snd_conv
  proof (intro allI impI)
    fix w
    assume "K \<subseteq> ob_accepted ob w"
    from Step.prems [unfolded noted_Step, rule_format, OF this] Step.IH
    show "ob_run ob (snd (g w)) = ob_run ob w \<and> ob_accepted ob w \<subseteq> ob_accepted ob (snd (g w))
        \<and> (\<exists>K'. K' \<subseteq> ob_accepted ob (snd (g w)) \<and> noted ob (tryP (fst (g w)) h) K' Q)" by blast
  qed
qed

lemma noted_finally:
  "noted ob p K (\<lambda>K' r. noted ob f K' (\<lambda>K'' u. case u of Inl e \<Rightarrow> Q K'' (Inl e) | Inr _ \<Rightarrow> Q K'' r))
     \<Longrightarrow> noted ob (finallyP p f) K Q"
proof (induction p arbitrary: K rule: proc_step_induct)
  case (Done r)
  have "noted ob f K (\<lambda>K' u. case u of Inl e \<Rightarrow> Q K' (Inl e) | Inr x \<Rightarrow> noted ob (Done r) K' Q)"
    using Done by (simp cong: sum.case_cong)
  then show ?case by (simp add: noted_bind)
next
  case (Step g)
  show ?case unfolding step_simps noted_Step fst_conv snd_conv
  proof (intro allI impI)
    fix w
    assume "K \<subseteq> ob_accepted ob w"
    from Step.prems [unfolded noted_Step, rule_format, OF this] Step.IH
    show "ob_run ob (snd (g w)) = ob_run ob w \<and> ob_accepted ob w \<subseteq> ob_accepted ob (snd (g w))
        \<and> (\<exists>K'. K' \<subseteq> ob_accepted ob (snd (g w)) \<and> noted ob (finallyP (fst (g w)) f) K' Q)" by blast
  qed
qed

text \<open>Parts that leave the log alone.\<close>

definition logged :: "('w, 'r, 'x) observers \<Rightarrow> 'w \<Rightarrow> 'r set \<times> 'x list" where
  "logged ob w = (ob_accepted ob w, ob_run ob w)"

definition mute :: "('w, 'r, 'x) observers \<Rightarrow> ('w, 'a) proc \<Rightarrow> bool" where
  "mute ob p \<longleftrightarrow> (\<forall>K. noted ob p K (\<lambda>K' r. K' = K))"

named_theorems mute_intros \<open>introduction rules for processes that leave the log alone\<close>

lemma mute_noted:
  assumes "mute ob p" "\<And>r. Q K r"
  shows "noted ob p K Q"
  by (rule noted_mono [OF assms(1) [unfolded mute_def, rule_format]]) (simp add: assms(2))

lemma mute_basic [mute_intros]: "mute ob (retP x)" "mute ob (throwP e)" "mute ob (resultP r)"
  by (simp_all add: mute_def retP_def throwP_def resultP_def)

lemma mute_eff [mute_intros]: "frame (logged ob) m \<Longrightarrow> mute ob (effP m)"
  by (auto simp: mute_def effP_def frame_def logged_def case_prod_unfold)

lemma mute_bind [mute_intros]: "mute ob p \<Longrightarrow> (\<And>x. mute ob (f x)) \<Longrightarrow> mute ob (bindP p f)"
  unfolding mute_def [of _ "bindP p f"]
  by (intro allI noted_bind, erule mute_noted) (simp add: mute_def split: sum.split)

lemma mute_try [mute_intros]: "mute ob p \<Longrightarrow> (\<And>e. mute ob (h e)) \<Longrightarrow> mute ob (tryP p h)"
  unfolding mute_def [of _ "tryP p h"]
  by (intro allI noted_try, erule mute_noted) (simp add: mute_def split: sum.split)

lemma mute_finally [mute_intros]: "mute ob p \<Longrightarrow> mute ob f \<Longrightarrow> mute ob (finallyP p f)"
  unfolding mute_def [of _ "finallyP p f"]
  by (intro allI noted_finally, erule mute_noted, erule mute_noted) (simp split: sum.split)

lemma noted_mute_bind:
  "mute ob p \<Longrightarrow> (\<And>e. Q K (Inl e)) \<Longrightarrow> (\<And>x. noted ob (f x) K Q) \<Longrightarrow> noted ob (bindP p f) K Q"
  by (auto intro!: noted_bind mute_noted split: sum.split)

text \<open>A fact on the results of a process holds for its noted results as well.\<close>

lemma noted_kept: "noted ob p K Q \<Longrightarrow> kept (\<lambda>_. {}) p R \<Longrightarrow> noted ob p K (\<lambda>K' r. Q K' r \<and> R r)"
  unfolding kept_def
proof (induction p arbitrary: K rule: proc_step_induct)
  case (Done r)
  then show ?case by auto
next
  case (Step g)
  have R: "\<forall>c. safe (\<lambda>_. {}) (fst (g w)) c (\<lambda>c' r. c' = c \<and> R r)" for w
  proof -
    have "safe (\<lambda>_. {}) (Step g) None (\<lambda>c' r. c' = None \<and> R r)" using Step.prems(2) by blast
    then have n: "safe (\<lambda>_. {}) (fst (g w)) None (\<lambda>c' r. c' = None \<and> R r)"
      by (auto simp: claim_step_def)
    have "safe (\<lambda>_. {}) p c (\<lambda>c' r. c' = c \<and> R r)" if "safe (\<lambda>_. {}) p None (\<lambda>c' r. c' = None \<and> R r)" for p :: "('a, 'd) proc" and c
      using that
    proof (induction p rule: proc_step_induct)
      case (Step g)
      then have "safe (\<lambda>_. {}) (fst (g w)) None (\<lambda>c' r. c' = None \<and> R r)" for w
        by (auto simp: claim_step_def)
      with Step.IH show ?case by (auto simp: claim_step_def)
    qed simp
    with n show ?thesis by blast
  qed
  show ?case unfolding noted_Step
  proof (intro allI impI)
    fix w
    assume "K \<subseteq> ob_accepted ob w"
    from Step.prems(1) [unfolded noted_Step, rule_format, OF this] Step.IH [OF _ R]
    show "ob_run ob (snd (g w)) = ob_run ob w \<and> ob_accepted ob w \<subseteq> ob_accepted ob (snd (g w))
        \<and> (\<exists>K'. K' \<subseteq> ob_accepted ob (snd (g w)) \<and> noted ob (fst (g w)) K' (\<lambda>K' r. Q K' r \<and> R r))" by blast
  qed
qed

subsection \<open>Running\<close>

definition paid_step ::
  "('w, 'r, 'x) observers \<Rightarrow> string option \<Rightarrow> 'r set \<Rightarrow> 'w \<Rightarrow> string option \<Rightarrow> 'w \<Rightarrow> bool" where
  "paid_step ob t K w t' w' \<longleftrightarrow> ob_accepted ob w \<subseteq> ob_accepted ob w' \<and>
     ((claim_step t (ob_held ob w) t' (ob_held ob w') \<and> ob_run ob w' = ob_run ob w)
    \<or> (\<exists>x. t = Some (ob_key ob x) \<and> t' = None \<and> ob_held ob w \<subseteq> ob_held ob w' \<and> ob_run ob w' = ob_run ob w @ [x]
         \<and> (\<exists>r \<in> K. ob_covers ob r x)))"

definition entitled :: "('w, 'r, 'x) observers \<Rightarrow> string option \<Rightarrow> 'r set \<Rightarrow> 'w \<Rightarrow> bool" where
  "entitled ob t K w \<longleftrightarrow> K \<subseteq> ob_accepted ob w \<and> used ob w \<subseteq> ob_held ob w
     \<and> (\<forall>h. t = Some h \<longrightarrow> h \<in> ob_held ob w \<and> h \<notin> used ob w)"

text \<open>A key may be given up at any step.\<close>

primrec watched ::
  "('w, 'r, 'x) observers \<Rightarrow> ('w, 'a) proc \<Rightarrow> string option \<Rightarrow> 'r set \<Rightarrow>
     (string option \<Rightarrow> 'r set \<Rightarrow> 'a result \<Rightarrow> bool) \<Rightarrow> bool" where
  "watched ob (Done r) = (\<lambda>t K Q. Q t K r)"
| "watched ob (Step g) = (\<lambda>t K Q. \<forall>w. entitled ob t K w \<longrightarrow>
     (case map_prod (watched ob) id (g w) of (s, w') \<Rightarrow>
        \<exists>t0 t' K'. (t0 = t \<or> t0 = None) \<and> paid_step ob t0 K w t' w' \<and> K' \<subseteq> ob_accepted ob w' \<and> s t' K' Q))"

lemma watched_Step [simp]:
  "watched ob (Step g) t K Q \<longleftrightarrow> (\<forall>w. entitled ob t K w \<longrightarrow>
     (\<exists>t0 t' K'. (t0 = t \<or> t0 = None) \<and> paid_step ob t0 K w t' (snd (g w))
        \<and> K' \<subseteq> ob_accepted ob (snd (g w)) \<and> watched ob (fst (g w)) t' K' Q))"
  by (simp add: case_prod_unfold)

declare watched.simps(2) [simp del]

lemma watched_mono: "watched ob p t K Q \<Longrightarrow> (\<And>t K r. Q t K r \<Longrightarrow> Q' t K r) \<Longrightarrow> watched ob p t K Q'"
proof (induction p arbitrary: t K rule: proc_step_induct)
  case (Step g)
  show ?case unfolding watched_Step
  proof (intro allI impI)
    fix w
    assume "entitled ob t K w"
    from Step.prems(1) [unfolded watched_Step, rule_format, OF this] Step.IH [OF _ Step.prems(2)]
    show "\<exists>t0 t' K'. (t0 = t \<or> t0 = None) \<and> paid_step ob t0 K w t' (snd (g w))
        \<and> K' \<subseteq> ob_accepted ob (snd (g w)) \<and> watched ob (fst (g w)) t' K' Q'" by blast
  qed
qed simp

lemma watched_bind:
  "watched ob p t K (\<lambda>t' K' r. case r of Inl e \<Rightarrow> Q t' K' (Inl e) | Inr x \<Rightarrow> watched ob (f x) t' K' Q)
     \<Longrightarrow> watched ob (bindP p f) t K Q"
proof (induction p arbitrary: t K rule: proc_step_induct)
  case (Done r)
  then show ?case by (cases r) simp_all
next
  case (Step g)
  show ?case unfolding step_simps watched_Step fst_conv snd_conv
  proof (intro allI impI)
    fix w
    assume "entitled ob t K w"
    from Step.prems [unfolded watched_Step, rule_format, OF this] Step.IH
    show "\<exists>t0 t' K'. (t0 = t \<or> t0 = None) \<and> paid_step ob t0 K w t' (snd (g w))
        \<and> K' \<subseteq> ob_accepted ob (snd (g w)) \<and> watched ob (bindP (fst (g w)) f) t' K' Q" by blast
  qed
qed

lemma watched_try:
  "watched ob p t K (\<lambda>t' K' r. case r of Inl e \<Rightarrow> watched ob (h e) t' K' Q | Inr x \<Rightarrow> Q t' K' (Inr x))
     \<Longrightarrow> watched ob (tryP p h) t K Q"
proof (induction p arbitrary: t K rule: proc_step_induct)
  case (Done r)
  then show ?case by (cases r) simp_all
next
  case (Step g)
  show ?case unfolding step_simps watched_Step fst_conv snd_conv
  proof (intro allI impI)
    fix w
    assume "entitled ob t K w"
    from Step.prems [unfolded watched_Step, rule_format, OF this] Step.IH
    show "\<exists>t0 t' K'. (t0 = t \<or> t0 = None) \<and> paid_step ob t0 K w t' (snd (g w))
        \<and> K' \<subseteq> ob_accepted ob (snd (g w)) \<and> watched ob (tryP (fst (g w)) h) t' K' Q" by blast
  qed
qed

lemma watched_drop:
  assumes "watched ob (Step g) None K Q"
  shows "watched ob (Step g) t K Q"
  unfolding watched_Step
proof (intro allI impI)
  fix w
  assume "entitled ob t K w"
  then have "entitled ob None K w" by (simp add: entitled_def)
  from assms [unfolded watched_Step, rule_format, OF this]
  obtain t' K' where "paid_step ob None K w t' (snd (g w))" "K' \<subseteq> ob_accepted ob (snd (g w))"
    "watched ob (fst (g w)) t' K' Q" by auto
  then show "\<exists>t0 t' K'. (t0 = t \<or> t0 = None) \<and> paid_step ob t0 K w t' (snd (g w))
      \<and> K' \<subseteq> ob_accepted ob (snd (g w)) \<and> watched ob (fst (g w)) t' K' Q" by blast
qed

text \<open>A process that follows the claiming discipline and runs nothing.\<close>

lemma watched_safe:
  "safe (ob_held ob) p t Q \<Longrightarrow> noted ob p K R \<Longrightarrow> watched ob p t K (\<lambda>t' K' r. Q t' r \<and> R K' r)"
proof (induction p arbitrary: t K rule: proc_step_induct)
  case (Step g)
  show ?case unfolding watched_Step
  proof (intro allI impI)
    fix w
    assume e: "entitled ob t K w"
    from e Step.prems(1) obtain c' where c: "claim_step t (ob_held ob w) c' (ob_held ob (snd (g w)))"
      "safe (ob_held ob) (fst (g w)) c' Q" by (auto simp: entitled_def)
    from e Step.prems(2) obtain K' where K: "ob_run ob (snd (g w)) = ob_run ob w"
      "ob_accepted ob w \<subseteq> ob_accepted ob (snd (g w))" "K' \<subseteq> ob_accepted ob (snd (g w))" "noted ob (fst (g w)) K' R"
      by (auto simp: entitled_def)
    have "paid_step ob t K w c' (snd (g w))" using c(1) K(1,2) by (simp add: paid_step_def)
    with Step.IH [OF c(2) K(4)] K(3)
    show "\<exists>t0 t' K'. (t0 = t \<or> t0 = None) \<and> paid_step ob t0 K w t' (snd (g w)) \<and> K' \<subseteq> ob_accepted ob (snd (g w))
        \<and> watched ob (fst (g w)) t' K' (\<lambda>t' K' r. Q t' r \<and> R K' r)" by blast
  qed
qed simp

text \<open>Parts that change nothing observed.\<close>

definition observed :: "('w, 'r, 'x) observers \<Rightarrow> 'w \<Rightarrow> string set \<times> 'r set \<times> 'x list" where
  "observed ob w = (ob_held ob w, ob_accepted ob w, ob_run ob w)"

definition idle :: "('w, 'r, 'x) observers \<Rightarrow> ('w, 'a) proc \<Rightarrow> bool" where
  "idle ob p \<longleftrightarrow> (\<forall>t K. watched ob p t K (\<lambda>t' K' r. t' = t \<and> K' = K))"

named_theorems idle_intros \<open>introduction rules for processes that change nothing observed\<close>

lemma idle_basic [idle_intros]: "idle ob (retP x)" "idle ob (throwP e)" "idle ob (resultP r)"
  by (simp_all add: idle_def retP_def throwP_def resultP_def)

lemma idle_eff [idle_intros]:
  assumes "frame (observed ob) m"
  shows "idle ob (effP m)"
proof -
  have fr: "observed ob (snd (m w)) = observed ob w" for w using assms by (simp add: frame_def)
  have step: "paid_step ob t K w t (snd (m w))" for t K w
    using fr [of w] by (simp add: paid_step_def observed_def claim_step_refl)
  have "\<exists>t0 t' K'. (t0 = t \<or> t0 = None) \<and> paid_step ob t0 K w t' (snd (m w)) \<and> K' \<subseteq> ob_accepted ob (snd (m w)) \<and> t' = t \<and> K' = K"
    if "entitled ob t K w" for t K w
  proof (rule exI [of _ t], rule exI [of _ t], rule exI [of _ K], intro conjI)
    show "K \<subseteq> ob_accepted ob (snd (m w))" using that fr [of w] by (simp add: entitled_def observed_def)
  qed (use step in simp_all)
  then show ?thesis by (simp add: idle_def effP_def case_prod_unfold)
qed

lemma watched_idle:
  assumes "idle ob p" "\<And>r. Q t K r"
  shows "watched ob p t K Q"
  by (rule watched_mono [OF assms(1) [unfolded idle_def, rule_format]]) (simp add: assms(2))

lemma idle_bind [idle_intros]: "idle ob p \<Longrightarrow> (\<And>x. idle ob (f x)) \<Longrightarrow> idle ob (bindP p f)"
  unfolding idle_def [of _ "bindP p f"]
  by (intro allI watched_bind, erule watched_idle) (simp add: idle_def split: sum.split)

lemma idle_try [idle_intros]: "idle ob p \<Longrightarrow> (\<And>e. idle ob (h e)) \<Longrightarrow> idle ob (tryP p h)"
  unfolding idle_def [of _ "tryP p h"]
  by (intro allI watched_try, erule watched_idle) (simp add: idle_def split: sum.split)

lemma watched_idle_bind:
  "idle ob p \<Longrightarrow> (\<And>e. Q t K (Inl e)) \<Longrightarrow> (\<And>x. watched ob (f x) t K Q) \<Longrightarrow> watched ob (bindP p f) t K Q"
  by (auto intro!: watched_bind watched_idle split: sum.split)

text \<open>Whatever a process holds and knows at the start, it never runs a thing it has not paid for.\<close>

definition honest :: "('w, 'r, 'x) observers \<Rightarrow> ('w, 'a) proc \<Rightarrow> bool" where
  "honest ob p \<longleftrightarrow> (\<forall>t K. watched ob p t K (\<lambda>_ _ _. True))"

named_theorems honest_intros \<open>introduction rules for honest processes\<close>

lemma honest_idle: "idle ob p \<Longrightarrow> honest ob p"
  by (simp add: honest_def watched_idle)

lemma honest_watched:
  assumes "honest ob p" "\<And>t K r. Q t K r"
  shows "watched ob p t K Q"
  by (rule watched_mono [OF assms(1) [unfolded honest_def, rule_format]]) (simp add: assms(2))

lemma honest_bind [honest_intros]: "honest ob p \<Longrightarrow> (\<And>x. honest ob (f x)) \<Longrightarrow> honest ob (bindP p f)"
  unfolding honest_def [of _ "bindP p f"]
  by (intro allI watched_bind, erule honest_watched) (simp add: honest_def split: sum.split)

lemma honest_ret [honest_intros]: "honest ob (retP x)" "honest ob (throwP e)" "honest ob (resultP r)"
  by (simp_all add: honest_idle idle_intros)

subsection \<open>All processes together\<close>

text \<open>Nothing was run twice, everything that was run has its key held and an accepted record that covers it.\<close>

definition accounted :: "('w, 'r, 'x) observers \<Rightarrow> 'w \<Rightarrow> bool" where
  "accounted ob w \<longleftrightarrow> distinct (map (ob_key ob) (ob_run ob w)) \<and> used ob w \<subseteq> ob_held ob w
     \<and> (\<forall>x \<in> set (ob_run ob w). \<exists>r \<in> ob_accepted ob w. ob_covers ob r x)"

definition orderly :: "('w, 'r, 'x) observers \<Rightarrow> ('w, 'a) system \<Rightarrow> bool" where
  "orderly ob s \<longleftrightarrow> (case s of (w, ts) \<Rightarrow> accounted ob w \<and> (\<exists>T K.
     (\<forall>i h. T i = Some h \<longrightarrow> h \<in> ob_held ob w \<and> h \<notin> used ob w \<and> ts i \<noteq> None)
   \<and> (\<forall>i j h. T i = Some h \<longrightarrow> T j = Some h \<longrightarrow> i = j)
   \<and> (\<forall>i. K i \<subseteq> ob_accepted ob w)
   \<and> (\<forall>i p. ts i = Some p \<longrightarrow> watched ob p (T i) (K i) (\<lambda>_ _ _. True))))"

definition harmless :: "('w, 'r, 'x) observers \<Rightarrow> 'w \<Rightarrow> 'w \<Rightarrow> bool" where
  "harmless ob w w' \<longleftrightarrow> ob_held ob w \<subseteq> ob_held ob w' \<and> ob_accepted ob w \<subseteq> ob_accepted ob w' \<and> ob_run ob w' = ob_run ob w"

lemma paid_step_accounted:
  assumes "accounted ob w" "entitled ob t K w" "paid_step ob t K w t' w'"
  shows "accounted ob w'"
  using assms unfolding accounted_def paid_step_def entitled_def used_def claim_step_def
  by (elim conjE disjE exE bexE) (auto 4 4)

lemma orderlyI:
  assumes "accounted ob w" "\<And>i h. T i = Some h \<Longrightarrow> h \<in> ob_held ob w \<and> h \<notin> used ob w \<and> ts i \<noteq> None"
    "\<And>i j h. T i = Some h \<Longrightarrow> T j = Some h \<Longrightarrow> i = j" "\<And>i. K i \<subseteq> ob_accepted ob w"
    "\<And>i p. ts i = Some p \<Longrightarrow> watched ob p (T i) (K i) (\<lambda>_ _ _. True)"
  shows "orderly ob (w, ts)"
  unfolding orderly_def prod.case by (intro conjI exI [of _ T] exI [of _ K] allI impI) (use assms in blast)+

text \<open>The keys of the others stay held and unused when one process takes a paid step.\<close>

lemma paid_step_others:
  assumes "paid_step ob t K w t' w'" "h \<in> ob_held ob w" "h \<notin> used ob w" "t \<noteq> Some h"
  shows "h \<in> ob_held ob w' \<and> h \<notin> used ob w' \<and> t' \<noteq> Some h"
  using assms unfolding paid_step_def claim_step_def used_def by (elim conjE disjE exE bexE) auto

lemma paid_step_own:
  assumes "paid_step ob t K w t' w'" "entitled ob t K w" "t' = Some h"
  shows "h \<in> ob_held ob w' \<and> h \<notin> used ob w'"
  using assms unfolding paid_step_def claim_step_def used_def entitled_def by (elim conjE disjE exE bexE) auto

lemma orderly_step:
  assumes "orderly ob s" "system_step calls env_step s s'"
    and calls: "\<And>p. p \<in> calls \<Longrightarrow> honest ob p" and env: "\<And>w w'. env_step w w' \<Longrightarrow> harmless ob w w'"
  shows "orderly ob s'"
  using assms(2)
proof cases
  case (call_step ts i g w k w')
  with assms(1) obtain T K where acc: "accounted ob w"
    and T: "\<And>i h. T i = Some h \<Longrightarrow> h \<in> ob_held ob w \<and> h \<notin> used ob w \<and> ts i \<noteq> None"
    and dis: "\<And>i j h. T i = Some h \<Longrightarrow> T j = Some h \<Longrightarrow> i = j" and K: "\<And>i. K i \<subseteq> ob_accepted ob w"
    and P: "\<And>i p. ts i = Some p \<Longrightarrow> watched ob p (T i) (K i) (\<lambda>_ _ _. True)"
    unfolding orderly_def by blast
  have ent: "entitled ob (T i) (K i) w" using acc T K by (auto simp: entitled_def accounted_def)
  have "watched ob (Step g) (T i) (K i) (\<lambda>_ _ _. True)" using P call_step by blast
  from this [unfolded watched_Step, rule_format, OF ent] obtain t0 t' K' where t0: "t0 = T i \<or> t0 = None"
    and st: "paid_step ob t0 (K i) w t' w'" and K': "K' \<subseteq> ob_accepted ob w'" and k: "watched ob k t' K' (\<lambda>_ _ _. True)"
    using call_step(4) by auto
  have ent0: "entitled ob t0 (K i) w" using ent t0 by (auto simp: entitled_def)
  show ?thesis unfolding call_step(2)
  proof (rule orderlyI [where T = "T(i := t')" and K = "K(i := K')"])
    show "accounted ob w'" by (rule paid_step_accounted [OF acc ent0 st])
    show "h \<in> ob_held ob w' \<and> h \<notin> used ob w' \<and> (ts(i \<mapsto> k)) j \<noteq> None" if "(T(i := t')) j = Some h" for j h
    proof (cases "j = i")
      case True
      with that paid_step_own [OF st ent0] show ?thesis by simp
    next
      case False
      with that have j: "T j = Some h" by simp
      then have "t0 \<noteq> Some h" using dis [of j h i] t0 False by auto
      with paid_step_others [OF st, of h] T [OF j] False show ?thesis by simp
    qed
    show "j = j'" if "(T(i := t')) j = Some h" "(T(i := t')) j' = Some h" for j j' h
    proof -
      have other: "T m \<noteq> Some h" if "t' = Some h" "m \<noteq> i" for m
        using paid_step_others [OF st, of h] T [of m h] dis [of m h i] t0 that by auto
      with that dis show ?thesis by (auto split: if_splits)
    qed
    have "ob_accepted ob w \<subseteq> ob_accepted ob w'" using st by (simp add: paid_step_def)
    with K K' show "(K(i := K')) j \<subseteq> ob_accepted ob w'" for j by (simp add: subset_trans [OF K])
    show "watched ob p ((T(i := t')) j) ((K(i := K')) j) (\<lambda>_ _ _. True)" if "(ts(i \<mapsto> k)) j = Some p" for j p
      using that P k by (auto split: if_splits)
  qed
next
  case (call_start ts i p w)
  with assms(1) obtain T K where "accounted ob w"
    and T: "\<And>i h. T i = Some h \<Longrightarrow> h \<in> ob_held ob w \<and> h \<notin> used ob w \<and> ts i \<noteq> None"
    and "\<And>i j h. T i = Some h \<Longrightarrow> T j = Some h \<Longrightarrow> i = j" "\<And>i. K i \<subseteq> ob_accepted ob w"
    and P: "\<And>i p. ts i = Some p \<Longrightarrow> watched ob p (T i) (K i) (\<lambda>_ _ _. True)"
    unfolding orderly_def by blast
  moreover have "watched ob q (T j) (K j) (\<lambda>_ _ _. True)" if "(ts(i \<mapsto> p)) j = Some q" for j q
    using that P calls [OF call_start(4)] by (auto simp: honest_def split: if_splits)
  moreover have "(ts(i \<mapsto> p)) j \<noteq> None" if "T j = Some h" for j h using T [OF that] by simp
  ultimately show ?thesis unfolding call_start(2) by (intro orderlyI [where T = T and K = K]) auto
next
  case (environment w w' ts)
  then have h: "harmless ob w w'" using env by blast
  from environment assms(1) obtain T K where acc: "accounted ob w"
    and T: "\<And>i h. T i = Some h \<Longrightarrow> h \<in> ob_held ob w \<and> h \<notin> used ob w \<and> ts i \<noteq> None"
    and dis: "\<And>i j h. T i = Some h \<Longrightarrow> T j = Some h \<Longrightarrow> i = j" and K: "\<And>i. K i \<subseteq> ob_accepted ob w"
    and P: "\<And>i p. ts i = Some p \<Longrightarrow> watched ob p (T i) (K i) (\<lambda>_ _ _. True)"
    unfolding orderly_def by blast
  have acc': "accounted ob w'" using acc h by (fastforce simp: accounted_def harmless_def used_def)
  have "used ob w' = used ob w" using h by (simp add: harmless_def used_def)
  with h T have T': "h' \<in> ob_held ob w' \<and> h' \<notin> used ob w' \<and> ts i \<noteq> None" if "T i = Some h'" for i h'
    using that by (auto simp: harmless_def)
  have K': "K i \<subseteq> ob_accepted ob w'" for i using K [of i] h by (auto simp: harmless_def)
  show ?thesis unfolding environment(2) by (rule orderlyI [OF acc' T' dis K' P])
qed

lemma orderly_reachable:
  assumes "reachable calls env_step w0 s" "accounted ob w0" "\<And>p. p \<in> calls \<Longrightarrow> honest ob p"
    "\<And>w w'. env_step w w' \<Longrightarrow> harmless ob w w'"
  shows "orderly ob s"
  using assms(1)
proof (induction rule: reachable_induct)
  case init
  show ?case by (rule orderlyI [where T = "\<lambda>_. None" and K = "\<lambda>_. {}"]) (use assms(2) in simp_all)
next
  case (step s s')
  show ?case using step.IH step.hyps(2) by (rule orderly_step) (use assms(3,4) in blast)+
qed

lemma accounted_reachable:
  assumes "reachable calls env_step w0 (w, ts)" "accounted ob w0" "\<And>p. p \<in> calls \<Longrightarrow> honest ob p"
    "\<And>w w'. env_step w w' \<Longrightarrow> harmless ob w w'"
  shows "accounted ob w"
  using orderly_reachable [OF assms] by (simp add: orderly_def)

end
