(* ===== verification/ShellAudit.thy ===== *)
theory ShellAudit
  imports Concurrency Watching Agent
begin

text \<open>
  A call of the shell on interleaved processes, as a client that runs things sees it: an executing answer
  comes with the claimed key of the envelope to run and with an accepted record that covers it.
\<close>

subsection \<open>Facts on results\<close>

text \<open>A fact that every result of a process satisfies, whatever happens between its steps.\<close>

abbreviation yields :: "('w, 'a) proc \<Rightarrow> ('a result \<Rightarrow> bool) \<Rightarrow> bool" where
  "yields \<equiv> kept (\<lambda>_. {})"

lemma frame_trivial: "frame (\<lambda>_. {}) m"
  by (simp add: frame_def)

lemma yields_any: "yields p (\<lambda>_. True)"
proof -
  have "safe (\<lambda>_. {}) p c (\<lambda>c' r. c' = c)" for c
    by (induction p rule: proc_step_induct) (auto simp: claim_step_def)
  then show ?thesis by (simp add: kept_def)
qed

lemma yields_bind: "(\<And>x. yields (f x) R) \<Longrightarrow> (\<And>e. R (Inl e)) \<Longrightarrow> yields (bindP p f) R"
  by (rule kept_bind [OF yields_any])

lemma yields_eff: "(\<And>w. R (fst (m w))) \<Longrightarrow> yields (effP m) R"
  by (rule kept_eff [OF frame_trivial])

lemma yields_ret: "R (Inr x) \<Longrightarrow> yields (retP x) R"
  by (rule kept_ret)

lemma yields_emitRecord:
  assumes "\<And>t. bi_envelope (input t) = x" "\<And>t. bi_decision (input t) = d"
  shows "yields (emitRecord m deps input) (\<lambda>r. \<forall>a. r = Inr a \<longrightarrow> ar_envelope a = x \<and> ar_decision a = d)"
proof -
  let ?P = "\<lambda>a. ar_envelope a = x \<and> ar_decision a = d"
  let ?R = "\<lambda>r. \<forall>a. r = Inr a \<longrightarrow> ?P a"
  have meta: "yields (effP (applyMeta m deps b)) ?R" if "?P b" for b
  proof (rule yields_eff)
    show "?R (fst (applyMeta m deps b w))" for w
      using applyMeta_Inr [of m deps b w _ "snd (applyMeta m deps b w)"] that
      by (metis attachAuditMetadata_sel(1,2) prod.collapse)
  qed
  have emit: "yields (bindP (effP (sink_emit deps a)) (\<lambda>_. retP a)) ?R" if "?P a" for a
    using that by (intro yields_bind yields_ret) auto
  have build: "yields (resultP (buildAuditRecord (m_sha m) [] (input t))) ?R" for t
    unfolding resultP_def by (rule kept_Done) (use buildAuditRecord_Inr assms in auto)
  show ?thesis unfolding emitRecord_def
    by (intro yields_bind kept_bind [OF build] kept_bind [OF meta] emit) auto
qed

lemma effective_plain: "decision_kind d \<noteq> REWRITE \<Longrightarrow> effective d e = e"
  by (cases d) simp_all

lemma yields_spend_budget:
  "yields (spend_budget deps e d) (\<lambda>r. \<forall>d' s. r = Inr (d', s) \<longrightarrow> decision_kind d' = REWRITE \<longrightarrow> d' = d)"
  by (cases d; cases "budgetGrant deps")
    (auto simp: spend_budget_def intro!: kept_ret yields_bind)

lemma yields_execute_rewrite:
  "yields (execute_rewrite m deps e st policy d)
     (\<lambda>r. \<forall>d' x s. r = Inr (d', x, s) \<longrightarrow> executing d' \<longrightarrow> x = effective d' e)"
proof (cases d)
  case (Rewrite x why b)
  have "yields (case k of Execute b2 \<Rightarrow> bindP (effP (clock_nowIso deps)) (\<lambda>tnow.
              retP (Rewrite x why b, x, Some (rewriteExecutedSupersession (e_intentHash e) tnow)))
          | Rewrite e2 why2 b2 \<Rightarrow> retP (rewriteLoopRefusal b2, e, None)
          | _ \<Rightarrow> retP (k, e, None)) (\<lambda>r. \<forall>d' x s. r = Inr (d', x, s) \<longrightarrow> executing d' \<longrightarrow> x = effective d' e)" for k
    by (cases k) (auto simp: executing_def rewriteLoopRefusal_def intro!: kept_ret yields_bind)
  then show ?thesis by (auto simp: execute_rewrite_def Rewrite intro!: yields_bind)
qed (auto simp: execute_rewrite_def executing_def intro!: kept_ret)

lemma yields_claim:
  "yields (claim m deps e st d x) (\<lambda>r. \<forall>d' acq. r = Inr (d', acq) \<longrightarrow> executing d' \<longrightarrow> d' = d)"
proof (cases "dep_ledger deps")
  case (Some L)
  have "yields (case out of acquired \<Rightarrow> retP (d, True)
            | exists \<Rightarrow> bindP (effP (clock_nowIso deps)) (\<lambda>tnow. retP (replaySuppressedRefusal h (hit tnow), False)))
     (\<lambda>r. \<forall>d' acq. r = Inr (d', acq) \<longrightarrow> executing d' \<longrightarrow> d' = d)" for out h hit
    by (cases out) (auto simp: executing_def replaySuppressedRefusal_def intro!: kept_ret yields_bind)
  then show ?thesis by (auto simp: claim_def Some Let_def intro!: kept_ret yields_bind)
qed (auto simp: claim_def intro!: kept_ret)

text \<open>The envelope that the deciding part hands on is the one its decision runs.\<close>

definition runs_effective :: "IntentEnvelope \<Rightarrow> Decided result \<Rightarrow> bool" where
  "runs_effective e r \<longleftrightarrow> (\<forall>dc. r = Inr dc \<longrightarrow> executing (dc_decision dc) \<longrightarrow> dc_executed dc = effective (dc_decision dc) e)"

lemma yields_decide: "yields (decide m deps e st policy) (runs_effective e)"
proof -
  have c: "yields (bindP (claim m deps e st d x) (\<lambda>(d', acq). retP
       \<lparr>dc_decision = d', dc_trace = tr, dc_executed = x, dc_supersedes = ss, dc_acquired = acq\<rparr>)) (runs_effective e)"
    if "executing d \<longrightarrow> x = effective d e" for d x tr ss
    by (rule kept_bind [OF yields_claim]) (use that in \<open>auto simp: runs_effective_def split: prod.split intro!: kept_ret\<close>)
  have r: "yields (bindP (execute_rewrite m deps e st policy d) (\<lambda>(d3, x, s3).
       bindP (claim m deps e st d3 x) (\<lambda>(d', acq). retP
       \<lparr>dc_decision = d', dc_trace = tr, dc_executed = x, dc_supersedes = ss s3, dc_acquired = acq\<rparr>))) (runs_effective e)"
    for d tr ss
    by (rule kept_bind [OF yields_execute_rewrite]) (use c in \<open>auto simp: runs_effective_def split: prod.split\<close>)
  have b: "yields (bindP (spend_budget deps e d) (\<lambda>(d2, s2).
       bindP (execute_rewrite m deps e st policy d2) (\<lambda>(d3, x, s3).
       bindP (claim m deps e st d3 x) (\<lambda>(d', acq). retP
       \<lparr>dc_decision = d', dc_trace = tr, dc_executed = x, dc_supersedes = ss s2 s3, dc_acquired = acq\<rparr>)))) (runs_effective e)"
    for d tr ss
    by (rule yields_bind, clarsimp, rule r) (simp add: runs_effective_def)
  show ?thesis unfolding decide_def Let_def
    by (rule yields_bind, clarsimp split: prod.split, rule b) (simp add: runs_effective_def)
qed

text \<open>A result that executes records the decision and the envelope it runs.\<close>

definition records_run :: "IntentEnvelope \<Rightarrow> AdjudicateAndAuditResult result \<Rightarrow> bool" where
  "records_run e r \<longleftrightarrow> (\<forall>res. r = Inr res \<longrightarrow> executing (rs_decision res) \<longrightarrow>
     ar_decision (rs_record res) = rs_decision res \<and> ar_envelope (rs_record res) = effective (rs_decision res) e)"

lemma yields_auditPath:
  "yields (auditPath m deps e dc dur plan) (\<lambda>r. \<forall>a. r = Inr a \<longrightarrow> ar_envelope a = dc_executed dc \<and> ar_decision a = dc_decision dc)"
    (is "yields _ ?R")
proof -
  have emit: "yields (emitRecord m deps (main_audit_input deps dc dur plan)) ?R"
    by (rule yields_emitRecord) (simp_all add: main_audit_input_def audit_input_def)
  show ?thesis unfolding auditPath_def
    by (rule quiet_finally, rule kept_try [OF emit]) (auto intro!: yields_bind simp: throwP_def yields_any intro: kept_Done)
qed

lemma yields_mainPath: "yields (mainPath m deps e st policy start) (records_run e)"
proof -
  have fin: "yields (bindP (effP (clock_nowMs deps)) (\<lambda>t.
     let durationMs = t - start in
     bindP (emitDecisionEvents m deps e (dc_decision dc) durationMs) (\<lambda>_.
     bindP (case dep_plan deps of None \<Rightarrow> retP None | Some p \<Rightarrow> effP p) (\<lambda>planSnapshot.
     bindP (emitOutcome m deps e (dc_decision dc) durationMs (dc_trace dc) planSnapshot) (\<lambda>_.
     bindP (auditPath m deps e dc durationMs planSnapshot) (\<lambda>record.
     retP \<lparr>rs_decision = dc_decision dc, rs_record = record, rs_ledgerHit = hit\<rparr>)))))) (records_run e)"
    if "runs_effective e (Inr dc)" for dc hit
  proof -
    have "yields (bindP (auditPath m deps e dc dur p) (\<lambda>record.
        retP \<lparr>rs_decision = dc_decision dc, rs_record = record, rs_ledgerHit = hit\<rparr>)) (records_run e)" for dur p
      by (rule kept_bind [OF yields_auditPath])
        (use that in \<open>auto simp: records_run_def runs_effective_def intro!: kept_ret\<close>)
    note last = this
    show ?thesis unfolding Let_def
      by (rule yields_bind, rule yields_bind, rule yields_bind, rule yields_bind, rule last) (simp_all add: records_run_def)
  qed
  have "yields (case hit of
       Some hit \<Rightarrow> retP \<lparr>dc_decision = replaySuppressedRefusal (e_intentHash e) hit, dc_trace = [],
             dc_executed = e, dc_supersedes = None, dc_acquired = False\<rparr>
     | None \<Rightarrow> decide m deps e st policy) (runs_effective e)" for hit
    by (cases hit) (auto simp: yields_decide runs_effective_def executing_def replaySuppressedRefusal_def intro!: kept_ret)
  note first = this
  show ?thesis unfolding mainPath_def
    by (rule yields_bind, rule kept_bind [OF first], simp add: records_run_def, erule fin) (simp add: records_run_def)
qed

lemma yields_killPath: "yields (killPath m deps e tenant start kill) (records_run e)"
  unfolding killPath_def Let_def
  by (intro yields_bind) (auto simp: records_run_def tenantKillRefusal_kind intro!: kept_ret)

lemma yields_call: "yields (adjudicateAndAudit m e st policy deps) (records_run e)"
proof -
  have "yields (case k of Some kill \<Rightarrow> killPath m deps e tenant start kill | None \<Rightarrow> mainPath m deps e st policy start)
      (records_run e)" for k tenant start
    by (cases k) (simp_all add: yields_mainPath yields_killPath)
  then show ?thesis unfolding adjudicateAndAudit_def
    by (intro yields_bind) (auto split: option.split simp: yields_mainPath records_run_def intro!: yields_bind)
qed

subsection \<open>The accepted record\<close>

text \<open>
  The sink tells when it has accepted a record; nothing else of a call touches the log of accepted
  records and of runs.
\<close>

definition accepting :: "('w, AuditRecord, 'x) observers \<Rightarrow> (AuditRecord \<Rightarrow> ('w, unit) eff) \<Rightarrow> bool" where
  "accepting ob sink \<longleftrightarrow> (\<forall>r w. ob_run ob (snd (sink r w)) = ob_run ob w
     \<and> ob_accepted ob w \<subseteq> ob_accepted ob (snd (sink r w))
     \<and> (fst (sink r w) = Inr () \<longrightarrow> r \<in> ob_accepted ob (snd (sink r w))))"

definition logging_ledger :: "('w, 'r, 'x) observers \<Rightarrow> 'w Ledger \<Rightarrow> bool" where
  "logging_ledger ob L \<longleftrightarrow> (\<forall>h. frame (logged ob) (checkLedger L h)) \<and> (\<forall>e. frame (logged ob) (recordExecution L e))
     \<and> (\<forall>rel h. release L = Some rel \<longrightarrow> frame (logged ob) (rel h))"

abbreviation silent :: "('w, 's) Deps \<Rightarrow> ('w, 's) Deps" where
  "silent deps \<equiv> deps\<lparr>sink_emit := \<lambda>_. retE ()\<rparr>"

definition logging_call :: "('w, AuditRecord, 'x) observers \<Rightarrow> 'w Module \<Rightarrow> ('w, 's) Deps \<Rightarrow> bool" where
  "logging_call ob m deps \<longleftrightarrow> framed_call (logged ob) m (silent deps) \<and> accepting ob (sink_emit deps)
     \<and> (\<forall>L. dep_ledger deps = Some L \<longrightarrow> logging_ledger ob L)"

lemma silent_simps:
  "telemetry_of m (silent deps) = telemetry_of m deps" "failureE m (silent deps) = failureE m deps"
  "applyMeta m (silent deps) = applyMeta m deps"
  by (simp_all add: telemetry_of_def failureE_def applyMeta_def fun_eq_iff split: option.split)

lemma logging_callD:
  assumes "logging_call ob m deps"
  shows "frame (logged ob) (recordLedgerOp (telemetry_of m deps) x1)" "frame (logged ob) (recordDecision (telemetry_of m deps) x2)"
    "frame (logged ob) (recordRefusal (telemetry_of m deps) x3)" "frame (logged ob) (failureE m deps a b c)"
    "frame (logged ob) (recordOutcome (telemetry_of m deps) x4)"
    "frame (logged ob) (clock_nowIso deps)" "frame (logged ob) (clock_nowMs deps)" "frame (logged ob) (applyMeta m deps r)"
    "frame (logged ob) (adjudicateE m e st policy)" "frame (logged ob) (adjudicateWithTraceE m e st policy)"
  using framed_callD [of "logged ob" m "silent deps"] frame_applyMeta [of "logged ob" m "silent deps"]
    frame_adjudicateE [of "logged ob" m "silent deps"] frame_adjudicateWithTraceE [of "logged ob" m "silent deps"] assms
  by (simp_all add: logging_call_def silent_simps)

lemma mute_kill:
  "logging_call ob m deps \<Longrightarrow> dep_context deps = Some ctx \<Longrightarrow> mute ob (effP (readTenantKillState (ctx_killSwitch ctx)))"
  using frame_readTenantKillState [of "logged ob" m "silent deps" ctx]
  by (intro mute_eff) (simp add: logging_call_def)

lemma logging_optional:
  assumes "logging_call ob m deps"
  shows "\<And>f e st. resolveResourceVersion deps = Some f \<Longrightarrow> frame (logged ob) (f e st)"
    "\<And>p. dep_plan deps = Some p \<Longrightarrow> frame (logged ob) p" "\<And>r. rateLimitRollback deps = Some r \<Longrightarrow> frame (logged ob) r"
  using assms by (simp_all add: logging_call_def framed_call_def)

lemma mute_parts:
  assumes "logging_call ob m deps"
  shows "mute ob (rollback m deps e)" "mute ob (emitDecisionEvents m deps e d dur)"
    "mute ob (emitOutcome m deps e d dur tr plan)" "mute ob (spend_budget deps e d)"
    "mute ob (case dep_plan deps of None \<Rightarrow> retP None | Some p \<Rightarrow> effP p)"
  using logging_optional [OF assms] logging_callD [OF assms]
  by (auto simp: rollback_def emitDecisionEvents_def emitOutcome_def spend_budget_def
      split: option.split Decision.split intro!: mute_intros)

lemma mute_ledger_parts:
  assumes "logging_call ob m deps"
  shows "mute ob (consult_ledger m deps e)" "mute ob (claim m deps e st d x)" "mute ob (release_claim m deps dc)"
proof -
  have L: "frame (logged ob) (checkLedger L h)" "frame (logged ob) (recordExecution L r)"
    "release L = Some rel \<Longrightarrow> frame (logged ob) (rel h)" if "dep_ledger deps = Some L" for L h r rel
    using assms that by (simp_all add: logging_call_def logging_ledger_def)
  show "mute ob (consult_ledger m deps e)" "mute ob (release_claim m deps dc)"
    using L logging_callD [OF assms]
    by (auto simp: consult_ledger_def release_claim_def split: option.split intro!: mute_intros)
  show "mute ob (claim m deps e st d x)"
    using L logging_callD [OF assms] logging_optional [OF assms]
    by (auto simp: claim_def Let_def split: option.split LedgerRecordOutcome.split intro!: mute_intros)
qed

lemma mute_decide:
  assumes "logging_call ob m deps"
  shows "mute ob (decide m deps e st policy)"
proof -
  have "mute ob (execute_rewrite m deps e st policy d)" for d
    using logging_callD [OF assms] by (auto simp: execute_rewrite_def split: Decision.split intro!: mute_intros)
  then show ?thesis using mute_parts [OF assms] mute_ledger_parts [OF assms] logging_callD [OF assms]
    by (auto simp: decide_def Let_def split: prod.split intro!: mute_intros)
qed

text \<open>Emission ends with the acceptance of the record it returns.\<close>

definition known :: "AuditRecord set \<Rightarrow> AuditRecord result \<Rightarrow> bool" where
  "known K r \<longleftrightarrow> (\<forall>a. r = Inr a \<longrightarrow> a \<in> K)"

lemma noted_sink:
  assumes "accepting ob sink"
  shows "noted ob (bindP (effP (sink a)) (\<lambda>_. retP a)) K known"
proof -
  have "\<exists>K'. K' \<subseteq> ob_accepted ob (snd (sink a w)) \<and> (case fst (sink a w) of Inl e \<Rightarrow> known K' (Inl e) | Inr x \<Rightarrow> noted ob (retP a) K' known)" for w
  proof (cases "fst (sink a w)")
    case (Inl e)
    then show ?thesis by (intro exI [of _ "{}"]) (simp add: known_def)
  next
    case (Inr u)
    then have "a \<in> ob_accepted ob (snd (sink a w))" using assms by (simp add: accepting_def)
    with Inr show ?thesis by (intro exI [of _ "{a}"]) (simp add: known_def retP_def)
  qed
  then have "noted ob (effP (sink a)) K (\<lambda>K' r. case r of Inl e \<Rightarrow> known K' (Inl e) | Inr x \<Rightarrow> noted ob (retP a) K' known)"
    using assms by (simp add: effP_def case_prod_unfold accepting_def)
  then show ?thesis by (rule noted_bind)
qed

lemma noted_emitRecord:
  assumes "logging_call ob m deps"
  shows "noted ob (emitRecord m deps input) K known"
proof -
  note fr = logging_callD [OF assms]
  have acc: "accepting ob (sink_emit deps)" using assms by (simp add: logging_call_def)
  show ?thesis unfolding emitRecord_def
    by (rule noted_mute_bind [OF mute_eff [OF fr(6)]], simp add: known_def,
        rule noted_mute_bind [OF mute_basic(3)], simp add: known_def,
        rule noted_mute_bind [OF mute_eff [OF fr(8)]], simp add: known_def, rule noted_sink [OF acc])
qed

lemma noted_then_mute:
  assumes "noted ob p K known" "mute ob f"
  shows "noted ob (finallyP p f) K known"
proof (rule noted_finally, rule noted_mono [OF assms(1)])
  show "noted ob f K' (\<lambda>K'' u. case u of Inl e \<Rightarrow> known K'' (Inl e) | Inr _ \<Rightarrow> known K'' r)" if "known K' r" for K' r
    by (rule noted_mono [OF assms(2) [unfolded mute_def, rule_format]]) (use that in \<open>auto simp: known_def split: sum.split\<close>)
qed

lemma noted_auditPath:
  assumes "logging_call ob m deps"
  shows "noted ob (auditPath m deps e dc dur plan) K known"
proof -
  have rel: "mute ob (bindP (release_claim m deps dc) (\<lambda>_. throwP err))" for err
    using mute_ledger_parts [OF assms] by (intro mute_intros)
  have "noted ob (tryP (emitRecord m deps (main_audit_input deps dc dur plan))
      (\<lambda>emitErr. bindP (release_claim m deps dc) (\<lambda>_. throwP emitErr))) K known"
  proof (rule noted_try, rule noted_mono [OF noted_emitRecord [OF assms]])
    show "case r of Inl x \<Rightarrow> noted ob (bindP (release_claim m deps dc) (\<lambda>_. throwP x)) K' known | Inr x \<Rightarrow> known K' (Inr x)"
      if "known K' r" for K' r
    proof (cases r)
      case (Inl x)
      have fails: "yields (bindP (release_claim m deps dc) (\<lambda>_. throwP x)) (\<lambda>r. \<exists>x. r = Inl x)"
        by (rule yields_bind) (auto simp: throwP_def intro: kept_Done)
      show ?thesis unfolding Inl sum.case
        by (rule noted_mono [OF noted_kept [OF rel [unfolded mute_def, rule_format] fails]]) (auto simp: known_def)
    qed (use that in simp)
  qed
  moreover have "mute ob (if P then rollback m deps e else retP ())" for P
    using mute_parts [OF assms] by (simp add: mute_intros)
  ultimately show ?thesis unfolding auditPath_def by (rule noted_then_mute)
qed

definition known_result :: "AuditRecord set \<Rightarrow> AdjudicateAndAuditResult result \<Rightarrow> bool" where
  "known_result K r \<longleftrightarrow> (\<forall>res. r = Inr res \<longrightarrow> rs_record res \<in> K)"

lemma known_result_Inl [simp]: "known_result K (Inl e)"
  by (simp add: known_result_def)

lemma noted_result:
  assumes "noted ob p K known" "\<And>a. rs_record (res a) = a"
  shows "noted ob (bindP p (\<lambda>a. retP (res a))) K known_result"
  by (rule noted_bind, rule noted_mono [OF assms(1)])
    (auto simp: known_def known_result_def retP_def assms(2) split: sum.split)

lemma noted_mainPath:
  assumes "logging_call ob m deps"
  shows "noted ob (mainPath m deps e st policy start) K known_result"
proof -
  note fr = logging_callD [OF assms] and mu = mute_parts [OF assms] and le = mute_ledger_parts [OF assms]
  have dec: "mute ob (case hit of
       Some hit \<Rightarrow> retP \<lparr>dc_decision = replaySuppressedRefusal (e_intentHash e) hit, dc_trace = [],
             dc_executed = e, dc_supersedes = None, dc_acquired = False\<rparr>
     | None \<Rightarrow> decide m deps e st policy)" for hit
    using mute_decide [OF assms] by (cases hit) (simp_all add: mute_intros)
  show ?thesis unfolding mainPath_def Let_def
    by (rule noted_mute_bind [OF le(1)], simp, rule noted_mute_bind [OF dec], simp,
        rule noted_mute_bind [OF mute_eff [OF fr(7)]], simp, rule noted_mute_bind [OF mu(2)], simp,
        rule noted_mute_bind [OF mu(5)], simp, rule noted_mute_bind [OF mu(3)], simp,
        rule noted_result [OF noted_auditPath [OF assms]], simp)
qed

lemma noted_killPath:
  assumes "logging_call ob m deps"
  shows "noted ob (killPath m deps e tenant start kill) K known_result"
proof -
  note fr = logging_callD [OF assms] and mu = mute_parts [OF assms]
  show ?thesis unfolding killPath_def Let_def
    by (rule noted_mute_bind [OF mute_eff [OF fr(7)]], simp, rule noted_mute_bind [OF mu(2)], simp,
        rule noted_mute_bind [OF mu(3)], simp,
        rule noted_result [OF noted_then_mute [OF noted_emitRecord [OF assms] mu(1)]], simp)
qed

lemma noted_call:
  assumes "logging_call ob m deps"
  shows "noted ob (adjudicateAndAudit m e st policy deps) K known_result"
  unfolding adjudicateAndAudit_def
proof (rule noted_mute_bind [OF mute_eff [OF logging_callD(7) [OF assms]]], simp)
  fix start
  show "noted ob (case dep_context deps of None \<Rightarrow> mainPath m deps e st policy start
     | Some ctx \<Rightarrow> bindP (effP (readTenantKillState (ctx_killSwitch ctx))) (\<lambda>killState.
         case killState of Some kill \<Rightarrow> killPath m deps e (ctx_id ctx) start kill
         | None \<Rightarrow> mainPath m deps e st policy start)) K known_result"
  proof (cases "dep_context deps")
    case (Some ctx)
    have "noted ob (case k of Some kill \<Rightarrow> killPath m deps e (ctx_id ctx) start kill
         | None \<Rightarrow> mainPath m deps e st policy start) K known_result" for k
      using noted_mainPath [OF assms] noted_killPath [OF assms] by (cases k) simp_all
    then show ?thesis unfolding Some option.case
      by (intro noted_mute_bind [OF mute_kill [OF assms Some]]) simp_all
  qed (simp add: noted_mainPath [OF assms])
qed

subsection \<open>A call as its client sees it\<close>

text \<open>The key of an envelope is its hash; a record covers the envelope that its executing decision runs.\<close>

definition covering :: "AuditRecord \<Rightarrow> IntentEnvelope \<Rightarrow> bool" where
  "covering a x \<longleftrightarrow> executing (ar_decision a) \<and> ar_envelope a = x"

definition audit_observers :: "('w, AuditRecord, IntentEnvelope) observers \<Rightarrow> bool" where
  "audit_observers ob \<longleftrightarrow> ob_key ob = e_intentHash \<and> ob_covers ob = covering"

definition entitles :: "IntentEnvelope \<Rightarrow> Decision \<Rightarrow> string option \<Rightarrow> AuditRecord set \<Rightarrow> bool" where
  "entitles e d t K \<longleftrightarrow> (executing d \<longrightarrow> t = Some (e_intentHash (effective d e)) \<and> (\<exists>a \<in> K. covering a (effective d e)))"

definition entitled_result :: "IntentEnvelope \<Rightarrow> string option \<Rightarrow> AuditRecord set \<Rightarrow> AdjudicateAndAuditResult result \<Rightarrow> bool" where
  "entitled_result e t K r \<longleftrightarrow> (\<forall>res. r = Inr res \<longrightarrow> entitles e (rs_decision res) t K)"

lemma watched_call:
  assumes "ledger L (ob_held ob)" "framed_call (ob_held ob) m deps" "dep_ledger deps = Some L" "logging_call ob m deps"
  shows "watched ob (adjudicateAndAudit m e st policy deps) t K (entitled_result e)"
proof -
  have "watched ob (adjudicateAndAudit m e st policy deps) None K (\<lambda>t' K' r. settled t' r \<and> known_result K' r \<and> records_run e r)"
    by (rule watched_safe [OF ledger.safe_call [OF assms(1,2,3)] noted_kept [OF noted_call [OF assms(4)] yields_call]])
  then have n: "watched ob (adjudicateAndAudit m e st policy deps) None K (entitled_result e)"
  proof (rule watched_mono)
    show "entitled_result e t K r" if "settled t r \<and> known_result K r \<and> records_run e r" for t K r
      unfolding entitled_result_def entitles_def
    proof (intro allI impI conjI)
      fix res
      assume r: "r = Inr res" "executing (rs_decision res)"
      with that have a: "rs_record res \<in> K" "ar_decision (rs_record res) = rs_decision res"
        "ar_envelope (rs_record res) = effective (rs_decision res) e" "t = Some (e_intentHash (ar_envelope (rs_record res)))"
        by (auto simp: settled_def known_result_def records_run_def)
      then show "t = Some (e_intentHash (effective (rs_decision res) e))" by simp
      from a r show "\<exists>a \<in> K. covering a (effective (rs_decision res) e)"
        by (intro bexI [of _ "rs_record res"]) (simp_all add: covering_def)
    qed
  qed
  have "\<exists>g. adjudicateAndAudit m e st policy deps = Step g"
    by (simp add: adjudicateAndAudit_def effP_def)
  with n watched_drop show ?thesis by metis
qed

end
