(* ===== verification/AgentProps.thy ===== *)
theory AgentProps
  imports ShellAudit
begin

text \<open>
  What the agent guarantees of its executor, over all interleavings of any number of turns: nothing is
  executed without an accepted audit record, nothing is executed twice; and what the binding check and the
  capability gate add.
\<close>

subsection \<open>Wiring\<close>

text \<open>
  The parts an agent is given leave alone what is observed: the keys of the ledger, the log of accepted
  records and the log of executed envelopes. Only the ledger moves keys, only the sink accepts records,
  and only the executor runs envelopes, each call one envelope, whether it succeeds or throws.
\<close>

definition framed_seam :: "('w \<Rightarrow> 'h) \<Rightarrow> 'w Seam \<Rightarrow> bool" where
  "framed_seam obs se \<longleftrightarrow> framed_telemetry obs (m_telemetry (se_module se))
     \<and> (\<forall>ks w. obs (m_putKill (se_module se) ks w) = obs w) \<and> framed_context obs (se_context se)
     \<and> frame obs (se_nowIso se) \<and> frame obs (se_nowMs se) \<and> (\<forall>x. frame obs (se_recordResourceLimit se x))"

definition framed_defer :: "('w \<Rightarrow> 'h) \<Rightarrow> 'w DeferRedis \<Rightarrow> bool" where
  "framed_defer obs rd \<longleftrightarrow> (\<forall>k. frame obs (rd_get rd k)) \<and> (\<forall>k v t. frame obs (rd_setNX rd k v t))
     \<and> (\<forall>k. frame obs (rd_del rd k)) \<and> (\<forall>f k. rd_incr rd = Some f \<longrightarrow> frame obs (f k))
     \<and> (\<forall>f k. rd_decr rd = Some f \<longrightarrow> frame obs (f k)) \<and> (\<forall>f k t. rd_expire rd = Some f \<longrightarrow> frame obs (f k t))"

definition framed_park :: "('w \<Rightarrow> 'h) \<Rightarrow> 'w ParkRedis \<Rightarrow> bool" where
  "framed_park obs pk \<longleftrightarrow> (\<forall>k. frame obs (pk_incr pk k)) \<and> (\<forall>k. frame obs (pk_decr pk k))
     \<and> (\<forall>k t. frame obs (pk_expire pk k t)) \<and> (\<forall>k v t. frame obs (pk_set pk k v t))
     \<and> (\<forall>f k t n. pk_evalIncrCheck pk = Some f \<longrightarrow> frame obs (f k t n))"

definition framed_gate :: "('w \<Rightarrow> 'h) \<Rightarrow> 'w CapabilityGate \<Rightarrow> bool" where
  "framed_gate obs gate \<longleftrightarrow> (\<forall>b. frame obs (cg_mint gate b)) \<and> (\<forall>n c t. frame obs (mint (cg_burnStore gate) n c t))
     \<and> (\<forall>n. frame obs (burn (cg_burnStore gate) n))"

definition framed_memory :: "('w \<Rightarrow> 'h) \<Rightarrow> 'w MemoryStore \<Rightarrow> bool" where
  "framed_memory obs mm \<longleftrightarrow> (\<forall>s. frame obs (mm_get mm s)) \<and> (\<forall>s v t. frame obs (mm_put mm s v t))
     \<and> (\<forall>g p s v n t. mm_versioned mm = Some (g, p) \<longrightarrow> frame obs (g s) \<and> frame obs (p s v n t))"

definition framed_options :: "('w \<Rightarrow> 'h) \<Rightarrow> ('w, 's, 'c, 'h2) AgentOptions \<Rightarrow> bool" where
  "framed_options obs ao \<longleftrightarrow> framed_seam obs (ao_seam ao) \<and> framed_defer obs (ao_deferRedis ao)
     \<and> framed_park obs (ao_parkRedis ao) \<and> (\<forall>n i st. frame obs (invokeRead (ao_executor ao) n i st))
     \<and> (\<forall>h r. frame obs (bridge_send (ao_bridge ao) h r)) \<and> (\<forall>e. frame obs (ao_onTrace ao e))
     \<and> (\<forall>t p n. frame obs (cfs_put (ao_confirmationStore ao) t p n)) \<and> (\<forall>t. frame obs (cfs_take (ao_confirmationStore ao) t))
     \<and> frame obs (ao_randomUUID ao) \<and> frame obs (ao_setKillSwitch ao) \<and> (\<forall>c w. obs (ao_putSealCache ao c w) = obs w)
     \<and> (\<forall>f s i u. ao_onTokenUsage ao = Some f \<longrightarrow> frame obs (f s i u))
     \<and> (\<forall>f s i u. ao_onCatch ao = Some f \<longrightarrow> frame obs (f s i u))
     \<and> (\<forall>mm. ao_memoryStore ao = Some mm \<longrightarrow> framed_memory obs mm)
     \<and> (\<forall>cfg f r. ao_configSeal ao = Some cfg \<longrightarrow> ac_onDrift cfg = Some f \<longrightarrow> frame obs (f r))
     \<and> (\<forall>gate. ao_capabilityGate ao = Some gate \<longrightarrow> framed_gate obs gate)
     \<and> (\<forall>b k. ao_budget ao = Some b \<longrightarrow> frame obs (bc_resolveGrant b k))
     \<and> (\<forall>b f k t n. ao_budget ao = Some b \<longrightarrow> bc_evalIncrCheck b = Some f \<longrightarrow> frame obs (f k t n))
     \<and> (\<forall>ct s v t. ao_contaminationStore ao = Some ct \<longrightarrow>
          frame obs (ct_get ct s) \<and> frame obs (ct_put ct s v t) \<and> frame obs (ct_clear ct s))"

definition running :: "('w, AuditRecord, IntentEnvelope) observers \<Rightarrow> ('w, 's) AdopterExecutor \<Rightarrow> bool" where
  "running ob ex \<longleftrightarrow> (\<forall>x st w. ob_held ob (snd (invokeIntent ex x st w)) = ob_held ob w
     \<and> ob_accepted ob (snd (invokeIntent ex x st w)) = ob_accepted ob w
     \<and> ob_run ob (snd (invokeIntent ex x st w)) = ob_run ob w @ [x])"

definition wired :: "('w, AuditRecord, IntentEnvelope) observers \<Rightarrow> 'w Ledger \<Rightarrow> ('w, 's, 'c, 'h) AgentOptions \<Rightarrow> bool" where
  "wired ob L ao \<longleftrightarrow> audit_observers ob \<and> ledger L (ob_held ob) \<and> logging_ledger ob L \<and> se_ledger (ao_seam ao) = Some L
     \<and> accepting ob (se_sink (ao_seam ao)) \<and> (\<forall>r. frame (ob_held ob) (se_sink (ao_seam ao) r))
     \<and> running ob (ao_executor ao) \<and> framed_options (observed ob) ao"

lemma frame_observed:
  "frame (observed ob) m \<Longrightarrow> frame (ob_held ob) m" "frame (observed ob) m \<Longrightarrow> frame (logged ob) m"
  by (simp_all add: frame_def observed_def logged_def)

lemma framed_telemetry_observed:
  "framed_telemetry (observed ob) T \<Longrightarrow> framed_telemetry (ob_held ob) T"
  "framed_telemetry (observed ob) T \<Longrightarrow> framed_telemetry (logged ob) T"
  by (simp_all add: framed_telemetry_def frame_observed)

lemma framed_context_observed:
  "framed_context (observed ob) T \<Longrightarrow> framed_context (ob_held ob) T"
  "framed_context (observed ob) T \<Longrightarrow> framed_context (logged ob) T"
  by (auto simp: framed_context_def frame_observed framed_telemetry_observed)

text \<open>The dependencies the agent hands to the shell.\<close>

definition seam_call :: "'w Seam \<Rightarrow> ('w, 's) Deps \<Rightarrow> bool" where
  "seam_call se deps \<longleftrightarrow> (\<exists>plan. deps = (seam_deps se plan)\<lparr>confirmationReceipt := confirmationReceipt deps,
     budgetGrant := budgetGrant deps, dep_supersedes := dep_supersedes deps\<rparr>)"

lemma framed_seam_call:
  assumes "framed_seam obs se" "seam_call se deps"
  shows "framed_call obs (se_module se) (silent deps)"
proof -
  obtain plan where d: "deps = (seam_deps se plan)\<lparr>confirmationReceipt := confirmationReceipt deps,
     budgetGrant := budgetGrant deps, dep_supersedes := dep_supersedes deps\<rparr>"
    using assms(2) unfolding seam_call_def by blast
  have "metadataProvider deps = None" "resolveResourceVersion deps = None" "rateLimitRollback deps = None"
    "dep_plan deps = Some (retE (Some plan))" "dep_context deps = Some (se_context se)"
    "clock_nowIso deps = se_nowIso se" "clock_nowMs deps = se_nowMs se"
    by (subst d, simp add: seam_deps_def)+
  with assms(1) show ?thesis
    by (auto simp: framed_call_def framed_seam_def frame_def retE_def)
qed

lemma watched_adjudicate:
  assumes w: "wired ob L ao" and d: "\<And>plan. seam_call (ao_seam ao) (extra (seam_deps (ao_seam ao) plan))"
  shows "watched ob (agent_adjudicate ao e st policy extra plan) t K (entitled_result e)"
proof -
  let ?se = "ao_seam ao"
  let ?deps = "extra (seam_deps ?se plan)"
  obtain pl where pl: "?deps = (seam_deps ?se pl)\<lparr>confirmationReceipt := confirmationReceipt ?deps,
     budgetGrant := budgetGrant ?deps, dep_supersedes := dep_supersedes ?deps\<rparr>"
    using d [of plan] unfolding seam_call_def by blast
  have sink: "sink_emit ?deps = se_sink ?se" "dep_ledger ?deps = se_ledger ?se"
    by (subst pl, simp add: seam_deps_def)+
  have seam: "framed_seam (observed ob) ?se" using w by (simp add: wired_def framed_options_def)
  then have h: "framed_seam (ob_held ob) ?se" and l: "framed_seam (logged ob) ?se"
    by (auto simp: framed_seam_def frame_observed framed_telemetry_observed framed_context_observed)
      (simp_all add: observed_def logged_def)
  have "framed_call (ob_held ob) (se_module ?se) ?deps"
    using framed_seam_call [OF h d] w by (simp add: framed_call_def sink wired_def)
  moreover have "logging_call ob (se_module ?se) ?deps"
    using framed_seam_call [OF l d] w by (simp add: logging_call_def sink wired_def)
  ultimately show ?thesis
    using w unfolding agent_adjudicate_def wired_def by (intro watched_call) (auto simp: sink)
qed

subsection \<open>Parts that change nothing observed\<close>

lemma frame_readE [idle_intros]: "frame obs (readE f)"
  by (simp add: frame_def readE_def)

lemma frame_ret: "frame obs (retE x)"
  by (simp add: frame_def retE_def)

lemma idle_quietly [idle_intros]: "frame (observed ob) m \<Longrightarrow> idle ob (quietly m)"
  unfolding quietly_def by (intro idle_intros)

lemma idle_park:
  assumes "framed_park (observed ob) (pa_redis args)" "\<And>x. frame (observed ob) (pa_recordResourceLimit args x)"
    "frame (observed ob) (pa_nowIso args)"
  shows "idle ob (parkDeferredIntent args)"
proof -
  have q: "idle ob (quota_exceeded args n)" for n
    unfolding quota_exceeded_def by (intro idle_intros assms(2))
  have "idle ob (park_count args)"
    unfolding park_count_def Let_def using assms(1) q
    by (auto split: option.split simp: framed_park_def intro!: idle_intros)
  moreover have "idle ob (park_write args)"
    unfolding park_write_def using assms(1,3) by (auto simp: framed_park_def intro!: idle_intros)
  ultimately show ?thesis unfolding parkDeferredIntent_def
    by (auto split: ParkResult.split intro!: idle_intros)
qed

lemma idle_resume:
  assumes "framed_defer (observed ob) (ra_redis args)" "frame (observed ob) (ra_nowIso args)"
  shows "idle ob (resumeDeferredIntent sha args)"
proof -
  have "idle ob (count_cycle args h)" for h
    unfolding count_cycle_def Let_def using assms(1)
    by (auto split: option.split simp: framed_defer_def intro!: idle_intros)
  moreover have "idle ob (claim_token sha args h)" for h
    unfolding claim_token_def using assms by (auto simp: framed_defer_def intro!: idle_intros)
  moreover have "idle ob (resume_cleanup args)"
    unfolding resume_cleanup_def using assms(1)
    by (auto split: option.split simp: framed_defer_def intro!: idle_intros)
  ultimately show ?thesis unfolding resumeDeferredIntent_def using assms(1)
    by (auto split: sum.split simp: framed_defer_def intro!: idle_intros)
qed

lemma idle_gate: "framed_gate (observed ob) gate \<Longrightarrow> idle ob (gate_passes gate x)"
  unfolding gate_passes_def framed_gate_def by (auto split: option.split intro!: idle_intros)

lemma idle_mint: "framed_gate (observed ob) gate \<Longrightarrow> idle ob (mintCapabilityForDecision gate d e)"
  unfolding mintCapabilityForDecision_def framed_gate_def Let_def by (auto intro!: idle_intros)

lemma idle_cas:
  assumes "\<And>s. frame (observed ob) (g s)" "\<And>s v n t. frame (observed ob) (p s v n t)"
  shows "idle ob (cas_loop n g p f sid)"
  using assms by (induction n) (auto split: option.split prod.split intro!: idle_intros)

lemma idle_writeMemoryback:
  assumes "framed_options (observed ob) ao"
  shows "idle ob (writeMemoryback ao sid ctx res)"
proof (cases "ao_memoryStore ao")
  case (Some store)
  then have m: "framed_memory (observed ob) store" using assms by (simp add: framed_options_def)
  have "idle ob (case mm_versioned store of
            Some (g, p) \<Rightarrow> cas_loop MAX_CAS_RETRIES g p f sid
          | None \<Rightarrow> bindP (effP (mm_get store sid)) (\<lambda>prior.
              bindP (resultP (f prior)) (\<lambda>patch. case patch of
                None \<Rightarrow> retP () | Some (memory, ttl) \<Rightarrow> effP (mm_put store sid memory (1000 * ttl)))))" for f
    using m by (auto simp: framed_memory_def split: option.split prod.split intro!: idle_intros idle_cas)
  note body = this
  show ?thesis
  proof (cases "ao_deriveMemoryWriteback ao")
    case (Some derive)
    show ?thesis unfolding writeMemoryback_def Some \<open>ao_memoryStore ao = Some store\<close> prod.case option.case Let_def
      by (rule idle_try [OF body]) (rule idle_basic)
  qed (simp add: writeMemoryback_def Some idle_intros)
qed (simp add: writeMemoryback_def idle_intros)

lemma idle_resolveContext: "framed_options (observed ob) ao \<Longrightarrow> idle ob (resolveContext ao sid ctx)"
  unfolding resolveContext_def framed_options_def framed_memory_def
  by (auto split: option.split prod.split intro!: idle_intros)

lemma frame_seal_report:
  assumes "framed_options obs ao"
  shows "frame obs (seal_report ao cfg)"
proof -
  have put: "obs (ao_putSealCache ao c w) = obs w" for c w using assms by (simp add: framed_options_def)
  have clock: "frame obs (se_nowMs (ao_seam ao))" using assms by (simp add: framed_options_def framed_seam_def)
  have cur: "frame obs (\<lambda>w. (f w, w))" for f :: "_ \<Rightarrow> 'x result" by (simp add: frame_def)
  have store: "frame obs (\<lambda>w. (Inr r, ao_putSealCache ao (f w) w))" for f and r :: ConfigSealReport
    by (simp add: frame_def put)
  have froz: "frame obs (\<lambda>w. case frozenSurface (ao_sealCache ao w) of
              Some s \<Rightarrow> (Inr s, w)
            | None \<Rightarrow> (case extractSealableSurface sha (pv_sealable (ao_pack ao w)) of
                Inl err \<Rightarrow> (Inl err, w)
              | Inr s \<Rightarrow> (Inr s, ao_putSealCache ao ((ao_sealCache ao w)\<lparr>frozenSurface := Some s\<rparr>) w)))" for sha
    by (simp add: frame_def put split: option.split sum.split)
  show ?thesis unfolding seal_report_def Let_def
    by (auto split: option.split Reverify.split prod.split intro!: frame_bind clock cur store froz frame_readE frame_ret)
qed

lemma frame_open_turn:
  assumes "framed_options obs ao"
  shows "frame obs (open_turn ao sid)"
proof -
  have "frame obs (checkConfigSeal ao sid)"
    using assms frame_seal_report [OF assms] unfolding checkConfigSeal_def framed_options_def
    by (auto split: option.split intro!: frame_bind frame_try frame_ret)
  then show ?thesis unfolding open_turn_def
    by (auto split: option.split intro!: frame_bind frame_ret frame_readE)
qed

subsection \<open>Executing a decision\<close>

lemma watched_ret [simp]: "watched ob (retP x) t K Q \<longleftrightarrow> Q t K (Inr x)" "watched ob (throwP e) t K Q \<longleftrightarrow> Q t K (Inl e)"
  by (simp_all add: retP_def throwP_def)

text \<open>Whoever holds the key of an envelope and knows a record that covers it may hand it to the executor.\<close>

definition may_run :: "IntentEnvelope \<Rightarrow> string option \<Rightarrow> AuditRecord set \<Rightarrow> bool" where
  "may_run x t K \<longleftrightarrow> t = Some (e_intentHash x) \<and> (\<exists>a \<in> K. covering a x)"

lemma watched_invoke:
  assumes "audit_observers ob" "running ob ex" "may_run x t K"
  shows "watched ob (effP (invokeIntent ex x st)) t K (\<lambda>_ _ _. True)"
proof -
  have "paid_step ob t K w None (snd (invokeIntent ex x st w))" for w
    using assms by (auto simp: paid_step_def running_def audit_observers_def may_run_def)
  then have "\<exists>t0 t' K'. (t0 = t \<or> t0 = None) \<and> paid_step ob t0 K w t' (snd (invokeIntent ex x st w))
      \<and> K' \<subseteq> ob_accepted ob (snd (invokeIntent ex x st w))" for w
    by (intro exI [of _ t] exI [of _ None] exI [of _ "{}"]) simp
  then show ?thesis by (simp add: effP_def case_prod_unfold)
qed

lemma watched_honest_bind:
  assumes "watched ob p t K (\<lambda>_ _ _. True)" "\<And>x. honest ob (f x)"
  shows "watched ob (bindP p f) t K (\<lambda>_ _ _. True)"
  by (rule watched_bind, rule watched_mono [OF assms(1)]) (use assms(2) in \<open>simp add: honest_def split: sum.split\<close>)

lemma watched_honest_try:
  assumes "watched ob p t K (\<lambda>_ _ _. True)" "\<And>e. honest ob (h e)"
  shows "watched ob (tryP p h) t K (\<lambda>_ _ _. True)"
  by (rule watched_try, rule watched_mono [OF assms(1)]) (use assms(2) in \<open>simp add: honest_def split: sum.split\<close>)

lemma watched_run_executor:
  assumes "audit_observers ob" "running ob (tc_executor ctx)" "may_run x t K"
  shows "watched ob (run_executor ctx x why) t K (\<lambda>_ _ _. True)"
proof -
  have post: "honest ob (case out of
       Inl err \<Rightarrow> retP (translation (tc_toolUseId ctx) (''Executor failed: '' @ executor_message err) True LaContinue)
     | Inr v \<Rightarrow> bindP (resultP (JSON_stringify (execute_body v why))) (\<lambda>content.
         let r = \<lparr>tr_toolUseId = tc_toolUseId ctx, tr_content = content, tr_isError = False\<rparr>
         in retP \<lparr>dt_toolResult = Some r, dt_loopAction = LaContinue,
              dt_extraEvents = contract_events (tc_executorContract ctx) x v
                @ [EvHandlerResult (tc_toolUseId ctx) v, EvToolResult (tc_toolUseId ctx) r]\<rparr>))" for out
    by (auto split: sum.split simp: Let_def intro!: honest_intros)
  show ?thesis unfolding run_executor_def
    by (rule watched_honest_bind [OF watched_honest_try [OF watched_honest_bind [OF watched_invoke [OF assms]]] post])
      (rule honest_ret)+
qed

lemma watched_runExecute:
  assumes "audit_observers ob" "running ob (tc_executor ctx)" "may_run x t K"
    and "\<And>gate. tc_capabilityGate ctx = Some gate \<Longrightarrow> framed_gate (observed ob) gate"
  shows "watched ob (runExecute ctx x why) t K (\<lambda>_ _ _. True)"
proof -
  have ret: "watched ob (retP v) t K (\<lambda>_ _ _. True)" for v :: DecisionTranslation
    using honest_ret(1) [of ob v] by (simp add: honest_def)
  note run = watched_run_executor [OF assms(1-3)]
  show ?thesis
  proof (cases "tc_capabilityGate ctx")
    case None
    then show ?thesis using ret run by (simp add: runExecute_def Let_def)
  next
    case (Some gate)
    have "watched ob (bindP (gate_passes gate x) (\<lambda>capOk. if \<not> capOk then retP (translation (tc_toolUseId ctx)
                ''Action could not be authorized (capability gate) and was not executed.'' True LaContinue)
            else run_executor ctx x why)) t K (\<lambda>_ _ _. True)"
      by (rule watched_idle_bind [OF idle_gate [OF assms(4) [OF Some]]]) (simp_all add: ret run)
    then show ?thesis using ret by (simp add: runExecute_def Let_def Some)
  qed
qed

lemma watched_process:
  assumes w: "wired ob L ao" and e: "entitles e d t K"
  shows "watched ob (processSingleDecision ao d e tid sid st h) t K (\<lambda>_ _ _. True)"
proof -
  have fo: "framed_options (observed ob) ao" and au: "audit_observers ob" and ru: "running ob (ao_executor ao)"
    using w by (simp_all add: wired_def)
  have gate: "\<And>g. ao_capabilityGate ao = Some g \<Longrightarrow> framed_gate (observed ob) g"
    using fo by (simp add: framed_options_def)
  let ?ctx = "\<lambda>contract. translation_context ao contract tid sid st h"
  have seam: "framed_park (observed ob) (ao_parkRedis ao)" "\<And>x. frame (observed ob) (se_recordResourceLimit (ao_seam ao) x)"
    "frame (observed ob) (se_nowIso (ao_seam ao))" "frame (observed ob) (ao_randomUUID ao)"
    "\<And>t p n. frame (observed ob) (cfs_put (ao_confirmationStore ao) t p n)"
    using fo by (simp_all add: framed_options_def framed_seam_def)
  have run: "watched ob (runExecute (?ctx contract) x why) t K (\<lambda>_ _ _. True)" if "may_run x t K" for contract x why
    by (rule watched_runExecute [OF au]) (use that ru gate in \<open>simp_all add: translation_context_def\<close>)
  have quiet: "watched ob p t K (\<lambda>_ _ _. True)" if "idle ob p" for p :: "('a, DecisionTranslation) proc"
    by (rule watched_idle [OF that]) simp
  have "watched ob (translateDecision (?ctx contract) d e) t K (\<lambda>_ _ _. True)" for contract
  proof (cases d)
    case (Execute b)
    then have "may_run e t K" using e by (simp add: entitles_def may_run_def executing_def)
    with run Execute show ?thesis by (simp add: translateDecision_def)
  next
    case (Rewrite x why b)
    then have "may_run x t K" using e by (simp add: entitles_def may_run_def executing_def)
    with run Rewrite show ?thesis by (simp add: translateDecision_def)
  next
    case (Defer sig ms b)
    show ?thesis unfolding translateDecision_def Defer Decision.case
      by (intro quiet idle_bind idle_park)
        (auto simp: translation_context_def seam split: ParkResult.split intro!: idle_intros)
  qed (auto simp: translateDecision_def translation_context_def seam intro!: quiet idle_intros)
  then show ?thesis unfolding processSingleDecision_def
    using gate by (auto split: option.split intro!: watched_idle_bind idle_intros idle_mint frame_readE)
qed

subsection \<open>The loop\<close>

lemma seam_call_simps:
  "seam_call se (seam_deps se plan)" "seam_call se ((seam_deps se plan)\<lparr>budgetGrant := b\<rparr>)"
  "seam_call se ((seam_deps se plan)\<lparr>confirmationReceipt := r\<rparr>)" "seam_call se ((seam_deps se plan)\<lparr>dep_supersedes := s\<rparr>)"
  unfolding seam_call_def by (rule exI [of _ plan], simp add: seam_deps_def)+

lemma watched_bind_result:
  assumes "watched ob p t K (entitled_result e)"
    and "\<And>t K res. entitles e (rs_decision res) t K \<Longrightarrow> watched ob (f res) t K (\<lambda>_ _ _. True)"
  shows "watched ob (bindP p f) t K (\<lambda>_ _ _. True)"
  by (rule watched_bind, rule watched_mono [OF assms(1)])
    (use assms(2) in \<open>auto simp: entitled_result_def split: sum.split\<close>)

lemma honest_read:
  assumes w: "wired ob L ao"
  shows "honest ob (routeReadThroughKernel (ao_seam ao) (ao_executor ao) taint plan st sid tid name i n)"
proof -
  let ?se = "ao_seam ao"
  have fo: "frame (observed ob) (se_nowIso ?se)" "frame (observed ob) (invokeRead (ao_executor ao) name i st)"
    using w by (simp_all add: wired_def framed_options_def framed_seam_def)
  have serve: "honest ob (serve_read (ao_executor ao) name i st tid events)" for events
    unfolding serve_read_def using fo(2)
    by (intro honest_idle) (auto split: sum.split simp: Let_def intro!: idle_intros)
  have call: "watched ob (adjudicateAndAudit (se_module ?se) e st policy (seam_deps ?se plan)) t K (entitled_result e)" for e policy t K
    using watched_adjudicate [OF w, of id e st policy plan t K] by (simp add: agent_adjudicate_def seam_call_simps)
  have fin: "watched ob (let events = [EvIntentProposed e, EvDecision (rs_decision res) e] in
     if decision_kind (rs_decision res) \<noteq> EXECUTE then retP (read_failed tid (read_detail (rs_decision res)) events)
     else serve_read (ao_executor ao) name i st tid events) t K (\<lambda>_ _ _. True)" for e res t K
    using serve by (simp add: Let_def honest_def)
  show ?thesis unfolding routeReadThroughKernel_def honest_def
    using fo(1) by (intro allI watched_idle_bind [OF idle_eff] watched_idle_bind [OF idle_basic(3)]
        watched_bind_result [OF call] fin) simp_all
qed

lemma honest_intent:
  assumes w: "wired ob L ao"
  shows "honest ob (intent_step ao policy plan sid st iter tu kind p ts)"
proof -
  have fo: "framed_options (observed ob) ao" using w by (simp add: wired_def)
  have fr: "frame (observed ob) (se_nowIso (ao_seam ao))" "\<And>e. frame (observed ob) (ao_onTrace ao e)"
    "\<And>b k. ao_budget ao = Some b \<Longrightarrow> frame (observed ob) (bc_resolveGrant b k)"
    "\<And>b f k t n. ao_budget ao = Some b \<Longrightarrow> bc_evalIncrCheck b = Some f \<Longrightarrow> frame (observed ob) (f k t n)"
    using fo by (auto simp: framed_options_def framed_seam_def)
  let ?Q = "\<lambda>e t K r. \<forall>b. r = Inr (Some b) \<longrightarrow> entitles e (rs_decision b) t K"
  have budget: "watched ob (tryBudgetSubstitution ao e st policy plan at) t K (?Q e)" for e at t K
  proof (cases "ao_budget ao")
    case (Some b)
    have burn: "idle ob (runBudgetBurnDown (bc_evalIncrCheck b) g rk)" for g rk
      unfolding runBudgetBurnDown_def using fr(4) [OF Some] by (auto split: option.split intro!: idle_intros)
    have call: "watched ob (bindP (agent_adjudicate ao e st policy (\<lambda>deps. deps\<lparr>budgetGrant := gr\<rparr>) plan) (\<lambda>res. retP (Some res))) t K (?Q e)"
      for gr t K
      by (rule watched_bind, rule watched_mono [OF watched_adjudicate [OF w]])
        (auto simp: seam_call_simps entitled_result_def retP_def split: sum.split)
    have none: "watched ob (retP None) t K (?Q e)" for t K by (simp add: retP_def)
    show ?thesis unfolding tryBudgetSubstitution_def Some option.case
      using fr(3) [OF Some] burn call none
      by (auto split: option.split intro!: watched_idle_bind idle_intros)
  qed (simp add: tryBudgetSubstitution_def retP_def)
  let ?chosen = "\<lambda>first budgeted. rs_decision (case budgeted of Some r \<Rightarrow> r | None \<Rightarrow> first)"
  have choose: "watched ob (if decision_kind (rs_decision first) = REQUEST_CONFIRMATION
            then tryBudgetSubstitution ao e st policy plan (ar_at (rs_record first)) else retP None) t K
     (\<lambda>t K r. \<forall>b. r = Inr b \<longrightarrow> entitles e (?chosen first b) t K)"
    if "entitles e (rs_decision first) t K" for e first t K
  proof (cases "decision_kind (rs_decision first) = REQUEST_CONFIRMATION")
    case True
    have "entitles e (rs_decision first) t K" for t K using True by (simp add: entitles_def executing_def)
    with True show ?thesis by (simp, intro watched_mono [OF budget]) (auto split: option.split)
  qed (use that in simp)
  have finish: "watched ob (bindP (effP (ao_onTrace ao ev)) (\<lambda>_.
       bindP (processSingleDecision ao d e (tu_id tu) sid st (ts_history ts)) (\<lambda>single. retP (g single)))) t K (\<lambda>_ _ _. True)"
    if "entitles e d t K" for e d ev g t K
    using fr(2) by (intro watched_idle_bind [OF idle_eff] watched_honest_bind [OF watched_process [OF w that]]) (auto intro: honest_ret)
  have rest: "watched ob (bindP (if decision_kind (rs_decision first) = REQUEST_CONFIRMATION
            then tryBudgetSubstitution ao e st policy plan (ar_at (rs_record first)) else retP None) (\<lambda>budgeted.
       bindP (effP (ao_onTrace ao (ev budgeted))) (\<lambda>_.
       bindP (processSingleDecision ao (?chosen first budgeted) e (tu_id tu) sid st (ts_history ts))
         (\<lambda>single. retP (g budgeted single))))) t K (\<lambda>_ _ _. True)"
    if "entitles e (rs_decision first) t K" for e first ev g t K
    by (rule watched_bind, rule watched_mono [OF choose [OF that]]) (use finish in \<open>auto split: sum.split\<close>)
  show ?thesis unfolding intent_step_def Let_def honest_def
    using fr(1) by (intro allI watched_idle_bind [OF idle_eff] watched_idle_bind [OF idle_basic(3)]
        watched_bind_result [OF watched_adjudicate [OF w]] rest) (simp_all add: seam_call_simps)
qed

lemma honest_tool:
  assumes w: "wired ob L ao"
  shows "honest ob (tool_step ao policy plan sid st iter tu ts)"
proof -
  have fo: "framed_options (observed ob) ao" using w by (simp add: wired_def)
  have catch: "idle ob (case ao_onCatch ao of None \<Rightarrow> retP () | Some f \<Rightarrow> quietly (f sid a b))" for a b
    using fo by (auto simp: framed_options_def split: option.split intro!: idle_intros)
  have put: "idle ob (case (contamination_store ao, n) of (Some store, Some flag) \<Rightarrow>
      quietly (ct_put store sid flag DEFAULT_CONTAMINATION_TTL) | _ \<Rightarrow> retP ())" for n
    using fo by (auto simp: framed_options_def contamination_store_def split: option.split intro!: idle_intros)
  have oop: "honest ob (out_of_plan_step ao sid tu ts)" for ts
    unfolding out_of_plan_step_def Let_def by (intro honest_idle idle_bind [OF catch] idle_basic)
  have fin: "honest ob (bindP (case (contamination_store ao, n) of (Some store, Some flag) \<Rightarrow>
      quietly (ct_put store sid flag DEFAULT_CONTAMINATION_TTL) | _ \<Rightarrow> retP ()) (\<lambda>_. retP v))" for n and v :: "'d TurnState"
    by (intro honest_idle idle_bind [OF put] idle_basic)
  have rd: "honest ob (read_step ao policy plan sid st tu name i ts)" for name i ts
    unfolding read_step_def Let_def
    by (intro honest_bind honest_ret honest_read [OF w]) (use fin in \<open>simp add: honest_ret\<close>)
  show ?thesis unfolding tool_step_def Let_def
    by (simp add: honest_ret oop rd honest_intent [OF w] split: ToolClassification.split)
qed

lemma honest_tools:
  assumes "wired ob L ao"
  shows "honest ob (tool_loop ao policy plan sid st iter tus ts)"
  by (induction tus arbitrary: ts) (simp_all add: honest_ret honest_bind honest_tool [OF assms])

lemma honest_iteration:
  assumes w: "wired ob L ao"
  shows "honest ob (iteration ao policy sid st ctx iter ts)"
proof -
  have fo: "framed_options (observed ob) ao" using w by (simp add: wired_def)
  have tr: "frame (observed ob) (ao_onTrace ao e)" and br: "frame (observed ob) (bridge_send (ao_bridge ao) h r)" for e h r
    using fo by (simp_all add: framed_options_def)
  have us: "idle ob (report_usage ao sid iter u)" for u
    using fo by (auto simp: framed_options_def report_usage_def split: option.split intro!: idle_intros)
  have paused: "honest ob (bindP (effP (ao_onTrace ao e)) (\<lambda>_. retP v))" for e and v :: "'d AgentTurnResult + 'd TurnState"
    using tr by (intro honest_idle idle_intros)
  have pt: "honest ob (process_tools ao policy plan sid st iter tus ts)" for plan tus ts
    unfolding process_tools_def Let_def
    by (rule honest_bind [OF honest_tools [OF w]]) (simp add: honest_ret paused split: option.split)
  show ?thesis unfolding iteration_def Let_def
    using honest_idle [OF idle_eff [OF tr]] honest_idle [OF idle_eff [OF br]] honest_idle [OF us]
      honest_idle [OF idle_resolveContext [OF fo]] honest_idle [OF idle_eff [OF frame_readE]] pt paused
    by (auto intro!: honest_bind honest_ret split: prod.split)
qed

lemma honest_iterate:
  assumes w: "wired ob L ao"
  shows "honest ob (iterate ao policy sid st ctx n ts)"
proof (induction n arbitrary: ts)
  case 0
  have "frame (observed ob) (ao_onTrace ao e)" for e using w by (simp add: wired_def framed_options_def)
  then show ?case by (auto intro!: honest_idle idle_intros)
next
  case (Suc n)
  then show ?case
    by (auto intro!: honest_bind honest_ret honest_iteration [OF w] split: sum.split)
qed

text \<open>A turn that starts with a decision is honest for who is entitled to that decision.\<close>

lemma watched_runLoop:
  assumes w: "wired ob L ao" and seed: "\<And>sd. seed = Some sd \<Longrightarrow> entitles (sd_envelope sd) (sd_decision sd) t K"
  shows "watched ob (runLoop ao sid h st ctx events seed) t K (\<lambda>_ _ _. True)"
proof -
  have fo: "framed_options (observed ob) ao" using w by (simp add: wired_def)
  have ct: "idle ob (case contamination_store ao of None \<Rightarrow> retP None | Some store \<Rightarrow> effP (ct_get store sid))"
    using fo by (auto simp: framed_options_def contamination_store_def split: option.split intro!: idle_intros)
  have start: "watched ob (case seed of None \<Rightarrow> retP (Inr ts) | Some sd \<Rightarrow> seed_step ao sid st sd ts) t K (\<lambda>_ _ _. True)" for ts
  proof (cases seed)
    case (Some sd)
    show ?thesis unfolding Some option.case seed_step_def
      by (rule watched_honest_bind [OF watched_process [OF w seed [OF Some]]]) (simp add: Let_def honest_ret)
  qed simp
  have rest: "honest ob (case r of Inl result \<Rightarrow> retP result | Inr ts' \<Rightarrow> iterate ao policy sid st ctx (max_iterations ao) ts')" for r policy
    using honest_iterate [OF w] by (simp add: honest_ret split: sum.split)
  have body: "watched ob (case r of Inl refused \<Rightarrow> retP refused
     | Inr policy \<Rightarrow>
         bindP (case contamination_store ao of None \<Rightarrow> retP None | Some store \<Rightarrow> effP (ct_get store sid)) (\<lambda>flag.
         let ts = \<lparr>ts_events = events, ts_history = h, ts_lastDecision = None, ts_contamination = flag,
               ts_toolResults = [], ts_pauseAction = None\<rparr>
         in bindP (case seed of None \<Rightarrow> retP (Inr ts) | Some sd \<Rightarrow> seed_step ao sid st sd ts) (\<lambda>r. case r of
              Inl result \<Rightarrow> retP result
            | Inr ts' \<Rightarrow> iterate ao policy sid st ctx (max_iterations ao) ts'))) t K (\<lambda>_ _ _. True)" for r
  proof (cases r)
    case (Inr policy)
    show ?thesis unfolding Inr sum.case Let_def
      by (rule watched_idle_bind [OF ct], simp) (rule watched_honest_bind [OF start rest])
  qed simp
  show ?thesis unfolding runLoop_def
    by (rule watched_idle_bind [OF idle_eff [OF frame_open_turn [OF fo]]], simp) (rule body)
qed

lemma honest_send:
  assumes "wired ob L ao"
  shows "honest ob (send ao sid msg st ctx h)"
proof -
  have fo: "framed_options (observed ob) ao" using assms by (simp add: wired_def)
  have "honest ob (runLoop ao sid h st ctx events None)" for h events
    using watched_runLoop [OF assms, of None] by (simp add: honest_def)
  then show ?thesis unfolding send_def Let_def
    by (intro honest_bind honest_ret honest_idle [OF idle_writeMemoryback [OF fo]])
qed

text \<open>An adjudication followed by the turn that its decision seeds.\<close>

lemma watched_seeded:
  assumes "watched ob p t K (\<lambda>t K r. \<forall>sd. r = Inr sd \<longrightarrow> entitles (sd_envelope sd) (sd_decision sd) t K)"
    and "\<And>sd t K. entitles (sd_envelope sd) (sd_decision sd) t K \<Longrightarrow> watched ob (f sd) t K (\<lambda>_ _ _. True)"
  shows "watched ob (bindP p f) t K (\<lambda>_ _ _. True)"
  by (rule watched_bind, rule watched_mono [OF assms(1)]) (use assms(2) in \<open>auto split: sum.split\<close>)

lemma watched_seed:
  assumes "watched ob p t K (entitled_result e)"
  shows "watched ob (bindP p (\<lambda>res. retP \<lparr>sd_decision = rs_decision res, sd_envelope = e, sd_toolUseId = tid\<rparr>)) t K
    (\<lambda>t K r. \<forall>sd. r = Inr sd \<longrightarrow> entitles (sd_envelope sd) (sd_decision sd) t K)"
  by (rule watched_bind, rule watched_mono [OF assms]) (auto simp: entitled_result_def split: sum.split)

lemma honest_resume:
  assumes w: "wired ob L ao"
  shows "honest ob (resume ao sid signal st ctx h)"
proof -
  have fo: "framed_options (observed ob) ao" using w by (simp add: wired_def)
  have now: "frame (observed ob) (se_nowIso (ao_seam ao))" using fo by (simp add: framed_options_def framed_seam_def)
  have rd: "framed_defer (observed ob) (ao_deferRedis ao)" using fo by (simp add: framed_options_def)
  have dec: "watched ob (resume_decision ao st ctx policy parked) t K
      (\<lambda>t K r. \<forall>sd. r = Inr sd \<longrightarrow> entitles (sd_envelope sd) (sd_decision sd) t K)" for policy parked t K
    unfolding resume_decision_def
    by (rule watched_idle_bind [OF idle_basic(3)], simp, clarsimp,
        rule watched_idle_bind [OF idle_eff [OF now]], simp, rule watched_idle_bind [OF idle_basic(3)], simp,
        rule watched_idle_bind [OF idle_eff [OF frame_readE]], simp, rule watched_idle_bind [OF idle_basic(3)], simp,
        rule watched_seed [OF watched_adjudicate [OF w]])
      (simp add: seam_call_simps)
  have clear: "idle ob (case contamination_store ao of None \<Rightarrow> retP () | Some store \<Rightarrow> quietly (ct_clear store sid))"
    using fo by (auto simp: framed_options_def contamination_store_def split: option.split intro!: idle_intros)
  have go: "honest ob (bindP (resume_decision ao st ctx policy parked) (\<lambda>sd.
             bindP (case contamination_store ao of None \<Rightarrow> retP () | Some store \<Rightarrow> quietly (ct_clear store sid)) (\<lambda>_.
             runLoop ao sid h' st ctx [EvIntentProposed (sd_envelope sd), EvDecision (sd_decision sd) (sd_envelope sd)] (Some sd))))"
    for policy parked h'
    unfolding honest_def
    by (intro allI watched_seeded [OF dec] watched_idle_bind [OF clear] watched_runLoop [OF w]) simp_all
  have "honest ob (bindP (resumeDeferredIntent (se_sha (ao_seam ao)) \<lparr>ra_sessionId = sid, ra_signal = signal,
            ra_redis = ao_deferRedis ao, ra_rk = agent_rk ao, ra_maxResumeCycles = None,
            ra_verifyHash = mode, ra_nowIso = se_nowIso (ao_seam ao)\<rparr>) (\<lambda>res.
         case (resumed res, rr_parked res) of
           (True, Some parked) \<Rightarrow>
             bindP (resume_decision ao st ctx policy parked) (\<lambda>sd.
             bindP (case contamination_store ao of None \<Rightarrow> retP () | Some store \<Rightarrow> quietly (ct_clear store sid)) (\<lambda>_.
             runLoop ao sid (case h of Some h \<Rightarrow> h | None \<Rightarrow> emptyHistory (ao_bridge ao)) st ctx
               [EvIntentProposed (sd_envelope sd), EvDecision (sd_decision sd) (sd_envelope sd)] (Some sd)))
         | _ \<Rightarrow> throwP (resume_error sid signal (rr_reason res))))" for policy mode
  proof (rule honest_bind [OF honest_idle [OF idle_resume]], goal_cases)
    case (3 res)
    show ?case using go by (cases "resumed res"; cases "rr_parked res") (simp_all only: prod.case bool.case option.case honest_ret)
  qed (simp_all add: rd now)
  note tail = this
  show ?thesis unfolding resume_def
  proof (rule honest_bind [OF honest_idle [OF idle_eff [OF frame_open_turn [OF fo]]]], goal_cases)
    case (1 r)
    show ?case using tail by (cases r) (simp_all only: sum.case honest_ret)
  qed
qed

lemma honest_confirm:
  assumes w: "wired ob L ao"
  shows "honest ob (confirm_agent ao token ok st ctx binding)"
proof -
  have fo: "framed_options (observed ob) ao" using w by (simp add: wired_def)
  have now: "frame (observed ob) (se_nowIso (ao_seam ao))" and take: "frame (observed ob) (cfs_take (ao_confirmationStore ao) token)"
    using fo by (simp_all add: framed_options_def framed_seam_def)
  have dec: "watched ob (confirm_decision ao token binding st ctx policy pending) t K
      (\<lambda>t K r. \<forall>sd. r = Inr sd \<longrightarrow> entitles (sd_envelope sd) (sd_decision sd) t K)" for policy pending t K
    unfolding confirm_decision_def Let_def
    by (rule watched_idle_bind [OF idle_eff [OF frame_readE]], simp, rule watched_idle_bind [OF idle_basic(3)], simp,
        rule watched_idle_bind [OF idle_eff [OF now]], simp, rule watched_seed [OF watched_adjudicate [OF w]])
      (simp add: seam_call_simps)
  have go: "honest ob (bindP (confirm_decision ao token binding st ctx policy pending) (\<lambda>sd.
       runLoop ao sid h st ctx [EvIntentProposed (sd_envelope sd), EvDecision (sd_decision sd) (sd_envelope sd)] (Some sd)))"
    for policy pending sid h
    unfolding honest_def by (intro allI watched_seeded [OF dec] watched_runLoop [OF w]) simp
  show ?thesis unfolding confirm_agent_def
    by (rule honest_bind [OF honest_idle [OF idle_eff [OF take]]])
      (auto split: option.split sum.split intro!: honest_ret honest_bind [OF honest_idle [OF idle_eff [OF frame_open_turn [OF fo]]]]
        honest_bind [OF honest_ret(3)] go)
qed

subsection \<open>Any number of turns\<close>

definition agent_calls :: "('w, 's, 'c, 'h) AgentOptions set \<Rightarrow> ('w, 'h AgentTurnResult) proc set" where
  "agent_calls agents = {p. \<exists>ao \<in> agents.
      (\<exists>sid msg st ctx h. p = send ao sid msg st ctx h) \<or> (\<exists>sid signal st ctx h. p = resume ao sid signal st ctx h)
    \<or> (\<exists>token ok st ctx binding. p = confirm_agent ao token ok st ctx binding)}"

lemma honest_agent_calls: "(\<And>ao. ao \<in> agents \<Longrightarrow> wired ob L ao) \<Longrightarrow> p \<in> agent_calls agents \<Longrightarrow> honest ob p"
  unfolding agent_calls_def by (auto intro: honest_send honest_resume honest_confirm)

text \<open>C3: the executor runs an intent at most once, and only an audited one. Any number of agents on one ledger serve any
  number of turns, resumptions and confirmations at a time, their awaits interleaved in any order, with
  any calls that fail in between, while the environment only adds keys and records. Then no two envelopes ever
  handed to an executor have the same intent hash, and of each of them the hash is claimed in the
  ledger and the sink has accepted a record of exactly that envelope with an EXECUTE or REWRITE decision.\<close>

theorem agent_executes_audited_once:
  assumes "\<And>ao. ao \<in> agents \<Longrightarrow> wired ob L ao" and "audit_observers ob" "ob_run ob w0 = []"
    and "\<And>w w'. env_step w w' \<Longrightarrow> harmless ob w w'"
    and "reachable (agent_calls agents) env_step w0 (w, ts)"
  shows "distinct (map e_intentHash (ob_run ob w))
     \<and> (\<forall>x \<in> set (ob_run ob w). e_intentHash x \<in> ob_held ob w
          \<and> (\<exists>a \<in> ob_accepted ob w. executing (ar_decision a) \<and> ar_envelope a = x))"
proof -
  have "accounted ob w"
  proof (rule accounted_reachable [OF assms(5)])
    show "accounted ob w0" using assms(3) by (simp add: accounted_def used_def)
    show "honest ob p" if "p \<in> agent_calls agents" for p by (rule honest_agent_calls [OF assms(1) that])
  qed (rule assms(4))
  then show ?thesis using assms(2) by (auto simp: accounted_def used_def audit_observers_def covering_def)
qed

end
