(* ===== verification/AgentNode.thy ===== *)
theory AgentNode
  imports AgentProps Node
begin

text \<open>
  An agent on one process: the in-memory ledger, a sink and an executor that append to logs, and a
  confirmation store that hands out one pending confirmation. The statements on the agent apply to its runs.
\<close>

record site =
  s_store :: ledger_store
  s_kill :: KillSwitchModule
  s_time :: nat
  s_log :: "AuditRecord list"
  s_run :: "IntentEnvelope list"
  s_cache :: SealCache

definition site_ledger :: "site Ledger" where
  "site_ledger = createMemoryLedger s_store (\<lambda>s w. w\<lparr>s_store := s\<rparr>) (\<lambda>w. show_nat (s_time w))"

definition site_held :: "site \<Rightarrow> string set" where
  "site_held w = dom (s_store w)"

interpretation site: ledger site_ledger site_held
  by unfold_locales
    (auto simp: site_ledger_def site_held_def createMemoryLedger_def mem_checkLedger_def
      mem_recordExecution_def mem_release_def dom_def split: if_split_asm)

definition site_observers :: "(site, AuditRecord, IntentEnvelope) observers" where
  "site_observers = \<lparr>ob_held = site_held, ob_accepted = (\<lambda>w. set (s_log w)), ob_run = s_run,
     ob_key = e_intentHash, ob_covers = covering\<rparr>"

definition site_context :: "site RuntimeContext" where
  "site_context = \<lparr>ctx_id = ''t'', ctx_killSwitch = Some \<lparr>kp_isKilled = Some (retE False), kp_state = retE INERT_STATE\<rparr>,
     ctx_telemetry = noopTelemetry, ctx_kernelIdentity = None\<rparr>"

definition site_seam :: "site Seam" where
  "site_seam = \<lparr>se_module = \<lparr>m_sha = sample_sha, m_env = Map.empty, m_getKill = s_kill,
       m_putKill = (\<lambda>k w. w\<lparr>s_kill := k\<rparr>), m_telemetry = noopTelemetry\<rparr>,
     se_sink = (\<lambda>r w. (Inr (), w\<lparr>s_log := s_log w @ [r]\<rparr>)), se_ledger = Some site_ledger,
     se_context = site_context, se_nowIso = readE (\<lambda>w. show_nat (s_time w)),
     se_nowMs = (\<lambda>w. (Inr (int (s_time w)), w\<lparr>s_time := Suc (s_time w)\<rparr>)),
     se_recordResourceLimit = (\<lambda>_. retE ())\<rparr>"

definition site_executor :: "(site, unit) AdopterExecutor" where
  "site_executor = \<lparr>invokeRead = (\<lambda>_ _ _. retE Null),
     invokeIntent = (\<lambda>x _ w. (Inr (Str ''done''), w\<lparr>s_run := s_run w @ [x]\<rparr>))\<rparr>"

definition site_pack :: "(unit, unit) PackV0" where
  "site_pack = \<lparr>pv_sealable = \<lparr>sp_id = ''p'', sp_version = ''1'', sp_contract = ''v0'', sp_intents = [''pay''],
       sp_signals = None, sp_basisCodes = None, sp_policy = sample_policy\<rparr>,
     pv_plan = (\<lambda>_ _. Inr \<lparr>visibleReadTools = [], allowedIntents = [''pay'']\<rparr>), pv_executorContract = (\<lambda>_. None)\<rparr>"

text \<open>No pass of the loop is left: the turn ends after the decision it starts with.\<close>

definition site_agent :: "(site, unit, unit, unit) AgentOptions" where
  "site_agent = \<lparr>ao_seam = site_seam, ao_pack = (\<lambda>_. site_pack),
     ao_render = (\<lambda>_ _ _. Inr \<lparr>pr_systemPrompt = [], pr_maxTokens = 0, pr_toolSchemas = []\<rparr>),
     ao_bridge = \<lparr>emptyHistory = (), appendUserMessage = (\<lambda>_ _. ()),
       bridge_send = (\<lambda>_ _. retE ((), \<lparr>at_textBlocks = [], at_toolUses = [], at_usage = None\<rparr>)),
       appendToolResults = (\<lambda>_ _. ())\<rparr>,
     ao_deferRedis = \<lparr>rd_get = (\<lambda>_. retE None), rd_setNX = (\<lambda>_ _ _. retE None), rd_del = (\<lambda>_. retE ()),
       rd_incr = None, rd_decr = None, rd_expire = None\<rparr>,
     ao_parkRedis = \<lparr>pk_incr = (\<lambda>_. retE 1), pk_decr = (\<lambda>_. retE 0), pk_expire = (\<lambda>_ _. retE ()),
       pk_set = (\<lambda>_ _ _. retE None), pk_evalIncrCheck = None\<rparr>,
     ao_confirmationStore = \<lparr>cfs_put = (\<lambda>_ _ _. retE ()),
       cfs_take = (\<lambda>_. retE (Some \<lparr>pc_envelope = sample_envelope, pc_sessionId = ''s'',
         pc_assistantHistorySnapshot = (), pc_toolUseId = ''u'', pc_prompt = ''ok?''\<rparr>))\<rparr>,
     ao_maxIterations = Some 0, ao_executor = site_executor, ao_rk = None, ao_deriveNonce = None,
     ao_onTokenUsage = None, ao_onCatch = None, ao_memoryStore = None, ao_enrichContext = None,
     ao_deriveMemoryWriteback = None, ao_configSeal = None, ao_crypto = no_crypto,
     ao_sealCache = s_cache, ao_putSealCache = (\<lambda>c w. w\<lparr>s_cache := c\<rparr>), ao_setKillSwitch = retE (),
     ao_verifyParkedHash = Some verify_off, ao_resourceBindingPolicy = None, ao_capabilityGate = None,
     ao_budget = None, ao_contaminationEnabled = False, ao_contaminationStore = None,
     ao_onTrace = (\<lambda>_. retE ()), ao_randomUUID = retE ''id''\<rparr>"

definition site_start :: site where
  "site_start = \<lparr>s_store = Map.empty, s_kill = initialKillSwitch, s_time = 0, s_log = [], s_run = [],
     s_cache = \<lparr>frozenSurface = None, sealCachedReport = None\<rparr>\<rparr>"

subsection \<open>The agent is wired\<close>

lemma site_wired: "wired site_observers site_ledger site_agent"
  unfolding wired_def
proof (intro conjI allI)
  show "audit_observers site_observers" by (simp add: audit_observers_def site_observers_def)
  show "ledger site_ledger (ob_held site_observers)" by (simp add: site_observers_def site.ledger_axioms)
  show "logging_ledger site_observers site_ledger"
    by (auto simp: logging_ledger_def site_ledger_def createMemoryLedger_def mem_checkLedger_def mem_recordExecution_def
        mem_release_def frame_def logged_def site_observers_def split: option.split)
  show "se_ledger (ao_seam site_agent) = Some site_ledger" by (simp add: site_agent_def site_seam_def)
  show "accepting site_observers (se_sink (ao_seam site_agent))"
    by (auto simp: accepting_def site_observers_def site_agent_def site_seam_def)
  show "frame (ob_held site_observers) (se_sink (ao_seam site_agent) r)" for r
    by (simp add: frame_def site_observers_def site_agent_def site_seam_def site_held_def)
  show "running site_observers (ao_executor site_agent)"
    by (simp add: running_def site_observers_def site_agent_def site_executor_def site_held_def)
  show "framed_options (observed site_observers) site_agent"
    by (simp add: framed_options_def framed_seam_def framed_telemetry_def framed_context_def framed_defer_def framed_park_def
        site_agent_def site_seam_def site_context_def noopTelemetry_def site_executor_def observed_def site_observers_def
        site_held_def frame_def retE_def readE_def)
qed

subsection \<open>A confirmed run\<close>

abbreviation pay_plan :: Plan where
  "pay_plan \<equiv> \<lparr>visibleReadTools = [], allowedIntents = [''pay'']\<rparr>"

abbreviation site_deps :: "(site, unit) Deps" where
  "site_deps \<equiv> (seam_deps site_seam pay_plan)
     \<lparr>confirmationReceipt := Some \<lparr>cr_intentHash = ''h'', cr_at = show_nat 0, cr_originalAt = None, cr_token = Some ''k'',
        cr_binding = None\<rparr>\<rparr>"

lemma site_plan: "planFingerprintOf sample_sha pay_plan = Inr ''h''"
  by (simp add: planFingerprintOf_def plan_fields_def sha256Canonical_def canonicalJson_def canonicalize_Obj by_key_def
      obj_put_def is_index_key_def is_digit_def JSON_stringify_def sample_sha_def)

lemma site_build:
  "\<exists>r. buildAuditRecord sample_sha [] (main_audit_input site_deps
      \<lparr>dc_decision = Execute (bases_before ph_default), dc_trace = tr, dc_executed = sample_envelope,
       dc_supersedes = None, dc_acquired = True\<rparr> dur (Some pay_plan) t) = Inr r \<and> ar_envelope r = sample_envelope \<and> ar_decision r = Execute (bases_before ph_default)"
  by (simp add: buildAuditRecord_def main_audit_input_def audit_input_def seam_deps_def site_seam_def site_context_def
      Let_def hashed_js_def site_plan plan_js_def plan_fields_def
      sha256Canonical_def canonicalJson_def envelope_js_def sample_envelope_def actor_js_def decision_js_def
      bases_js_def basis_js_def bases_before_def version_supported_def basis_def canonicalize_Obj by_key_def
      obj_put_def is_index_key_def is_digit_def JSON_stringify_def)

abbreviation site_module :: "site Module" where
  "site_module \<equiv> se_module site_seam"

lemma site_module_sel [simp]:
  "m_sha site_module = sample_sha" "m_env site_module = Map.empty" "m_getKill site_module = s_kill"
  "m_putKill site_module = (\<lambda>k w. w\<lparr>s_kill := k\<rparr>)" "m_telemetry site_module = noopTelemetry"
  by (simp_all add: site_seam_def)

lemma site_deps_simps [simp]:
  "sink_emit site_deps = (\<lambda>r w. (Inr (), w\<lparr>s_log := s_log w @ [r]\<rparr>))" "metadataProvider site_deps = None" "dep_signer site_deps = None"
  "dep_ledger site_deps = Some site_ledger" "clock_nowIso site_deps = readE (\<lambda>w. show_nat (s_time w))"
  "clock_nowMs site_deps = (\<lambda>w. (Inr (int (s_time w)), w\<lparr>s_time := Suc (s_time w)\<rparr>))"
  "resolveResourceVersion site_deps = None" "dep_plan site_deps = Some (retE (Some pay_plan))"
  "dep_context site_deps = Some site_context" "rateLimitRollback site_deps = None" "budgetGrant site_deps = None"
  "confirmationReceipt site_deps = Some \<lparr>cr_intentHash = ''h'', cr_at = show_nat 0, cr_originalAt = None, cr_token = Some ''k'', cr_binding = None\<rparr>"
  by (simp_all add: seam_deps_def site_seam_def)

lemma site_context_sel [simp]: "ctx_telemetry site_context = noopTelemetry"
  "ctx_killSwitch site_context = Some \<lparr>kp_isKilled = Some (retE False), kp_state = retE INERT_STATE\<rparr>"
  by (simp_all add: site_context_def)

abbreviation paid :: "AdjudicationTraceEntry list \<Rightarrow> Decided" where
  "paid tr \<equiv> \<lparr>dc_decision = Execute (bases_before ph_default), dc_trace = tr, dc_executed = sample_envelope,
       dc_supersedes = None, dc_acquired = True\<rparr>"

lemma site_audit:
  "\<exists>r. run (auditPath site_module site_deps sample_envelope (paid tr) dur (Some pay_plan)) w = (Inr r, w\<lparr>s_log := s_log w @ [r]\<rparr>)
     \<and> ar_envelope r = sample_envelope \<and> ar_decision r = Execute (bases_before ph_default)"
  using site_build [of tr dur "show_nat (s_time w)"]
  by (auto simp: auditPath_def emitRecord_def bindE_def finallyE_def tryE_def applyMeta_def readE_def retE_def claims_ledger_def)

lemma site_adjudicate:
  "\<exists>res w'. run (adjudicateAndAudit site_module sample_envelope () sample_policy site_deps) site_start = (Inr res, w')
     \<and> rs_decision res = Execute (bases_before ph_default) \<and> s_run w' = []"
proof -
  let ?tr = "snd (fst (adjudicateWithTrace sample_sha Map.empty sample_envelope () sample_policy initialKillSwitch))"
  obtain f where audit: "run (auditPath site_module site_deps sample_envelope (paid ?tr) dur (Some pay_plan)) w
      = (Inr (f dur w), w\<lparr>s_log := s_log w @ [f dur w]\<rparr>)" for dur w
    using site_audit by metis
  show ?thesis
    by (simp add: adjudicateAndAudit_def readTenantKillState_def mainPath_def consult_ledger_def decide_def site_start_def
       bindE_def site_ledger_def createMemoryLedger_def mem_checkLedger_def telemetry_of_def
       noopTelemetry_def retE_def adjudicateWithTraceE_run sample_default confirm_def spend_budget_def
       execute_rewrite_def claim_def Let_def claims_ledger_def mem_recordExecution_def claim_entry_def readE_def site_plan
       emitDecisionEvents_def emitOutcome_def tryE_def audit [unfolded noopTelemetry_def retE_def])
qed

lemma site_agent_sel [simp]:
  "ao_seam site_agent = site_seam" "ao_pack site_agent = (\<lambda>_. site_pack)" "ao_executor site_agent = site_executor"
  "ao_maxIterations site_agent = Some 0" "ao_configSeal site_agent = None" "ao_capabilityGate site_agent = None"
  "ao_resourceBindingPolicy site_agent = None" "ao_contaminationEnabled site_agent = False"
  "ao_onTrace site_agent = (\<lambda>_. retE ())" "ao_verifyParkedHash site_agent = Some verify_off"
  "cfs_take (ao_confirmationStore site_agent) = (\<lambda>_. retE (Some \<lparr>pc_envelope = sample_envelope, pc_sessionId = ''s'',
         pc_assistantHistorySnapshot = (), pc_toolUseId = ''u'', pc_prompt = ''ok?''\<rparr>))"
  by (simp_all add: site_agent_def)

lemma site_pack_sel [simp]: "pv_plan site_pack st c = Inr pay_plan" "sp_policy (pv_sealable site_pack) = sample_policy"
  "pv_executorContract site_pack k = None"
  by (simp_all add: site_pack_def)

lemma site_nowIso: "se_nowIso site_seam = readE (\<lambda>w. show_nat (s_time w))" "s_time site_start = 0"
  by (simp_all add: site_seam_def site_start_def)

lemma sample_intact: "verifyResourceBinding sample_sha sample_envelope = Bound"
proof -
  have "e_intentHash (sample_envelope\<lparr>e_createdAt := c\<rparr>) = ''h''" for c by (simp add: sample_envelope_def)
  then show ?thesis using adjudicate_rewrite_safe_witness
    by (simp add: verifyResourceBinding_def deriveIntentHash_def intentHashInput_def split: sum.splits if_splits)
qed

lemma site_seed_runs:
  "\<exists>ts' w'. run (seed_step site_agent ''s'' () \<lparr>sd_decision = Execute (bases_before ph_default), sd_envelope = sample_envelope, sd_toolUseId = ''u''\<rparr> ts) w
     = (Inr (Inr ts'), w')"
  by (simp add: seed_step_def processSingleDecision_def translateDecision_def translation_context_def runExecute_def Let_def
      sample_intact run_executor_def bindE_def readE_def retE_def tryE_def site_executor_def execute_body_def JSON_stringify_def)

lemma site_seed:
  "run (seed_step site_agent ''s'' () \<lparr>sd_decision = Execute (bases_before ph_default), sd_envelope = sample_envelope, sd_toolUseId = ''u''\<rparr> ts) w
     = (Inr (Inr ts'), w') \<Longrightarrow> s_run w' = s_run w @ [sample_envelope]"
  by (auto simp: seed_step_def processSingleDecision_def translateDecision_def translation_context_def runExecute_def Let_def
      sample_intact run_executor_def bindE_def readE_def retE_def tryE_def site_executor_def
      split: if_splits sum.splits)

lemma site_confirm:
  "\<exists>r w'. run (confirm_agent site_agent ''k'' True () () None) site_start = (Inr r, w') \<and> s_run w' = [sample_envelope]"
proof -
  let ?sd = "\<lparr>sd_decision = Execute (bases_before ph_default), sd_envelope = sample_envelope, sd_toolUseId = ''u''\<rparr>"
  obtain res w1 where adj: "run (adjudicateAndAudit site_module sample_envelope () sample_policy site_deps) site_start = (Inr res, w1)"
    "rs_decision res = Execute (bases_before ph_default)" "s_run w1 = []" using site_adjudicate by blast
  let ?evs = "[EvIntentProposed sample_envelope, EvDecision (Execute (bases_before ph_default)) sample_envelope]"
  let ?ts = "\<lparr>ts_events = ?evs, ts_history = (), ts_lastDecision = None, ts_contamination = None,
       ts_toolResults = [], ts_pauseAction = None\<rparr>"
  obtain ts' w2 where seed: "run (seed_step site_agent ''s'' () ?sd ?ts) w1 = (Inr (Inr ts'), w2)"
    using site_seed_runs by blast
  have g: "s_run w2 = [sample_envelope]" using site_seed [OF seed] adj(3) by simp
  have dec: "run (confirm_decision site_agent ''k'' None () () sample_policy \<lparr>pc_envelope = sample_envelope, pc_sessionId = ''s'',
       pc_assistantHistorySnapshot = (), pc_toolUseId = ''u'', pc_prompt = ''ok?''\<rparr>) site_start = (Inr ?sd, w1)"
    unfolding confirm_decision_def Let_def agent_adjudicate_def
    by (simp add: bindE_def readE_def site_nowIso adj(1,2))
  have turn: "run (effP (open_turn site_agent sid)) w = (Inr (Inr sample_policy), w)" for sid w
    by (simp add: open_turn_def checkConfigSeal_def bindE_def retE_def readE_def)
  have loop: "run (iterate site_agent policy sid () () 0 ts) w = (Inr (turn_result ts (OutMaxIterations (ts_lastDecision ts))), w)" for policy sid ts w
    by (simp add: bindE_def retE_def)
  have run: "run (runLoop site_agent ''s'' () () () ?evs (Some ?sd)) w1 = (Inr (turn_result ts' (OutMaxIterations (ts_lastDecision ts'))), w2)"
    using turn [of "''s''" w1] unfolding runLoop_def
    by (simp add: bindE_def contamination_store_def Let_def max_iterations_def del: iterate.simps) (simp add: retE_def seed loop del: iterate.simps)
  show ?thesis unfolding confirm_agent_def
    using turn [of "''s''" site_start] by (simp add: retE_def confirm_untampered_def) (simp add: bindE_def dec run g)
qed

text \<open>A confirmation of an envelope that the policy admits: it is claimed, audited and run, once.\<close>

theorem agent_executes_audited_once_witness:
  "\<exists>w ts. reachable (agent_calls {site_agent}) (\<lambda>_ _. False) site_start (w, ts) \<and> s_run w = [sample_envelope]
     \<and> ''h'' \<in> site_held w \<and> (\<exists>a \<in> set (s_log w). executing (ar_decision a) \<and> ar_envelope a = sample_envelope)"
proof -
  let ?p = "confirm_agent site_agent ''k'' True () () None"
  obtain r w where r: "run ?p site_start = (Inr r, w)" "s_run w = [sample_envelope]" using site_confirm by blast
  have "?p \<in> agent_calls {site_agent}" unfolding agent_calls_def by blast
  from start_reachable [OF this, of "\<lambda>_ _. False" site_start 0] r(1)
  have reach: "reachable (agent_calls {site_agent}) (\<lambda>_ _. False) site_start (w, [0 \<mapsto> Done (Inr r)])" by simp
  have ob: "ob_run site_observers = s_run" "ob_held site_observers = site_held" "ob_accepted site_observers = (\<lambda>w. set (s_log w))"
    "audit_observers site_observers"
    by (simp_all add: site_observers_def audit_observers_def)
  have "distinct (map e_intentHash (ob_run site_observers w))
     \<and> (\<forall>x \<in> set (ob_run site_observers w). e_intentHash x \<in> ob_held site_observers w
          \<and> (\<exists>a \<in> ob_accepted site_observers w. executing (ar_decision a) \<and> ar_envelope a = x))"
    by (rule agent_executes_audited_once [OF _ ob(4) _ _ reach])
      (use site_wired in \<open>simp_all add: ob site_start_def\<close>)
  with reach r(2) show ?thesis by (auto simp: ob)
qed

end
