(* ===== verification/Dispatch.thy ===== *)
theory Dispatch
  imports AgentNode
begin

text \<open>
  What one turn of the agent checks before it acts: which list of the plan a tool name belongs to, whose
  policy is in force, what the executor is protected by, what a confirmation accepts, and what the rest of
  a turn may still do after it has read untrusted data.
\<close>

subsection \<open>Names of tools\<close>

lemma find_matches: "List.find P xs = Some x \<Longrightarrow> x \<in> set xs \<and> P x"
  by (metis find_Some_iff nth_mem)

lemma find_none: "List.find P xs = None \<longleftrightarrow> (\<forall>x \<in> set xs. \<not> P x)"
  by (auto simp: find_None_iff)

text \<open>C8: a tool name is served from exactly one list. A tool use is a read only if its name, or its name with
  dots written as underscores, is that of a visible read tool and of no allowed intent; an intent only the
  other way round; and is out of plan exactly when neither list or both lists have it, so an
  ambiguous name reaches neither the read path nor the kernel.\<close>

theorem classifyIncomingToolUse_exact:
  "case classifyIncomingToolUse name input plan of
     ClsRead r i \<Rightarrow> i = input \<and> r \<in> set (visibleReadTools plan) \<and> matchesName name r
       \<and> (\<forall>k \<in> set (allowedIntents plan). \<not> matchesName name k)
   | ClsIntent k i \<Rightarrow> i = input \<and> k \<in> set (allowedIntents plan) \<and> matchesName name k
       \<and> (\<forall>r \<in> set (visibleReadTools plan). \<not> matchesName name r)
   | ClsOutOfPlan n \<Rightarrow> n = name \<and>
       ((\<exists>r \<in> set (visibleReadTools plan). matchesName name r) \<longleftrightarrow> (\<exists>k \<in> set (allowedIntents plan). matchesName name k))"
  using find_matches [of "matchesName name" "visibleReadTools plan"] find_none [of "matchesName name" "visibleReadTools plan"]
    find_matches [of "matchesName name" "allowedIntents plan"] find_none [of "matchesName name" "allowedIntents plan"]
  by (cases "List.find (matchesName name) (visibleReadTools plan)"; cases "List.find (matchesName name) (allowedIntents plan)")
    (auto simp: classifyIncomingToolUse_def)

lemma classify_cases:
  "classifyIncomingToolUse name input plan = ClsRead r i \<Longrightarrow> r \<notin> set (allowedIntents plan)"
  "classifyIncomingToolUse name input plan = ClsIntent k j \<Longrightarrow> k \<in> set (allowedIntents plan)"
  using find_matches [of "matchesName name" "visibleReadTools plan"] find_none [of "matchesName name" "allowedIntents plan"]
    find_matches [of "matchesName name" "allowedIntents plan"]
  by (auto simp: classifyIncomingToolUse_def split: option.splits)

theorem classifyIncomingToolUse_exact_witness:
  "classifyIncomingToolUse ''a_b'' Null \<lparr>visibleReadTools = [''a_b''], allowedIntents = [''a.b'']\<rparr> = ClsOutOfPlan ''a_b''
   \<and> classifyIncomingToolUse ''a_b'' Null \<lparr>visibleReadTools = [''c''], allowedIntents = [''a.b'']\<rparr> = ClsIntent ''a.b'' Null"
  using classifyIncomingToolUse_exact [where name = "''a_b''" and input = Null and plan = "\<lparr>visibleReadTools = [''a_b''], allowedIntents = [''a.b'']\<rparr>"]
  by (simp add: classifyIncomingToolUse_def matchesName_def intentKindToApiName_def)

subsection \<open>The policy of a turn\<close>

text \<open>C6: a turn runs under a sealed policy. When the seal is checked on every turn, a turn that is opened changes
  nothing and captures the policy of a pack that verifies against the seal at that moment; if the seal was
  made from another pack, both have the same sealed surface, unless the digest collides, and where the
  options require a signature, it was verified.\<close>

theorem turn_policy_sealed:
  assumes "ao_configSeal ao = Some cfg" "ac_reverify cfg = None \<or> ac_reverify cfg = Some every_turn"
    and "sealPackConfig (se_sha (ao_seam ao)) (ao_crypto ao) original so = Inr (ac_seal cfg)"
    and "open_turn ao sid w = (Inr (Inr policy), w')"
  shows "w' = w \<and> policy = sp_policy (pv_sealable (ao_pack ao w))
    \<and> (\<exists>s0 s. extractSealableSurface (se_sha (ao_seam ao)) original = Inr s0
        \<and> extractSealableSurface (se_sha (ao_seam ao)) (pv_sealable (ao_pack ao w)) = Inr s
        \<and> (surface_collision (se_sha (ao_seam ao)) s s0 \<or> same_surface s s0))
    \<and> (sv_policy (ac_verify cfg) = Some require_signature \<longrightarrow>
        (\<exists>rep. verifyConfigSeal (se_sha (ao_seam ao)) (ao_crypto ao) (pv_sealable (ao_pack ao w)) (ac_seal cfg) (ac_verify cfg) = Inr rep
          \<and> sr_signatureVerification rep = SigVerified))"
proof -
  have report: "seal_report ao cfg v = (verifyConfigSeal (se_sha (ao_seam ao)) (ao_crypto ao) (pv_sealable (ao_pack ao v))
      (ac_seal cfg) (ac_verify cfg), v)" for v
    using assms(2) by (auto simp: seal_report_def Let_def)
  obtain w1 where check: "checkConfigSeal ao sid w = (Inr None, w1)" "w' = w1" "policy = sp_policy (pv_sealable (ao_pack ao w1))"
    using assms(4) by (auto simp: open_turn_def bindE_Inr retE_def readE_def split: option.splits)
  then have run: "bindE (seal_report ao cfg) (\<lambda>rep.
        if sr_verified rep then retE None
        else bindE (case ac_onDrift cfg of None \<Rightarrow> retE () | Some f \<Rightarrow> tryE (f rep) (\<lambda>_. retE ())) (\<lambda>_.
          bindE (if ac_engageKillSwitchOnMismatch cfg then ao_setKillSwitch ao else retE ()) (\<lambda>_.
          bindE (ao_onTrace ao (trace_event tp_config_seal_violation sid 0)) (\<lambda>_.
          retE (Some (seal_refusal ao rep)))))) w = (Inr None, w1)"
    using assms(1) by (simp only: checkConfigSeal_def option.case)
  from iffD1 [OF bindE_Inr run] obtain rep w2 where rep: "seal_report ao cfg w = (Inr rep, w2)"
    and rest: "(if sr_verified rep then retE None
        else bindE (case ac_onDrift cfg of None \<Rightarrow> retE () | Some f \<Rightarrow> tryE (f rep) (\<lambda>_. retE ())) (\<lambda>_.
          bindE (if ac_engageKillSwitchOnMismatch cfg then ao_setKillSwitch ao else retE ()) (\<lambda>_.
          bindE (ao_onTrace ao (trace_event tp_config_seal_violation sid 0)) (\<lambda>_.
          retE (Some (seal_refusal ao rep)))))) w2 = (Inr None, w1)" by blast
  have "sr_verified rep" by (rule ccontr) (use rest in \<open>simp add: bindE_Inr retE_def\<close>)
  moreover from this rest have "w1 = w2" by (simp add: retE_def)
  ultimately have "seal_report ao cfg w = (Inr rep, w2)" "sr_verified rep" "w1 = w2" using rep by blast+
  then have rep: "verifyConfigSeal (se_sha (ao_seam ao)) (ao_crypto ao) (pv_sealable (ao_pack ao w))
      (ac_seal cfg) (ac_verify cfg) = Inr rep" "sr_verified rep" "w1 = w"
    by (auto simp: report)
  from drift_detected [OF assms(3) rep(1,2)] rep check show ?thesis by auto
qed

subsection \<open>What the executor is protected by\<close>

text \<open>C4: the executor is behind the binding check and the capability gate. Whatever a decision's execution changes,
  apart from the store of capabilities, it changes only if the envelope still has the hash of its
  content (or the check was switched off) and, with a gate, the store gave up, in this run, a capability for the nonce of the
  envelope whose signature verifies and which is bound to its hash.\<close>

theorem runExecute_fails_closed:
  assumes "\<And>gate n. tc_capabilityGate ctx = Some gate \<Longrightarrow> frame obs (burn (cg_burnStore gate) n)"
    and "obs (snd (run (runExecute ctx x why) w)) \<noteq> obs w"
  shows "(tc_resourceBindingPolicy ctx = Some Off \<or> verifyResourceBinding (se_sha (tc_seam ctx)) x = Bound)
    \<and> (\<forall>gate. tc_capabilityGate ctx = Some gate \<longrightarrow> (\<exists>cap w1. burn (cg_burnStore gate) (e_nonce x) w = (Inr (Some cap), w1)
          \<and> cg_verify gate cap = Inr True \<and> cap_intentHash cap = e_intentHash x))"
proof (intro conjI allI impI)
  show "tc_resourceBindingPolicy ctx = Some Off \<or> verifyResourceBinding (se_sha (tc_seam ctx)) x = Bound"
    using assms(2) by (rule contrapos_np) (auto simp: runExecute_def Let_def retE_def DEFAULT_RESOURCE_BINDING_POLICY_def split: option.splits)
next
  fix gate
  assume gate: "tc_capabilityGate ctx = Some gate"
  obtain out w1 where b: "burn (cg_burnStore gate) (e_nonce x) w = (out, w1)" by fastforce
  have fr: "obs w1 = obs w" using assms(1) [OF gate] b by (metis frame_def snd_conv)
  show "\<exists>cap w1. burn (cg_burnStore gate) (e_nonce x) w = (Inr (Some cap), w1)
          \<and> cg_verify gate cap = Inr True \<and> cap_intentHash cap = e_intentHash x"
  proof (rule ccontr)
    assume no: "\<not> ?thesis"
    have "(\<exists>err. run (gate_passes gate x) w = (Inl err, w1)) \<or> run (gate_passes gate x) w = (Inr False, w1)"
    proof (cases out)
      case (Inr c)
      with no b show ?thesis
        by (cases c; cases "cg_verify gate (the c)") (auto simp: gate_passes_def tryE_def bindE_def retE_def)
    qed (use b in \<open>simp add: gate_passes_def tryE_def bindE_def retE_def\<close>)
    then have "obs (snd (run (runExecute ctx x why) w)) = obs w"
      using fr by (auto simp: runExecute_def Let_def gate bindE_def retE_def)
    with assms(2) show False by contradiction
  qed
qed


text \<open>The confirming agent, with a seal that is checked on every turn.\<close>

definition sealed_agent :: "ConfigSeal \<Rightarrow> (site, unit, unit, unit) AgentOptions" where
  "sealed_agent cl = site_agent\<lparr>ao_pack := \<lambda>_. site_pack\<lparr>pv_sealable := sample_pack ''p''\<rparr>, ao_configSeal := Some
     \<lparr>ac_seal = cl, ac_verify = digest_only, ac_engageKillSwitchOnMismatch = False, ac_reverify = Some every_turn, ac_onDrift = None\<rparr>\<rparr>"

theorem turn_policy_sealed_witness:
  "\<exists>cl policy. open_turn (sealed_agent cl) ''s'' site_start = (Inr (Inr policy), site_start) \<and> policy = sp_policy (sample_pack ''p'')"
proof -
  obtain cl rep where cl: "sealPackConfig sample_sha no_crypto (sample_pack ''p'') plain_seal = Inr cl"
    "verifyConfigSeal sample_sha no_crypto (sample_pack ''p'') cl digest_only = Inr rep" "sr_verified rep"
    using sample_sealed by blast
  let ?ao = "sealed_agent cl"
  have sel: "ao_seam ?ao = site_seam" "ao_crypto ?ao = no_crypto" "pv_sealable (ao_pack ?ao w) = sample_pack ''p''"
    "\<exists>cfg. ao_configSeal ?ao = Some cfg \<and> ac_seal cfg = cl \<and> ac_verify cfg = digest_only \<and> ac_reverify cfg = Some every_turn" for w
    by (simp_all add: sealed_agent_def site_agent_def)
  then obtain cfg where cfg: "ao_configSeal ?ao = Some cfg" "ac_seal cfg = cl" "ac_verify cfg = digest_only"
    "ac_reverify cfg = Some every_turn" by blast
  have opened: "open_turn ?ao ''s'' site_start = (Inr (Inr (sp_policy (sample_pack ''p''))), site_start)"
    using cl by (simp add: open_turn_def checkConfigSeal_def cfg seal_report_def Let_def sel bindE_def retE_def readE_def)
  have "sealPackConfig (se_sha (ao_seam ?ao)) (ao_crypto ?ao) (sample_pack ''p'') plain_seal = Inr (ac_seal cfg)"
    by (simp add: sel cl cfg)
  from turn_policy_sealed [OF cfg(1) _ this opened] cfg(4) opened show ?thesis by blast
qed

text \<open>An executor that runs, without a gate; and one that a gate with an empty store protects.\<close>

definition site_ctx :: "(site, unit, unit) DecisionTranslationContext" where
  "site_ctx = translation_context site_agent None ''u'' ''s'' () ()"

theorem runExecute_fails_closed_witness:
  "verifyResourceBinding sample_sha sample_envelope = Bound
    \<and> s_run (snd (run (runExecute site_ctx sample_envelope None) site_start)) \<noteq> s_run site_start"
proof -
  have ran: "s_run (snd (run (runExecute site_ctx sample_envelope None) site_start)) \<noteq> s_run site_start"
    by (simp add: site_ctx_def translation_context_def runExecute_def Let_def sample_intact run_executor_def bindE_def retE_def
        tryE_def site_executor_def execute_body_def JSON_stringify_def site_start_def)
  have ctx: "tc_capabilityGate site_ctx = None" "tc_resourceBindingPolicy site_ctx = None" "tc_seam site_ctx = site_seam"
    by (simp_all add: site_ctx_def translation_context_def)
  from runExecute_fails_closed [of site_ctx s_run, OF _ ran] ran show ?thesis by (simp add: ctx)
qed


subsection \<open>Confirmations of envelopes with resource references\<close>

lemma refs_defined: "refs_js r \<noteq> Undef"
  by (simp add: refs_js_def)

text \<open>C7: an intact envelope with resource references can never be confirmed. Unless the check of parked envelopes is
  switched off, an envelope that still has the hash of its content, as the kernel's own check says,
  is reported as modified after persistence when its confirmation arrives, because the text that is
  hashed again leaves the references out (or the digest collides).\<close>

theorem confirm_refuses_resource_refs:
  assumes "verifyResourceBinding (se_sha (ao_seam ao)) e = Bound" "e_resourceRefs e = Some refs"
    and "ao_verifyParkedHash ao \<noteq> Some verify_off"
    and "\<not> collision (se_sha (ao_seam ao)) (confirm_hash_input e) (intentHashInput e)"
  shows "confirm_untampered ao e \<noteq> Inr True"
proof
  let ?sha = "se_sha (ao_seam ao)"
  assume "confirm_untampered ao e = Inr True"
  then have h: "sha256Canonical ?sha (confirm_hash_input e) = Inr (e_intentHash e)"
    using assms(3) by (auto simp: confirm_untampered_def mapR_Inr split: option.splits if_splits)
  have i: "sha256Canonical ?sha (intentHashInput e) = Inr (e_intentHash e)"
    using assms(1) by (simp add: verifyResourceBinding_Bound deriveIntentHash_def)
  obtain c where c: "canonicalize (intentHashInput e) = Inr c"
    using sha256Canonical_form [OF i] by auto
  then have "canonicalize (confirm_hash_input e) = Inr c"
    using sha256Canonical_inject [OF assms(4) h i] by simp
  from canonicalize_Obj_determines [OF this [unfolded confirm_hash_input_def] c [unfolded intentHashInput_def], of "''resourceRefs''"]
  show False using assms(2) refs_defined by (auto simp: own_canon_def)
qed

theorem confirm_refuses_resource_refs_witness:
  "\<exists>e. verifyResourceBinding (\<lambda>s. s) e = Bound
     \<and> confirm_untampered (site_agent\<lparr>ao_seam := site_seam\<lparr>se_module := site_module\<lparr>m_sha := \<lambda>s. s\<rparr>\<rparr>, ao_verifyParkedHash := None\<rparr>) e \<noteq> Inr True"
proof -
  let ?ao = "site_agent\<lparr>ao_seam := site_seam\<lparr>se_module := site_module\<lparr>m_sha := \<lambda>s. s\<rparr>\<rparr>, ao_verifyParkedHash := None\<rparr>"
  let ?e = "sample_envelope\<lparr>e_resourceRefs := Some [(''r'', ''1'')]\<rparr>"
  obtain h where h: "deriveIntentHash (\<lambda>s. s) ?e = Inr h"
    by (simp add: deriveIntentHash_def intentHashInput_def sha256Canonical_def canonicalJson_def sample_envelope_def
        actor_js_def refs_js_def canonicalize_Obj by_key_def obj_put_def is_index_key_def is_digit_def JSON_stringify_def)
  let ?f = "?e\<lparr>e_intentHash := h\<rparr>"
  have "intentHashInput ?f = intentHashInput ?e" by (simp add: intentHashInput_def)
  with h have bound: "verifyResourceBinding (\<lambda>s. s) ?f = Bound"
    by (simp add: verifyResourceBinding_Bound deriveIntentHash_def)
  have "confirm_untampered ?ao ?f \<noteq> Inr True"
    by (rule confirm_refuses_resource_refs [where refs = "[(''r'', ''1'')]"])
      (use bound in \<open>simp_all add: collision_def split: sum.split\<close>)
  with bound show ?thesis by blast
qed


subsection \<open>What a contaminated turn may still decide\<close>

lemma admitted_taint:
  assumes "decision_kind (kernel_decision sha env e st policy ks) \<noteq> REFUSE" "list_all (abstains e st) (stateGuards policy)"
  shows "taint_ok (taint_policy policy) e"
proof (cases rule: adjudicate_cases [of env ks e sha st policy])
  case entry
  then show ?thesis using entry_fire assms(1) by blast
next
  case state
  then show ?thesis using assms(2) by simp
next
  case (taint f)
  then show ?thesis using taint_fire assms(1) by metis
qed simp_all

lemma executed_taint:
  assumes "run (adjudicateAndAudit m e st policy deps) w = (Inr res, w')" "executing (rs_decision res)"
    and "list_all (abstains e st) (stateGuards policy)"
  shows "taint_ok (taint_policy policy) e"
proof -
  obtain x where "authorised m deps e st policy (rs_decision res) x"
    using executed_decided [OF assms(1,2)] decide_Inr by metis
  then obtain ks where "decision_kind (kernel_decision (m_sha m) (m_env m) e st policy ks) = EXECUTE
      \<or> decision_kind (kernel_decision (m_sha m) (m_env m) e st policy ks) = REQUEST_CONFIRMATION
      \<or> (\<exists>x why b. kernel_decision (m_sha m) (m_env m) e st policy ks = Rewrite x why b)"
    unfolding authorised_def Let_def by blast
  then have "decision_kind (kernel_decision (m_sha m) (m_env m) e st policy ks) \<noteq> REFUSE" by auto
  from admitted_taint [OF this assms(3)] show ?thesis .
qed

text \<open>A decision on an intent of the plan, under a contamination with origin \<open>o'\<close> and taint at most \<open>t\<close>.\<close>

definition wary :: "'s PolicyBundle \<Rightarrow> Plan \<Rightarrow> 's \<Rightarrow> Origin \<Rightarrow> Taint \<Rightarrow> AgentEvent \<Rightarrow> bool" where
  "wary policy plan st o' t ev \<longleftrightarrow> (\<forall>d e. ev = EvDecision d e \<longrightarrow> e_kind e \<in> set (allowedIntents plan) \<longrightarrow>
     e_origin e = o' \<and> e_taint e \<le> t
     \<and> (executing d \<longrightarrow> list_all (abstains e st) (stateGuards policy) \<longrightarrow> taint_ok (taint_policy policy) e))"

lemma wary_other [simp]:
  "wary policy plan st o' t (EvToolUse a b c)" "wary policy plan st o' t (EvToolBlocked a b)"
  "wary policy plan st o' t (EvToolResult a r)" "wary policy plan st o' t (EvIntentProposed e)"
  "wary policy plan st o' t (EvHandlerResult a v)" "wary policy plan st o' t (EvContractViolation a b m)"
  by (simp_all add: wary_def)

lemma yields_run:
  assumes "yields p R"
  shows "R (fst (run p w))"
proof -
  have "safe (\<lambda>_. {}) p None (\<lambda>_ r. R r)"
    by (rule safe_mono [OF assms [unfolded kept_def, rule_format]]) simp
  then show ?thesis
  proof (induction p arbitrary: w rule: proc_step_induct)
    case (Step g)
    from Step.prems obtain c where "safe (\<lambda>_. {}) (fst (g w)) c (\<lambda>_ r. R r)" "claim_step None {} c {}" by auto
    moreover from this(2) have "c = None" by (auto simp: claim_step_def)
    ultimately show ?case using Step.IH by simp
  qed (simp add: retE_def)
qed

definition undecided :: "DecisionTranslation result \<Rightarrow> bool" where
  "undecided r \<longleftrightarrow> (\<forall>single d e. r = Inr single \<longrightarrow> EvDecision d e \<notin> set (dt_extraEvents single))"

lemma undecided_simps [simp]: "undecided (Inl e)" "undecided (Inr (translation i c b a))"
  by (simp_all add: undecided_def translation_def Let_def)

lemma executor_events: "yields (run_executor ctx x why) undecided"
  unfolding run_executor_def
  by (intro yields_bind) (auto simp: Let_def contract_events_def undecided_def translation_def split: sum.split option.split
      intro!: yields_bind kept_ret)

lemma execute_events: "yields (runExecute ctx x why) undecided"
  unfolding runExecute_def Let_def
  by (auto split: option.split intro!: yields_bind kept_ret executor_events)

lemma translation_events: "yields (translateDecision ctx d0 e0) undecided"
  unfolding translateDecision_def
  by (cases d0) (auto split: ParkResult.split intro!: yields_bind kept_ret execute_events)

lemma process_events: "yields (processSingleDecision ao d0 e0 tid sid st h) undecided"
  unfolding processSingleDecision_def by (intro yields_bind translation_events) simp_all

lemma contaminated_envelope:
  assumes "intent_envelope ao now sid (Some c) kind p nonce = Inr e"
  shows "e_origin e = sc_origin c \<and> e_taint e \<le> sc_taint c \<and> e_kind e = kind"
  using assms by (auto simp: intent_envelope_def buildEnvelopeFromToolUse_def buildEnvelope_def Let_def mapR_Inr
      applySessionContamination_def mergeTaint_def less_eq_Taint_def)

text \<open>A step leaves a contaminated turn contaminated with the same origin, and no more trusted.\<close>

definition marked :: "Origin \<Rightarrow> Taint \<Rightarrow> 'h TurnState \<Rightarrow> bool" where
  "marked o' t ts \<longleftrightarrow> (\<exists>c. ts_contamination ts = Some c \<and> sc_origin c = o' \<and> sc_taint c \<le> t)"

lemma contaminate_tainted:
  "marked o' t ts \<Longrightarrow> marked o' t (ts'\<lparr>ts_contamination := contaminateSession (ts_contamination ts) d_o d_t\<rparr>)"
  by (auto simp: marked_def contaminateSession_def mergeTaint_def less_eq_Taint_def)

lemma budget_result:
  assumes "run (tryBudgetSubstitution ao e st policy plan at) w = (Inr (Some r), w')"
  shows "\<exists>deps w1 w2. run (adjudicateAndAudit (se_module (ao_seam ao)) e st policy deps) w1 = (Inr r, w2)"
  using assms by (fastforce simp: tryBudgetSubstitution_def agent_adjudicate_def run_Inr retE_def split: option.splits if_splits)

definition intent_result :: "'h TurnState \<Rightarrow> IntentEnvelope \<Rightarrow> Decision \<Rightarrow> DecisionTranslation \<Rightarrow> 'h TurnState" where
  "intent_result ts envelope decision single =
     (if dt_loopAction single \<noteq> LaContinue
      then (case dt_toolResult single of
          Some r \<Rightarrow> add_result r ((add_events ([EvIntentProposed envelope, EvDecision decision envelope] @ dt_extraEvents single) ts)
                  \<lparr>ts_lastDecision := Some decision\<rparr>)
        | None \<Rightarrow> (add_events ([EvIntentProposed envelope, EvDecision decision envelope] @ dt_extraEvents single) ts)
                  \<lparr>ts_lastDecision := Some decision\<rparr>)\<lparr>ts_pauseAction := Some (dt_loopAction single)\<rparr>
      else (case dt_toolResult single of
          Some r \<Rightarrow> add_result r ((add_events ([EvIntentProposed envelope, EvDecision decision envelope] @ dt_extraEvents single) ts)
                  \<lparr>ts_lastDecision := Some decision\<rparr>)
        | None \<Rightarrow> (add_events ([EvIntentProposed envelope, EvDecision decision envelope] @ dt_extraEvents single) ts)
                  \<lparr>ts_lastDecision := Some decision\<rparr>))"

lemma intent_step_Inr:
  assumes "run (intent_step ao policy plan sid st iter tu kind p ts) w = (Inr ts', w')"
  shows "\<exists>nonce now e res w2 single w3. intent_envelope ao now sid (ts_contamination ts) kind p nonce = Inr e
     \<and> (\<exists>deps w0 w1. run (adjudicateAndAudit (se_module (ao_seam ao)) e st policy deps) w0 = (Inr res, w1))
     \<and> run (processSingleDecision ao (rs_decision res) e (tu_id tu) sid st (ts_history ts)) w2 = (Inr single, w3)
     \<and> ts_contamination ts' = ts_contamination ts
     \<and> ts_events ts' = ts_events ts @ [EvIntentProposed e, EvDecision (rs_decision res) e] @ dt_extraEvents single"
proof -
  from assms obtain nonce now e first budgeted w1 w2 w4 w5 w6 single where
    e: "intent_envelope ao now sid (ts_contamination ts) kind p nonce = Inr e"
    and first: "run (agent_adjudicate ao e st policy id plan) w1 = (Inr first, w2)"
    and budgeted: "run (if decision_kind (rs_decision first) = REQUEST_CONFIRMATION
            then tryBudgetSubstitution ao e st policy plan (ar_at (rs_record first)) else retP None) w2 = (Inr budgeted, w4)"
    and single: "run (processSingleDecision ao (rs_decision (case budgeted of Some r \<Rightarrow> r | None \<Rightarrow> first)) e (tu_id tu) sid st
        (ts_history ts)) w5 = (Inr single, w6)"
    and fin: "retE (intent_result ts e (rs_decision (case budgeted of Some r \<Rightarrow> r | None \<Rightarrow> first)) single) w6 = (Inr ts', w')"
    unfolding intent_step_def Let_def run_bindP run_effP run_resultP run_retP run_Inr intent_result_def by blast
  have ts': "ts_contamination ts' = ts_contamination ts" "ts_events ts' = ts_events ts @ [EvIntentProposed e,
        EvDecision (rs_decision (case budgeted of Some r \<Rightarrow> r | None \<Rightarrow> first)) e] @ dt_extraEvents single"
    using fin by (auto simp: intent_result_def add_events_def add_result_def retE_def split: option.split if_splits)
  let ?res = "case budgeted of Some r \<Rightarrow> r | None \<Rightarrow> first"
  have "\<exists>deps w0 w1. run (adjudicateAndAudit (se_module (ao_seam ao)) e st policy deps) w0 = (Inr ?res, w1)"
  proof (cases budgeted)
    case None
    then show ?thesis using first unfolding agent_adjudicate_def by auto
  next
    case (Some r)
    then show ?thesis using budgeted budget_result by (fastforce simp: retE_def split: if_splits)
  qed
  with e single ts' show ?thesis by blast
qed

lemma intent_wary:
  assumes "run (intent_step ao policy plan sid st iter tu kind p ts) w = (Inr ts', w')" "marked o' t ts"
  shows "marked o' t ts' \<and> (\<exists>new. ts_events ts' = ts_events ts @ new \<and> (\<forall>ev \<in> set new. wary policy plan st o' t ev))"
proof -
  from intent_step_Inr [OF assms(1)] obtain nonce now e res w2 single w3 where
    e: "intent_envelope ao now sid (ts_contamination ts) kind p nonce = Inr e"
    and adj: "\<exists>deps w0 w1. run (adjudicateAndAudit (se_module (ao_seam ao)) e st policy deps) w0 = (Inr res, w1)"
    and single: "run (processSingleDecision ao (rs_decision res) e (tu_id tu) sid st (ts_history ts)) w2 = (Inr single, w3)"
    and ts': "ts_contamination ts' = ts_contamination ts"
      "ts_events ts' = ts_events ts @ [EvIntentProposed e, EvDecision (rs_decision res) e] @ dt_extraEvents single"
    by blast
  obtain c where c: "ts_contamination ts = Some c" "sc_origin c = o'" "sc_taint c \<le> t" using assms(2) by (auto simp: marked_def)
  have "e_origin e = o'" "e_taint e \<le> t"
    using contaminated_envelope [of ao now sid c kind p nonce e] e c by (auto intro: order_trans)
  moreover have "taint_ok (taint_policy policy) e" if "executing (rs_decision res)" "list_all (abstains e st) (stateGuards policy)"
    proof -
    from adj obtain deps w0 w1 where "run (adjudicateAndAudit (se_module (ao_seam ao)) e st policy deps) w0 = (Inr res, w1)" by blast
    from executed_taint [OF this that] show ?thesis .
  qed
  ultimately have "wary policy plan st o' t (EvDecision (rs_decision res) e)" by (simp add: wary_def)
  moreover have "wary policy plan st o' t ev" if "ev \<in> set (dt_extraEvents single)" for ev
    
    using yields_run [OF process_events [of ao "rs_decision res" e "tu_id tu" sid st "ts_history ts"], of w2] single that
    by (auto simp: wary_def undecided_def)
  ultimately show ?thesis using ts' assms(2) by (auto simp: marked_def)
qed


definition read_named :: "string \<Rightarrow> ReadRouted result \<Rightarrow> bool" where
  "read_named name r \<longleftrightarrow> (\<forall>ro d e. r = Inr ro \<longrightarrow> EvDecision d e \<in> set (ro_extraEvents ro) \<longrightarrow> e_kind e = name)"

lemma read_named_simps [simp]: "read_named name (Inl e)"
  "read_named name (Inr (read_failed i c es)) \<longleftrightarrow> (\<forall>d e. EvDecision d e \<in> set es \<longrightarrow> e_kind e = name)"
  by (auto simp: read_named_def read_failed_def Let_def)

lemma routed_name:
  "yields (routeReadThroughKernel se ex taint plan st sid tid name input nonce) (read_named name)"
proof -
  have serve: "yields (serve_read ex n input st tid es) (read_named n)" if "\<And>d e. EvDecision d e \<in> set es \<Longrightarrow> e_kind e = n" for es n
    unfolding serve_read_def using that
    by (auto simp: Let_def read_named_def split: sum.split intro!: yields_bind kept_ret)
      (simp add: read_failed_def Let_def)
  have built: "yields (resultP (buildEnvelopeFromToolUse (m_sha (se_module se)) now \<lparr>ba_intentKind = name, ba_payload = input, ba_sessionId = sid,
        ba_taint = UNTRUSTED, ba_origin = LLM, ba_contamination = None, ba_nonce = nonce\<rparr>)) (\<lambda>r. \<forall>e. r = Inr e \<longrightarrow> e_kind e = name)" for now
    unfolding resultP_def
    by (rule kept_Done) (auto simp: buildEnvelopeFromToolUse_def buildEnvelope_def Let_def mapR_Inr)
  show ?thesis unfolding routeReadThroughKernel_def
    by (rule yields_bind, rule kept_bind [OF built]) (auto simp: Let_def intro!: yields_bind kept_ret serve)
qed

definition cautious :: "'s PolicyBundle \<Rightarrow> Plan \<Rightarrow> 's \<Rightarrow> Origin \<Rightarrow> Taint \<Rightarrow> 'h TurnState \<Rightarrow> 'h TurnState result \<Rightarrow> bool" where
  "cautious policy plan st o' t ts r \<longleftrightarrow> (\<forall>ts'. r = Inr ts' \<longrightarrow> marked o' t ts \<longrightarrow> marked o' t ts'
     \<and> (\<exists>new. ts_events ts' = ts_events ts @ new \<and> (\<forall>ev \<in> set new. wary policy plan st o' t ev)))"

lemma cautious_Inl [simp]: "cautious policy plan st o' t ts (Inl e)"
  by (simp add: cautious_def)

lemma read_cautious:
  assumes "name \<notin> set (allowedIntents plan)"
  shows "yields (read_step ao policy plan sid st tu name input ts) (cautious policy plan st o' t ts)"
proof -
  have r: "cautious policy plan st o' t ts (Inr ((add_events (ro_extraEvents ro) (add_result r ts))\<lparr>ts_contamination := c\<rparr>))"
    if "read_named name (Inr ro)" "marked o' t ts \<Longrightarrow> marked o' t (ts\<lparr>ts_contamination := c\<rparr>)" for ro r c
    using that assms by (fastforce simp: cautious_def add_events_def add_result_def marked_def wary_def read_named_def)
  have same: "add_events es (add_result x ts) = (add_events es (add_result x ts))\<lparr>ts_contamination := ts_contamination ts\<rparr>" for es x
    by (simp add: add_events_def add_result_def)
  have keep: "cautious policy plan st o' t ts (Inr (add_events (ro_extraEvents ro) (add_result x ts)))" if "read_named name (Inr ro)" for ro x
    by (subst same) (rule r [OF that], simp)
  have mark: "marked o' t ts \<Longrightarrow> marked o' t (ts\<lparr>ts_contamination := contaminateSession (ts_contamination ts) Retrieved UNTRUSTED\<rparr>)"
    by (auto simp: marked_def contaminateSession_def mergeTaint_def less_eq_Taint_def)
  show ?thesis unfolding read_step_def Let_def
    using mark by (intro yields_bind kept_bind [OF routed_name])
      (auto intro!: kept_ret yields_bind keep r split: option.split)
qed

lemma intent_cautious:
  "run (intent_step ao policy plan sid st iter tu kind p ts) w = (r, w') \<Longrightarrow> cautious policy plan st o' t ts r"
  by (auto simp: cautious_def dest: intent_wary)

lemma step_cautious:
  assumes "run (tool_step ao policy plan sid st iter tu ts) w = (r, w')"
  shows "cautious policy plan st o' t ts r"
proof -
  let ?ts = "add_events [EvToolUse (tu_id tu) (tu_name tu) (tu_input tu)] ts"
  have start: "cautious policy plan st o' t ?ts r \<Longrightarrow> cautious policy plan st o' t ts r"
    by (fastforce simp: cautious_def add_events_def marked_def)
  have blocked: "yields (out_of_plan_step ao sid tu ?ts) (cautious policy plan st o' t ?ts)"
    unfolding out_of_plan_step_def Let_def
    by (auto simp: cautious_def add_events_def add_result_def marked_def intro!: yields_bind kept_ret)
  show ?thesis
  proof (cases "ts_pauseAction ?ts = None")
    case False
    then have "r = Inr (add_result \<lparr>tr_toolUseId = tu_id tu, tr_content = ''Not processed: prior tool_use paused this turn.'',
        tr_isError = True\<rparr> ?ts)" using assms by (auto simp: tool_step_def Let_def retE_def)
    then have "cautious policy plan st o' t ?ts r" by (auto simp: cautious_def add_result_def marked_def)
    then show ?thesis by (rule start)
  next
    case True
    show ?thesis
    proof (cases "classifyIncomingToolUse (tu_name tu) (tu_input tu) plan")
      case (ClsRead name i)
      with True assms have run: "run (read_step ao policy plan sid st tu name i ?ts) w = (r, w')" by (simp add: tool_step_def Let_def)
      have "yields (read_step ao policy plan sid st tu name i ?ts) (cautious policy plan st o' t ?ts)"
        by (rule read_cautious [OF classify_cases(1) [OF ClsRead]])
      from yields_run [OF this, of w] run show ?thesis by (intro start) simp
    next
      case (ClsIntent kind p)
      with True assms have "run (intent_step ao policy plan sid st iter tu kind p ?ts) w = (r, w')" by (simp add: tool_step_def Let_def)
      then show ?thesis by (intro start intent_cautious)
    next
      case (ClsOutOfPlan name)
      with True assms have "run (out_of_plan_step ao sid tu ?ts) w = (r, w')" by (simp add: tool_step_def Let_def)
      with yields_run [OF blocked, of w] show ?thesis by (intro start) simp
    qed
  qed
qed

lemma cautious_trans:
  "cautious policy plan st o' t ts (Inr ts') \<Longrightarrow> cautious policy plan st o' t ts' r \<Longrightarrow> cautious policy plan st o' t ts r"
  by (fastforce simp: cautious_def)

lemma loop_cautious:
  "run (tool_loop ao policy plan sid st iter tus ts) w = (r, w') \<Longrightarrow> cautious policy plan st o' t ts r"
proof (induction tus arbitrary: ts w)
  case Nil
  then show ?case by (auto simp: retE_def cautious_def)
next
  case (Cons tu tus)
  obtain r1 w1 where one: "run (tool_step ao policy plan sid st iter tu ts) w = (r1, w1)" by fastforce
  note c = step_cautious [OF one, of o' t]
  show ?case
  proof (cases r1)
    case (Inl e)
    then show ?thesis using Cons.prems one by (auto simp: bindE_def)
  next
    case (Inr ts1)
    then have "run (tool_loop ao policy plan sid st iter tus ts1) w1 = (r, w')" using Cons.prems one by (simp add: bindE_def)
    from cautious_trans [OF c [unfolded Inr] Cons.IH [OF this]] show ?thesis .
  qed
qed


text \<open>A read that served data contaminates the turn.\<close>

lemma read_contaminates:
  assumes "run (read_step ao policy plan sid st tu name input ts) w = (Inr ts', w')" "ao_contaminationEnabled ao"
    and "ts_contamination ts' = None"
  shows "ts_contamination ts = None
    \<and> (\<exists>nonce ro w1 w2. run (routeReadThroughKernel (ao_seam ao) (ao_executor ao) (taint_policy policy) plan st sid (tu_id tu) name input nonce) w1
        = (Inr ro, w2) \<and> \<not> ro_served ro)"
proof -
  from assms(1) obtain nonce ro w1 w2 where
    ro: "run (routeReadThroughKernel (ao_seam ao) (ao_executor ao) (taint_policy policy) plan st sid (tu_id tu) name input nonce) w1 = (Inr ro, w2)"
    and rest: "run (if \<not> (ao_contaminationEnabled ao \<and> ro_served ro) then retP (add_events (ro_extraEvents ro) (add_result (ro_toolResult ro) ts))
     else bindP (case (contamination_store ao, contaminateSession (ts_contamination ts) Retrieved UNTRUSTED) of
           (Some store, Some flag) \<Rightarrow> quietly (ct_put store sid flag DEFAULT_CONTAMINATION_TTL)
         | _ \<Rightarrow> retP ()) (\<lambda>_.
       retP ((add_events (ro_extraEvents ro) (add_result (ro_toolResult ro) ts))\<lparr>ts_contamination :=
         contaminateSession (ts_contamination ts) Retrieved UNTRUSTED\<rparr>))) w2 = (Inr ts', w')"
    unfolding read_step_def Let_def run_bindP [of "resultP _"] run_resultP run_bindP [of "routeReadThroughKernel _ _ _ _ _ _ _ _ _ _"] run_Inr
    by blast
  have marks: "contaminateSession c Retrieved UNTRUSTED \<noteq> None" for c by (simp add: contaminateSession_def isContaminatingOrigin_def CONTAMINATING_ORIGINS_def split: option.split)
  have "\<not> ro_served ro"
  proof
    assume "ro_served ro"
    then have "ts_contamination ts' = contaminateSession (ts_contamination ts) Retrieved UNTRUSTED"
      using rest assms(2) by (auto simp: run_Inr retE_def)
    with marks [of "ts_contamination ts"] assms(3) show False by simp
  qed
  then show ?thesis using rest ro assms(3) by (auto simp: retE_def add_events_def add_result_def)
qed

text \<open>C5: what a turn has read taints everything it proposes afterwards. While the tool uses of a turn are processed, a
  contamination never goes away, keeps its origin and only loses trust; and every decision on an intent of the plan that is
  reached from then on is on an envelope with that origin and no more trust, so that it executes only if the
  taint policy admits the kind at this origin and level, or a state guard of the policy decided. The
  decisions on reads are on kinds that are not intents of the plan.\<close>

theorem contaminated_turn_restrained:
  assumes "run (tool_loop ao policy plan sid st iter tus ts) w = (Inr ts', w')" "ts_contamination ts = Some c"
  shows "(\<exists>c'. ts_contamination ts' = Some c' \<and> sc_origin c' = sc_origin c \<and> sc_taint c' \<le> sc_taint c)
    \<and> (\<exists>new. ts_events ts' = ts_events ts @ new
        \<and> (\<forall>d e. EvDecision d e \<in> set new \<longrightarrow> e_kind e \<in> set (allowedIntents plan) \<longrightarrow>
              e_origin e = sc_origin c \<and> e_taint e \<le> sc_taint c
              \<and> (executing d \<longrightarrow> list_all (abstains e st) (stateGuards policy) \<longrightarrow>
                    canProposeWithOrigin (e_taint e) (e_kind e) (sc_origin c) (taint_policy policy) = Inr True)))"
proof -
  have "marked (sc_origin c) (sc_taint c) ts" using assms(2) by (simp add: marked_def)
  with loop_cautious [OF assms(1), of "sc_origin c" "sc_taint c"] obtain new where
    "marked (sc_origin c) (sc_taint c) ts'" "ts_events ts' = ts_events ts @ new"
    "\<forall>ev \<in> set new. wary policy plan st (sc_origin c) (sc_taint c) ev" unfolding cautious_def by blast
  then show ?thesis by (fastforce simp: marked_def wary_def taint_ok_def)
qed

theorem contaminated_turn_restrained_witness:
  "\<exists>ts' w'. run (tool_loop site_agent sample_policy pay_plan ''s'' () 0 [\<lparr>tu_id = ''u'', tu_name = ''x'', tu_input = Null\<rparr>]
      \<lparr>ts_events = [], ts_history = (), ts_lastDecision = None, ts_contamination = Some \<lparr>sc_taint = UNTRUSTED, sc_origin = Retrieved\<rparr>,
       ts_toolResults = [], ts_pauseAction = None\<rparr>) site_start = (Inr ts', w')
    \<and> (\<exists>c'. ts_contamination ts' = Some c' \<and> sc_origin c' = Retrieved)"
proof -
  let ?ts = "\<lparr>ts_events = [], ts_history = (), ts_lastDecision = None, ts_contamination = Some \<lparr>sc_taint = UNTRUSTED, sc_origin = Retrieved\<rparr>,
       ts_toolResults = [], ts_pauseAction = None\<rparr>"
  have "ao_onCatch site_agent = None" by (simp add: site_agent_def)
  then obtain ts' w' where run: "run (tool_loop site_agent sample_policy pay_plan ''s'' () 0 [\<lparr>tu_id = ''u'', tu_name = ''x'', tu_input = Null\<rparr>] ?ts)
      site_start = (Inr ts', w')"
    by (simp add: tool_step_def Let_def add_events_def classifyIncomingToolUse_def matchesName_def intentKindToApiName_def
        out_of_plan_step_def bindE_def retE_def)
  from contaminated_turn_restrained [OF run, of "\<lparr>sc_taint = UNTRUSTED, sc_origin = Retrieved\<rparr>"] run show ?thesis by auto
qed

end
