(* ===== verification/Retry.thy ===== *)
theory Retry
  imports Node
begin

text \<open>
  Progress of the shell on one node: a call whose audit sink was down leaves nothing that could keep the same
  intent from being executed by a later call.
\<close>

definition recordable :: "(string \<Rightarrow> string) \<Rightarrow> IntentEnvelope \<Rightarrow> DecisionBasis list \<Rightarrow> bool" where
  "recordable sha e b \<longleftrightarrow> (\<forall>tr dur t. \<exists>r. buildAuditRecord sha [] (main_audit_input (node_deps :: (node, unit) Deps)
     \<lparr>dc_decision = Execute b, dc_trace = tr, dc_executed = e, dc_supersedes = None, dc_acquired = True\<rparr> dur None t) = Inr r)"

lemma main_input_state:
  "main_audit_input (node_deps :: (node, 's) Deps) = main_audit_input (node_deps :: (node, unit) Deps)"
  by (simp add: fun_eq_iff main_audit_input_def audit_input_def)

lemma recorded_audit:
  assumes "recordable sha e b"
  shows "\<exists>r. run (auditPath (node_module sha env) (node_deps :: (node, 's) Deps) e
      \<lparr>dc_decision = Execute b, dc_trace = tr, dc_executed = e, dc_supersedes = None, dc_acquired = True\<rparr> dur None) w = (Inr r, w)"
proof -
  obtain r where "buildAuditRecord sha [] (main_audit_input (node_deps :: (node, 's) Deps)
     \<lparr>dc_decision = Execute b, dc_trace = tr, dc_executed = e, dc_supersedes = None, dc_acquired = True\<rparr> dur None (node_nowIso w)) = Inr r"
    using assms unfolding recordable_def main_input_state [where 's = 's] by blast
  then show ?thesis
    by (auto simp: auditPath_def emitRecord_def bindE_def finallyE_def tryE_def applyMeta_def noopAuditSink_def
      node_module_def retE_def claims_ledger_def)
qed

lemma node_executes:
  fixes st :: 's
  assumes "e_intentHash e \<notin> node_held w" "kernel_decision sha env e st policy (n_kill w) = Execute b" "recordable sha e b"
  shows "\<exists>res w'. run (adjudicateAndAudit (node_module sha env) e st policy node_deps) w = (Inr res, w')
    \<and> rs_decision res = Execute b \<and> node_held w' = insert (e_intentHash e) (node_held w)"
proof -
  have "\<forall>p. \<exists>r. run (auditPath (node_module sha env) (node_deps :: (node, 's) Deps) e
      \<lparr>dc_decision = Execute b, dc_trace = fst p, dc_executed = e, dc_supersedes = None, dc_acquired = True\<rparr> (fst (snd p)) None) (snd (snd p))
      = (Inr r, snd (snd p))"
    by (intro allI recorded_audit assms(3))
  from choice [OF this] obtain g where g: "\<forall>p. run (auditPath (node_module sha env) (node_deps :: (node, 's) Deps) e
      \<lparr>dc_decision = Execute b, dc_trace = fst p, dc_executed = e, dc_supersedes = None, dc_acquired = True\<rparr> (fst (snd p)) None) (snd (snd p))
      = (Inr (g p), snd (snd p))" ..
  have audit: "run (auditPath (node_module sha env) (node_deps :: (node, 's) Deps) e
      \<lparr>dc_decision = Execute b, dc_trace = tr, dc_executed = e, dc_supersedes = None, dc_acquired = True\<rparr> dur None) v
      = (Inr (g (tr, dur, v)), v)" for tr dur v
    using spec [OF g, of "(tr, dur, v)"] by simp
  have "n_store w (e_intentHash e) = None" using assms(1) by (auto simp: node_held_def)
  then show ?thesis using assms(2)
    by (simp add: adjudicateAndAudit_def mainPath_def consult_ledger_def decide_def
       bindE_def node_ledger_def createMemoryLedger_def mem_checkLedger_def node_module_def telemetry_of_def
       noopTelemetry_def retE_def adjudicateWithTraceE_run confirm_def spend_budget_def
       execute_rewrite_def claim_def Let_def claims_ledger_def mem_recordExecution_def claim_entry_def
       emitDecisionEvents_def emitOutcome_def tryE_def audit [unfolded node_module_def noopTelemetry_def retE_def]
       node_held_def dom_def) auto
qed


text \<open>C15: a failed call does not stand in the way of a retry. On the node with the in-memory ledger and silent
  telemetry, take an intent whose hash the ledger did not hold and a call with it that throws, its audit sink not touching the ledger. If
  on the state the call left the kernel decides EXECUTE and the record of that decision can be rendered, then the retry
  with a working sink returns, executes, and holds the claim: the failed attempt is not mistaken for a replay.\<close>

theorem failed_call_retried:
  fixes st :: 's
  assumes "\<And>r. frame node_held (sink r)" "e_intentHash e \<notin> node_held w"
    and "run (adjudicateAndAudit (node_module sha env) e st policy (deps_with sink)) w = (Inl x, w')"
    and "kernel_decision sha env e st policy (n_kill w') = Execute b" "recordable sha e b"
  shows "\<exists>res w''. run (adjudicateAndAudit (node_module sha env) e st policy node_deps) w' = (Inr res, w'')
    \<and> rs_decision res = Execute b \<and> node_held w'' = insert (e_intentHash e) (node_held w)"
proof -
  have "node_held w' = node_held w" using assms(1,3) by (rule failed_call_releases)
  with node_executes [of e w', OF _ assms(4,5)] assms(2) show ?thesis by simp
qed

lemma adjudicate_kill_state: "snd (adjudicate sha env e st policy ks) = snd (getKillSwitchState env ks)"
  by (rule adjudicate_runs_pipeline [THEN conjunct2])

lemma sample_recordable: "recordable sample_sha sample_envelope (bases_before ph_default)"
  using sample_build unfolding recordable_def by blast

theorem failed_call_retried_witness:
  "\<exists>w' res w''. run (sample_call (deps_with (\<lambda>_. throwE sink_down))) node_start = (Inl sink_down, w')
     \<and> run (sample_call node_deps) w' = (Inr res, w'') \<and> rs_decision res = Execute (bases_before ph_default)"
proof -
  obtain w' where r: "run (sample_call (deps_with (\<lambda>_. throwE sink_down))) node_start = (Inl sink_down, w')"
    "n_kill w' = snd (getKillSwitchState Map.empty initialKillSwitch)"
    using sample_run_fails by (auto simp: adjudicate_kill_state)
  have "\<not> killed Map.empty (n_kill w')"
    by (simp add: r(2) getKillSwitchState_def ensureKillSwitchSeeded_def killSwitchEnvActive_def
        initialKillSwitch_def INERT_STATE_def Let_def)
  from kernel_decision_unkilled [OF this sample_not_killed]
  have k: "kernel_decision sample_sha Map.empty sample_envelope () sample_policy (n_kill w') = Execute (bases_before ph_default)"
    by (metis sample_default)
  have "e_intentHash sample_envelope \<notin> node_held node_start" by (simp add: node_held_def node_start_def)
  from failed_call_retried [OF _ this r(1) k sample_recordable] r show ?thesis by (auto simp: frame_def throwE_def)
qed

end
