(* ===== verification/Supersession.thy ===== *)
theory Supersession
  imports AuditRecords
begin

text \<open>
  Supersession chains (packages/audit/src/supersession-chain.ts): the report on the chains that the records of
  an audit log form by pointing at their predecessors. The code compares records by identity; a record of
  the model is its position in the log, so a record object listed twice counts as two. Of equal keys
  the comparators say that the first is greater whichever comes first; sorting keeps such elements in their order here.
\<close>

subsection \<open>Records and links\<close>

record SupersessionChainNode =
  sn_intentHash :: string
  sn_decisionKind :: DecisionKind
  sn_at :: string
  sn_reason :: "SupersessionReason option"
  sn_predecessorIntentHash :: "string option"
  sn_auditHash :: "string option"
  sn_prevAuditHash :: "string option"

record SupersessionChain =
  sc_head :: SupersessionChainNode
  sc_tail :: "SupersessionChainNode list"
  sc_reasonCounts :: "SupersessionReason \<Rightarrow> nat"
  sc_length :: nat

record ChainBreak =
  cb_intentHash :: string
  cb_prevAuditHash :: string
  cb_predecessorAuditHash :: "string option"
  cb_predecessorIntentHash :: string

record SupersessionChainReport =
  rp_schemaVersion :: int
  rp_chains :: "SupersessionChain list"
  rp_singletons :: "SupersessionChainNode list"
  rp_danglingReferences :: "(string \<times> string) list"
  rp_cycles :: "SupersessionChain list"
  rp_forks :: "(string \<times> string list) list"
  rp_aggregateReasonCounts :: "SupersessionReason \<Rightarrow> nat"
  rp_chainBreaks :: "ChainBreak list"

definition nodeOf :: "AuditRecord \<Rightarrow> SupersessionChainNode" where
  "nodeOf r = \<lparr>sn_intentHash = ar_intentHash r, sn_decisionKind = decision_kind (ar_decision r), sn_at = ar_at r,
     sn_reason = map_option ss_reason (ar_supersedes r),
     sn_predecessorIntentHash = map_option ss_predecessorIntentHash (ar_supersedes r),
     sn_auditHash = ar_auditHash r, sn_prevAuditHash = ar_prevAuditHash r\<rparr>"

text \<open>The positions of the records with a hash, in the order of the log.\<close>

definition bucket :: "AuditRecord list \<Rightarrow> string \<Rightarrow> nat list" where
  "bucket rs h = filter (\<lambda>i. ar_intentHash (rs ! i) = h) [0..<length rs]"

definition findRecord :: "AuditRecord list \<Rightarrow> string \<Rightarrow> string option \<Rightarrow> nat option" where
  "findRecord rs h predecessorAt = (case bucket rs h of
      [] \<Rightarrow> None
    | i # is \<Rightarrow> if is = [] then Some i else (case predecessorAt of
        None \<Rightarrow> Some i
      | Some t \<Rightarrow> (case List.find (\<lambda>j. ar_at (rs ! j) = t) (i # is) of Some j \<Rightarrow> Some j | None \<Rightarrow> Some i)))"

definition predecessor :: "AuditRecord list \<Rightarrow> nat \<Rightarrow> nat option" where
  "predecessor rs i = (case ar_supersedes (rs ! i) of None \<Rightarrow> None
     | Some s \<Rightarrow> findRecord rs (ss_predecessorIntentHash s) (Some (ss_predecessorAt s)))"

lemma bucket_set: "set (bucket rs h) = {i. i < length rs \<and> ar_intentHash (rs ! i) = h}"
  by (auto simp: bucket_def)

lemma findRecord_Some:
  assumes "findRecord rs h t = Some j"
  shows "j < length rs \<and> ar_intentHash (rs ! j) = h"
proof -
  have "j \<in> set (bucket rs h)"
    using assms by (auto simp: findRecord_def find_Some_iff split: list.splits option.splits if_splits)
  then show ?thesis by (simp add: bucket_set)
qed

lemma findRecord_None: "findRecord rs h t = None \<longleftrightarrow> bucket rs h = []"
  by (auto simp: findRecord_def split: list.splits option.splits)

lemma predecessor_bound: "predecessor rs i = Some p \<Longrightarrow> p < length rs"
  by (auto simp: predecessor_def findRecord_Some split: option.splits)

subsection \<open>The walk back\<close>

definition link_reason :: "AuditRecord list \<Rightarrow> nat \<Rightarrow> SupersessionReason" where
  "link_reason rs i = (case ar_supersedes (rs ! i) of Some s \<Rightarrow> ss_reason s | None \<Rightarrow> replay)"

text \<open>
  From a record to its predecessors until one is missing or was visited: whether the walk closed a cycle,
  the records it reached, and the reasons it counted.
\<close>

function back_walk :: "AuditRecord list \<Rightarrow> nat list \<Rightarrow> nat \<Rightarrow> bool \<times> nat list \<times> SupersessionReason list" where
  "back_walk rs visited cursor = (case predecessor rs cursor of
      None \<Rightarrow> (False, [], [])
    | Some prev \<Rightarrow> if prev \<in> set visited then (True, [], [])
        else (case back_walk rs (prev # visited) prev of (closed, tail, reasons) \<Rightarrow>
          (closed, prev # tail, link_reason rs cursor # reasons)))"
  by pat_completeness auto
termination
proof (relation "measure (\<lambda>(rs, visited, cursor). card ({..<length rs} - set visited))")
  fix rs :: "AuditRecord list" and visited cursor prev
  assume "predecessor rs cursor = Some prev" "prev \<notin> set visited"
  then have "{..<length rs} - set (prev # visited) \<subset> {..<length rs} - set visited"
    using predecessor_bound by auto
  then show "((rs, prev # visited, prev), (rs, visited, cursor))
      \<in> measure (\<lambda>(rs, visited, cursor). card ({..<length rs} - set visited))"
    by (simp add: psubset_card_mono)
qed simp

declare back_walk.simps [simp del]

definition chain_of :: "AuditRecord list \<Rightarrow> nat \<Rightarrow> nat list \<Rightarrow> SupersessionReason list \<Rightarrow> SupersessionChain" where
  "chain_of rs head tail reasons = \<lparr>sc_head = nodeOf (rs ! head), sc_tail = map (\<lambda>i. nodeOf (rs ! i)) tail,
     sc_reasonCounts = count_list reasons, sc_length = 1 + length tail\<rparr>"

subsection \<open>The report\<close>

definition dangling_references :: "AuditRecord list \<Rightarrow> (string \<times> string) list" where
  "dangling_references rs = concat (map (\<lambda>r. case ar_supersedes r of None \<Rightarrow> []
     | Some s \<Rightarrow> if bucket rs (ss_predecessorIntentHash s) = []
         then [(ar_intentHash r, ss_predecessorIntentHash s)] else []) rs)"

text \<open>The entries of the multimap of successors, in the order of their records.\<close>

definition successor_entries :: "AuditRecord list \<Rightarrow> (string \<times> string) list" where
  "successor_entries rs = concat (map (\<lambda>r. case ar_supersedes r of None \<Rightarrow> []
     | Some s \<Rightarrow> if bucket rs (ss_predecessorIntentHash s) = [] then []
         else [(ss_predecessorIntentHash s, ar_intentHash r)]) rs)"

definition successors_of :: "AuditRecord list \<Rightarrow> string \<Rightarrow> string list" where
  "successors_of rs h = map snd (filter (\<lambda>e. fst e = h) (successor_entries rs))"

definition fork_list :: "AuditRecord list \<Rightarrow> (string \<times> string list) list" where
  "fork_list rs = map (\<lambda>h. (h, sort (successors_of rs h)))
     (filter (\<lambda>h. length (successors_of rs h) > 1) (rev (remdups (rev (map fst (successor_entries rs))))))"

definition superseded :: "AuditRecord list \<Rightarrow> nat \<Rightarrow> bool" where
  "superseded rs p \<longleftrightarrow> (\<exists>i \<in> {0..<length rs}. i \<noteq> p \<and> predecessor rs i = Some p)"

definition head_list :: "AuditRecord list \<Rightarrow> nat list" where
  "head_list rs = filter (\<lambda>i. \<not> superseded rs i) [0..<length rs]"

text \<open>What the first pass makes of its heads: chains, cycles, singletons, and the reasons counted.\<close>

record Pass =
  ps_chains :: "SupersessionChain list"
  ps_cycles :: "SupersessionChain list"
  ps_singletons :: "SupersessionChainNode list"
  ps_reasons :: "SupersessionReason list"

fun first_pass :: "AuditRecord list \<Rightarrow> nat list \<Rightarrow> Pass \<Rightarrow> Pass" where
  "first_pass rs [] ps = ps"
| "first_pass rs (head # heads) ps =
     (case back_walk rs [head] head of (closed, tail, reasons) \<Rightarrow>
       let ps' = ps\<lparr>ps_reasons := ps_reasons ps @ reasons\<rparr>;
           chain = chain_of rs head tail reasons
       in first_pass rs heads
         (if closed then ps'\<lparr>ps_cycles := ps_cycles ps @ [chain]\<rparr>
          else if tail = [] then
            (if ar_supersedes (rs ! head) = None then ps'\<lparr>ps_singletons := ps_singletons ps @ [nodeOf (rs ! head)]\<rparr> else ps')
          else ps'\<lparr>ps_chains := ps_chains ps @ [chain]\<rparr>))"

definition chain_hashes :: "SupersessionChain \<Rightarrow> string set" where
  "chain_hashes c = insert (sn_intentHash (sc_head c)) (sn_intentHash ` set (sc_tail c))"

definition accounted_for :: "Pass \<Rightarrow> (string \<times> string) list \<Rightarrow> string set" where
  "accounted_for ps dangling = \<Union> (chain_hashes ` set (ps_chains ps)) \<union> \<Union> (chain_hashes ` set (ps_cycles ps))
     \<union> sn_intentHash ` set (ps_singletons ps) \<union> fst ` set dangling"

fun second_pass :: "AuditRecord list \<Rightarrow> nat list \<Rightarrow> string set \<Rightarrow> Pass \<Rightarrow> Pass" where
  "second_pass rs [] seen ps = ps"
| "second_pass rs (i # is) seen ps =
     (if ar_intentHash (rs ! i) \<in> seen then second_pass rs is seen ps
      else (case back_walk rs [i] i of (closed, tail, reasons) \<Rightarrow>
        let chain = chain_of rs i tail reasons
        in second_pass rs is (seen \<union> chain_hashes chain)
             (ps\<lparr>ps_cycles := ps_cycles ps @ [chain], ps_reasons := ps_reasons ps @ reasons\<rparr>)))"

definition chain_breaks :: "AuditRecord list \<Rightarrow> ChainBreak list" where
  "chain_breaks rs = concat (map (\<lambda>i. case (ar_prevAuditHash (rs ! i), ar_supersedes (rs ! i), predecessor rs i) of
      (Some h, Some s, Some p) \<Rightarrow> if p \<noteq> i \<and> ar_auditHash (rs ! p) \<noteq> Some h
        then [\<lparr>cb_intentHash = ar_intentHash (rs ! i), cb_prevAuditHash = h,
          cb_predecessorAuditHash = ar_auditHash (rs ! p), cb_predecessorIntentHash = ss_predecessorIntentHash s\<rparr>] else []
    | _ \<Rightarrow> []) [0..<length rs])"

definition both_passes :: "AuditRecord list \<Rightarrow> Pass" where
  "both_passes rs =
     (let ps = first_pass rs (head_list rs) \<lparr>ps_chains = [], ps_cycles = [], ps_singletons = [], ps_reasons = []\<rparr>
      in second_pass rs [0..<length rs] (accounted_for ps (dangling_references rs)) ps)"

definition buildSupersessionChains :: "AuditRecord list \<Rightarrow> SupersessionChainReport" where
  "buildSupersessionChains rs =
     (let ps = both_passes rs
      in \<lparr>rp_schemaVersion = 1, rp_chains = sort_key (\<lambda>c. sn_intentHash (sc_head c)) (ps_chains ps),
          rp_singletons = sort_key sn_intentHash (ps_singletons ps),
          rp_danglingReferences = sort_key fst (dangling_references rs),
          rp_cycles = sort_key (\<lambda>c. sn_intentHash (sc_head c)) (ps_cycles ps),
          rp_forks = sort_key fst (fork_list rs),
          rp_aggregateReasonCounts = count_list (ps_reasons ps),
          rp_chainBreaks = sort_key cb_intentHash (chain_breaks rs)\<rparr>)"


subsection \<open>The walk ends and follows the links\<close>

text \<open>A sequence of records in which every next one is the predecessor of the one before.\<close>

fun linked :: "AuditRecord list \<Rightarrow> nat list \<Rightarrow> bool" where
  "linked rs (i # j # is) \<longleftrightarrow> predecessor rs i = Some j \<and> linked rs (j # is)"
| "linked rs _ \<longleftrightarrow> True"

lemma back_walk_links:
  assumes "back_walk rs visited cursor = (closed, tail, reasons)" "cursor \<in> set visited"
  shows "linked rs (cursor # tail) \<and> distinct tail \<and> set tail \<inter> set visited = {} \<and> set tail \<subseteq> {..<length rs}
    \<and> length reasons = length tail
    \<and> (if closed then \<exists>p \<in> set visited \<union> set tail. predecessor rs (last (cursor # tail)) = Some p
       else predecessor rs (last (cursor # tail)) = None)"
  using assms
proof (induction rs visited cursor arbitrary: closed tail reasons rule: back_walk.induct)
  case (1 rs visited cursor)
  show ?case
  proof (cases "predecessor rs cursor")
    case None
    with 1 show ?thesis by (simp add: back_walk.simps)
  next
    case (Some prev)
    show ?thesis
    proof (cases "prev \<in> set visited")
      case True
      with Some 1 show ?thesis by (auto simp: back_walk.simps)
    next
      case False
      obtain c t r where rec: "back_walk rs (prev # visited) prev = (c, t, r)" by (metis surj_pair)
      then have eq: "closed = c" "tail = prev # t" "reasons = link_reason rs cursor # r"
        using 1(2) Some False by (simp_all add: back_walk.simps [of rs visited cursor])
      have "linked rs (prev # t) \<and> distinct t \<and> set t \<inter> set (prev # visited) = {} \<and> set t \<subseteq> {..<length rs}
          \<and> length r = length t
          \<and> (if c then \<exists>p \<in> set (prev # visited) \<union> set t. predecessor rs (last (prev # t)) = Some p
             else predecessor rs (last (prev # t)) = None)"
        by (rule 1(1) [OF Some False rec]) simp
      then show ?thesis using Some False predecessor_bound [OF Some] by (auto simp: eq split: if_splits)
    qed
  qed
qed

text \<open>C40: following predecessors ends. Whatever records a log holds, cyclic or forged links included, the walk back from a
  record visits no record twice and fewer than the log holds, each the predecessor the link before it
  resolves to; and it ends either where no predecessor is found or by closing a cycle on a record it
  has visited.\<close>

theorem back_walk_ends:
  assumes "i < length rs" "back_walk rs [i] i = (closed, tail, reasons)"
  shows "distinct (i # tail) \<and> length tail < length rs \<and> linked rs (i # tail) \<and> length reasons = length tail
    \<and> (case predecessor rs (last (i # tail)) of None \<Rightarrow> \<not> closed | Some p \<Rightarrow> closed \<and> p \<in> set (i # tail))"
proof -
  note w = back_walk_links [OF assms(2)]
  have d: "distinct (i # tail)" "set (i # tail) \<subseteq> {..<length rs}" using w assms(1) by auto
  then have "card (set (i # tail)) \<le> card {..<length rs}" by (intro card_mono) auto
  with d(1) have "length (i # tail) \<le> length rs" by (simp only: distinct_card card_lessThan)
  with w d show ?thesis by (auto split: if_splits)
qed

subsection \<open>Nothing is lost\<close>

definition reported_hashes :: "SupersessionChainReport \<Rightarrow> string set" where
  "reported_hashes rep = \<Union> (chain_hashes ` set (rp_chains rep)) \<union> \<Union> (chain_hashes ` set (rp_cycles rep))
     \<union> sn_intentHash ` set (rp_singletons rep) \<union> fst ` set (rp_danglingReferences rep)"

lemma second_pass_complete:
  assumes "seen \<subseteq> accounted_for ps d"
  shows "(\<forall>i \<in> set is. ar_intentHash (rs ! i) \<in> accounted_for (second_pass rs is seen ps) d)
    \<and> accounted_for ps d \<subseteq> accounted_for (second_pass rs is seen ps) d"
  using assms
proof (induction "is" arbitrary: seen ps)
  case (Cons i "is")
  show ?case
  proof (cases "ar_intentHash (rs ! i) \<in> seen")
    case True
    then show ?thesis using Cons.IH [OF Cons.prems] Cons.prems by auto
  next
    case False
    obtain c t r where w: "back_walk rs [i] i = (c, t, r)" by (metis surj_pair)
    let ?c = "chain_of rs i t r"
    let ?ps = "ps\<lparr>ps_cycles := ps_cycles ps @ [?c], ps_reasons := ps_reasons ps @ r\<rparr>"
    have acc: "accounted_for ?ps d = accounted_for ps d \<union> chain_hashes ?c" by (auto simp: accounted_for_def)
    have "seen \<union> chain_hashes ?c \<subseteq> accounted_for ?ps d" using Cons.prems acc by auto
    from Cons.IH [OF this] show ?thesis
      using False w acc by (auto simp: Let_def chain_hashes_def chain_of_def nodeOf_def)
  qed
qed simp

text \<open>Every record of the log is in the report: its hash is that of a node of a chain, of a node of a cycle, of a
  singleton or of a dangling reference, however the records point at each other.\<close>

lemma report_complete:
  "\<forall>r \<in> set rs. ar_intentHash r \<in> reported_hashes (buildSupersessionChains rs)"
proof
  fix r
  assume "r \<in> set rs"
  then obtain i where i: "i < length rs" "rs ! i = r" by (auto simp: in_set_conv_nth)
  let ?d = "dangling_references rs"
  have "\<forall>i \<in> set [0..<length rs]. ar_intentHash (rs ! i) \<in> accounted_for (both_passes rs) ?d"
    unfolding both_passes_def Let_def by (rule second_pass_complete [THEN conjunct1]) simp
  then have "ar_intentHash r \<in> accounted_for (both_passes rs) ?d" using i by auto
  then show "ar_intentHash r \<in> reported_hashes (buildSupersessionChains rs)"
    by (simp add: reported_hashes_def accounted_for_def buildSupersessionChains_def Let_def)
qed

subsection \<open>One history, one chain\<close>

lemma linked_nth: "linked rs is \<Longrightarrow> Suc k < length is \<Longrightarrow> predecessor rs (is ! k) = Some (is ! Suc k)"
proof (induction rs "is" arbitrary: k rule: linked.induct)
  case (1 rs i j "is")
  then show ?case by (cases k) auto
qed auto

lemma back_walk_line:
  assumes "linked rs (cursor # is)" "distinct (cursor # is)" "set is \<inter> set visited = {}"
    and "predecessor rs (last (cursor # is)) = None"
  shows "\<exists>reasons. back_walk rs visited cursor = (False, is, reasons)"
  using assms
proof (induction "is" arbitrary: cursor visited)
  case Nil
  then show ?case by (simp add: back_walk.simps)
next
  case (Cons j "is")
  then have "\<exists>reasons. back_walk rs (j # visited) j = (False, is, reasons)" by (intro Cons.IH) auto
  with Cons.prems show ?case by (auto simp: back_walk.simps [of rs visited cursor])
qed

lemma distinct_cons_nth: "distinct xs \<Longrightarrow> Suc k < length xs \<Longrightarrow> xs ! Suc k \<noteq> hd xs"
  by (cases xs) auto

lemma line_superseded:
  assumes "linked rs is" "distinct is" "set is = {..<length rs}" "predecessor rs (last is) = None" "p \<in> set is"
  shows "superseded rs p \<longleftrightarrow> p \<noteq> hd is"
proof
  assume "superseded rs p"
  then obtain i where i: "i \<in> set is" "predecessor rs i = Some p" using assms(3) by (auto simp: superseded_def)
  then obtain k where k: "k < length is" "i = is ! k" by (auto simp: in_set_conv_nth)
  have "Suc k < length is"
  proof (rule ccontr)
    assume "\<not> Suc k < length is"
    with k have "i = last is" by (cases "is" rule: rev_cases) (auto simp: nth_append)
    with i assms(4) show False by simp
  qed
  then show "p \<noteq> hd is" using linked_nth [OF assms(1)] distinct_cons_nth [OF assms(2)] i k by auto
next
  assume "p \<noteq> hd is"
  from assms(5) obtain k where k: "k < length is" "p = is ! k" by (auto simp: in_set_conv_nth)
  with \<open>p \<noteq> hd is\<close> obtain j where j: "k = Suc j" by (cases k; cases "is") auto
  then have "predecessor rs (is ! j) = Some p" "is ! j \<noteq> p" "is ! j < length rs"
    using k linked_nth [OF assms(1), of j] assms(2,3) nth_mem [of j "is"] by (auto simp: nth_eq_iff_index_eq)
  then show "superseded rs p" by (auto simp: superseded_def)
qed

lemma second_pass_seen: "(\<And>i. i \<in> set is \<Longrightarrow> ar_intentHash (rs ! i) \<in> seen) \<Longrightarrow> second_pass rs is seen ps = ps"
  by (induction "is") auto

lemma filter_eq_upt: "h < n \<Longrightarrow> filter (\<lambda>i. i = h) [0..<n] = [h]"
  by (induction n) (auto simp: less_Suc_eq filter_empty_conv)

text \<open>A linear history is one chain. When the records of a log, taken from the newest to the oldest, each resolve to the
  next as their predecessor and the oldest to none, the report has exactly one chain, headed by the newest and
  followed by the others in that order, with no singleton and no cycle, in whatever order the log lists them.\<close>

lemma linear_history_one_chain:
  assumes "distinct is" "set is = {..<length rs}" "1 < length is" "linked rs is" "predecessor rs (last is) = None"
  shows "\<exists>reasons. rp_chains (buildSupersessionChains rs) = [chain_of rs (hd is) (tl is) reasons]
    \<and> rp_singletons (buildSupersessionChains rs) = [] \<and> rp_cycles (buildSupersessionChains rs) = []"
proof -
  from assms(3) obtain h t where ht: "is = h # t" "t \<noteq> []" by (cases "is"; cases "tl is") auto
  have "head_list rs = filter (\<lambda>i. i = h) [0..<length rs]"
    unfolding head_list_def using line_superseded [OF assms(4,1,2,5)] ht assms(2)
    by (intro filter_cong) auto
  moreover have "h < length rs" using assms(2) ht by auto
  ultimately have heads: "head_list rs = [h]" by (simp add: filter_eq_upt)
  obtain reasons where w: "back_walk rs [h] h = (False, t, reasons)"
    using back_walk_line [of rs h t "[h]"] assms ht by auto
  have sub: "ar_intentHash (rs ! i) \<in> chain_hashes (chain_of rs h t reasons)" if "i \<in> set [0..<length rs]" for i
    using that assms(2) ht by (auto simp: chain_hashes_def chain_of_def nodeOf_def image_image)
  have "both_passes rs = \<lparr>ps_chains = [chain_of rs h t reasons], ps_cycles = [], ps_singletons = [], ps_reasons = reasons\<rparr>"
    using ht by (simp add: both_passes_def heads w Let_def accounted_for_def) (intro second_pass_seen, use sub in auto)
  then show ?thesis using ht by (auto simp: buildSupersessionChains_def Let_def)
qed

subsection \<open>Sample logs\<close>

text \<open>A record of an intent, at a time, superseding another.\<close>

definition sample_entry :: "string \<Rightarrow> string \<Rightarrow> (string \<times> string) option \<Rightarrow> AuditRecord" where
  "sample_entry h t s = \<lparr>ar_version = 1, ar_intentHash = h, ar_envelope = sample_envelope, ar_decision = Execute [],
     ar_decision_basis = [], ar_resourceVersion = None, ar_at = t, ar_durationMs = 0, ar_plan = None,
     ar_supersedes = map_option (\<lambda>(ph, pt). \<lparr>ss_predecessorIntentHash = ph, ss_predecessorAt = pt, ss_reason = replay,
       ss_token = None, ss_binding = None\<rparr>) s,
     ar_kernelIdentity = None, ar_policyVersion = None, ar_kernelVersion = None, ar_authoritySnapshot = None,
     ar_aggregateSnapshot = None, ar_auditHash = None, ar_signature = None, ar_prevAuditHash = None, ar_metadata = None\<rparr>"

definition sample_log :: "AuditRecord list" where
  "sample_log = [sample_entry ''a'' ''1'' None, sample_entry ''b'' ''2'' (Some (''a'', ''1''))]"

lemma sample_log_links: "predecessor sample_log 0 = None" "predecessor sample_log 1 = Some 0"
  by (simp_all add: predecessor_def findRecord_def bucket_def sample_log_def sample_entry_def upt_rec)

lemma sample_log_walk: "back_walk sample_log [1] 1 = (False, [0], [replay])"
  using sample_log_links
  by (simp add: back_walk.simps) (simp add: link_reason_def sample_log_def sample_entry_def)

theorem back_walk_ends_witness: "distinct [1::nat, 0] \<and> linked sample_log [1, 0] \<and> predecessor sample_log (last [1, 0]) = None"
  using back_walk_ends [of 1 sample_log, OF _ sample_log_walk] by (simp add: sample_log_def split: option.splits)

lemma report_complete_witness: "''b'' \<in> reported_hashes (buildSupersessionChains sample_log)"
  using report_complete [of sample_log] by (simp add: sample_log_def sample_entry_def)

lemma linear_history_one_chain_witness:
  "\<exists>reasons. rp_chains (buildSupersessionChains sample_log) = [chain_of sample_log 1 [0] reasons]"
proof -
  have "linked sample_log [1, 0]" "predecessor sample_log (last [1, 0]) = None" using sample_log_links by simp_all
  moreover have "set [1, 0] = {..<length sample_log}" by (auto simp: sample_log_def)
  ultimately show ?thesis using linear_history_one_chain [of "[1, 0]" sample_log] by simp
qed

text \<open>
  Two records of one intent superseding each other, beside a third record of the same intent that stands
  alone: the report has the third as a singleton and no cycle, since what is accounted for is a set of hashes.
\<close>

definition hidden_cycle :: "AuditRecord list" where
  "hidden_cycle = [sample_entry ''a'' ''1'' (Some (''a'', ''2'')), sample_entry ''a'' ''2'' (Some (''a'', ''1'')),
     sample_entry ''a'' ''3'' None]"

lemma hidden_cycle_not_reported:
  "predecessor hidden_cycle 0 = Some 1 \<and> predecessor hidden_cycle 1 = Some 0
    \<and> rp_cycles (buildSupersessionChains hidden_cycle) = [] \<and> rp_chains (buildSupersessionChains hidden_cycle) = []
    \<and> rp_singletons (buildSupersessionChains hidden_cycle) = [nodeOf (hidden_cycle ! 2)]"
proof -
  have b: "bucket hidden_cycle ''a'' = [0, 1, 2]" by (simp add: bucket_def hidden_cycle_def sample_entry_def upt_rec)
  have e: "hidden_cycle ! 0 = sample_entry ''a'' ''1'' (Some (''a'', ''2''))"
      "hidden_cycle ! Suc 0 = sample_entry ''a'' ''2'' (Some (''a'', ''1''))" "hidden_cycle ! 1 = sample_entry ''a'' ''2'' (Some (''a'', ''1''))"
      "hidden_cycle ! 2 = sample_entry ''a'' ''3'' None"
    by (simp_all add: hidden_cycle_def)
  have ss: "ar_supersedes (sample_entry h t (Some (p, q))) = Some \<lparr>ss_predecessorIntentHash = p, ss_predecessorAt = q,
      ss_reason = replay, ss_token = None, ss_binding = None\<rparr>"
      "ar_supersedes (sample_entry h t None) = None" for h t p q
    by (simp_all add: sample_entry_def)
  have at: "ar_at (sample_entry h t s) = t" for h t s by (simp add: sample_entry_def)
  have p: "predecessor hidden_cycle 0 = Some 1" "predecessor hidden_cycle 1 = Some 0" "predecessor hidden_cycle 2 = None"
    unfolding predecessor_def e ss by (simp_all add: findRecord_def b e at)
  have l: "length hidden_cycle = 3" by (simp add: hidden_cycle_def)
  have u: "[0..<3::nat] = [0, 1, 2]" by (simp add: upt_rec)
  have s: "{0..<3::nat} = {0, 1, 2}" by auto
  have heads: "head_list hidden_cycle = [2]" using p by (simp add: head_list_def superseded_def l u s)
  have h: "ar_intentHash (hidden_cycle ! i) = ''a''" if "i \<in> {0, 1, 2}" for i
    using that by (auto simp: hidden_cycle_def sample_entry_def)
  have n: "ar_supersedes (hidden_cycle ! 2) = None" by (simp add: hidden_cycle_def sample_entry_def)
  have d: "dangling_references hidden_cycle = []" by (simp add: dangling_references_def hidden_cycle_def sample_entry_def bucket_def upt_rec)
  have "both_passes hidden_cycle = \<lparr>ps_chains = [], ps_cycles = [], ps_singletons = [nodeOf (hidden_cycle ! 2)], ps_reasons = []\<rparr>"
    using p n h by (simp add: both_passes_def heads Let_def back_walk.simps d accounted_for_def l u nodeOf_def)
  then show ?thesis using p by (simp add: buildSupersessionChains_def Let_def)
qed

end
