(* ===== verification/Keeping.thy ===== *)
theory Keeping
  imports Process
begin

text \<open>
  Invariants of the world under interleaved processes: every atomic step of a process keeps the
  invariant, and what the process has learned at its earlier steps may be used at the later ones.
\<close>

primrec keeps :: "('w \<Rightarrow> bool) \<Rightarrow> ('w, 'a) proc \<Rightarrow> ('a result \<Rightarrow> bool) \<Rightarrow> bool" where
  "keeps I (Done r) = (\<lambda>Q. Q r)"
| "keeps I (Step g) = (\<lambda>Q. \<forall>w. I w \<longrightarrow> (case map_prod (keeps I) id (g w) of (s, w') \<Rightarrow> I w' \<and> s Q))"

lemma keeps_Step [simp]:
  "keeps I (Step g) Q \<longleftrightarrow> (\<forall>w. I w \<longrightarrow> I (snd (g w)) \<and> keeps I (fst (g w)) Q)"
  by (simp add: case_prod_unfold)

declare keeps.simps(2) [simp del]

named_theorems keeps_intros \<open>introduction rules for processes that keep an invariant\<close>

lemma keeps_mono: "keeps I p Q \<Longrightarrow> (\<And>r. Q r \<Longrightarrow> Q' r) \<Longrightarrow> keeps I p Q'"
  by (induction p rule: proc_step_induct) auto

lemma keeps_bind:
  "keeps I p (\<lambda>r. case r of Inl e \<Rightarrow> Q (Inl e) | Inr x \<Rightarrow> keeps I (f x) Q) \<Longrightarrow> keeps I (bindP p f) Q"
proof (induction p rule: proc_step_induct)
  case (Done r)
  then show ?case by (cases r) simp_all
qed simp

lemma keeps_try:
  "keeps I p (\<lambda>r. case r of Inl e \<Rightarrow> keeps I (h e) Q | Inr x \<Rightarrow> Q (Inr x)) \<Longrightarrow> keeps I (tryP p h) Q"
proof (induction p rule: proc_step_induct)
  case (Done r)
  then show ?case by (cases r) simp_all
qed simp

lemma keeps_eff: "(\<And>w. I w \<Longrightarrow> I (snd (m w)) \<and> Q (fst (m w))) \<Longrightarrow> keeps I (effP m) Q"
  by (simp add: effP_def case_prod_unfold)

text \<open>Without a demand on the result.\<close>

abbreviation keeping :: "('w \<Rightarrow> bool) \<Rightarrow> ('w, 'a) proc \<Rightarrow> bool" where
  "keeping I p \<equiv> keeps I p (\<lambda>_. True)"

lemma keeping_basic [keeps_intros]: "keeping I (retP x)" "keeping I (throwP e)" "keeping I (resultP r)"
  by (simp_all add: retP_def throwP_def resultP_def)

lemma keeping_eff [keeps_intros]: "(\<And>w. I w \<Longrightarrow> I (snd (m w))) \<Longrightarrow> keeping I (effP m)"
  by (rule keeps_eff) simp

lemma keeping_bind [keeps_intros]: "keeping I p \<Longrightarrow> (\<And>x. keeping I (f x)) \<Longrightarrow> keeping I (bindP p f)"
  by (intro keeps_bind, erule keeps_mono) (simp split: sum.split)

lemma keeping_try [keeps_intros]: "keeping I p \<Longrightarrow> (\<And>e. keeping I (h e)) \<Longrightarrow> keeping I (tryP p h)"
  by (intro keeps_try, erule keeps_mono) (simp split: sum.split)

lemma keeping_bind_result: "keeps I p Q \<Longrightarrow> (\<And>x. Q (Inr x) \<Longrightarrow> keeping I (f x)) \<Longrightarrow> keeping I (bindP p f)"
  by (intro keeps_bind, erule keeps_mono) (auto split: sum.split)

subsection \<open>Processes with bounded steps\<close>

primrec steps_within :: "('w \<Rightarrow> 'w \<Rightarrow> bool) \<Rightarrow> ('w, 'a) proc \<Rightarrow> bool" where
  "steps_within R (Done r) = True"
| "steps_within R (Step g) = (\<forall>w. case map_prod (steps_within R) id (g w) of (s, w') \<Rightarrow> R w w' \<and> s)"

lemma steps_within_Step [simp]:
  "steps_within R (Step g) \<longleftrightarrow> (\<forall>w. R w (snd (g w)) \<and> steps_within R (fst (g w)))"
  by (simp add: case_prod_unfold)

declare steps_within.simps(2) [simp del]

lemma keeping_within: "steps_within R p \<Longrightarrow> (\<And>w w'. I w \<Longrightarrow> R w w' \<Longrightarrow> I w') \<Longrightarrow> keeping I p"
  by (induction p rule: proc_step_induct) auto

subsection \<open>All processes together\<close>

lemma keeping_reachable:
  assumes "reachable calls env_step w0 s" "I w0" "\<And>p. p \<in> calls \<Longrightarrow> keeping I p"
    "\<And>w w'. I w \<Longrightarrow> env_step w w' \<Longrightarrow> I w'"
  shows "I (fst s) \<and> (\<forall>i p. snd s i = Some p \<longrightarrow> keeping I p)"
  using assms(1)
proof (induction rule: reachable_induct)
  case init
  show ?case using assms(2) by simp
next
  case (step s s')
  from step.hyps(2) show ?case
  proof cases
    case (call_step ts i g w k w')
    with step.IH have "keeping I (Step g)" "I w" by (auto simp del: keeps_Step)
    with call_step(4) have "I w'" "keeping I k" by auto
    with step.IH call_step(1,2) show ?thesis by auto
  next
    case (call_start ts i p w)
    with step.IH assms(3) show ?thesis by auto
  next
    case (environment w w' ts)
    with step.IH assms(4) show ?thesis by auto
  qed
qed

end
