(* ===== verification/Approval.thy ===== *)
theory Approval
  imports Agent Keeping
begin

text \<open>
  Human approvals (packages/approval-engine/src: engine.ts, registry.ts, governance.ts, the interface of
  channel.ts): requests for approval in a registry, resolutions with attestation, separation of duty and
  quorum, and the confirmation of the agent that an accepted resolution leads to. The registry is an
  interface; the in-memory one is modelled here. The key operations of the platform are a parameter.
\<close>

subsection \<open>Requests and votes\<close>

datatype ApprovalStatus = st_pending | st_approved | st_declined | st_expired

record Person =
  pn_id :: string
  pn_displayName :: "string option"

record Vote =
  vt_id :: string
  vt_at :: string
  vt_displayName :: "string option"

record QuorumPolicy =
  qp_minApprovals :: int
  qp_distinctApprovers :: "bool option"

datatype EscalationTarget = to_human | to_supervisor

record EscalationSpec =
  ep_afterMs :: int
  ep_to :: EscalationTarget

record ApprovalRequest =
  aq_token :: string
  aq_sessionId :: string
  aq_intentHash :: string
  aq_intentKind :: string
  aq_prompt :: string
  aq_taint :: Taint
  aq_channel :: string
  aq_channelRef :: "string option"
  aq_requestedBy :: "Person option"
  aq_status :: ApprovalStatus
  aq_requestedAt :: string
  aq_resolvedAt :: "string option"
  aq_resolvedBy :: "Person option"
  aq_approvals :: "Vote list option"
  aq_escalation :: "EscalationSpec option"
  aq_quorum :: "QuorumPolicy option"

subsection \<open>Governance\<close>

definition quorumMet :: "Vote list option \<Rightarrow> QuorumPolicy \<Rightarrow> string option \<Rightarrow> bool" where
  "quorumMet vs policy proposerId =
     (let votes = (case vs of None \<Rightarrow> [] | Some l \<Rightarrow> l);
          eligible = (case proposerId of None \<Rightarrow> votes | Some p \<Rightarrow> filter (\<lambda>a. vt_id a \<noteq> p) votes);
          count = (if qp_distinctApprovers policy = Some False then length eligible
                   else card (set (map vt_id eligible)))
      in int count \<ge> qp_minApprovals policy)"

record Attestation =
  at_approverId :: string
  at_signature :: string

text \<open>Approver, token, outcome, intent hash and signature.\<close>

type_synonym AttestationVerifier = "string \<Rightarrow> string \<Rightarrow> bool \<Rightarrow> string \<Rightarrow> string \<Rightarrow> bool"

definition attestationMessage :: "string \<Rightarrow> bool \<Rightarrow> string \<Rightarrow> string" where
  "attestationMessage tok accepted hash = ''adjudicate-approval-attestation-v1'' @ [CHR 0x0A] @ tok @ [CHR 0x0A]
     @ (if accepted then ''approve'' else ''decline'') @ [CHR 0x0A] @ hash"

text \<open>The platform decodes the key and the signature and checks them on the message, or throws.\<close>

definition createEd25519AttestationVerifier ::
  "(string \<Rightarrow> string \<Rightarrow> string \<Rightarrow> bool result) \<Rightarrow> (string \<rightharpoonup> string) \<Rightarrow> AttestationVerifier" where
  "createEd25519AttestationVerifier cryptoVerify keys = (\<lambda>approver tok accepted hash signature.
     case keys approver of
       None \<Rightarrow> False
     | Some pem \<Rightarrow> if pem = [] then False
         else (case cryptoVerify pem (attestationMessage tok accepted hash) signature of
             Inl e \<Rightarrow> False | Inr ok \<Rightarrow> ok))"

subsection \<open>The registry\<close>

record RegistryFilter =
  rf_status :: "ApprovalStatus option"
  rf_sessionId :: "string option"
  rf_limit :: "nat option"

record 'w ApprovalRegistry =
  rg_put :: "ApprovalRequest \<Rightarrow> int \<Rightarrow> ('w, unit) eff"
  rg_get :: "string \<Rightarrow> ('w, ApprovalRequest option) eff"
  rg_list :: "RegistryFilter option \<Rightarrow> ('w, ApprovalRequest list) eff"
  rg_markResolved :: "string \<Rightarrow> ApprovalStatus \<Rightarrow> Person option \<Rightarrow> string option \<Rightarrow> ('w, ApprovalRequest option) eff"

definition mark_resolved :: "ApprovalStatus \<Rightarrow> Person option \<Rightarrow> string \<Rightarrow> ApprovalRequest \<Rightarrow> ApprovalRequest" where
  "mark_resolved status who t r = r\<lparr>aq_status := status, aq_resolvedAt := Some t,
     aq_resolvedBy := (case who of None \<Rightarrow> aq_resolvedBy r | Some p \<Rightarrow> Some p)\<rparr>"

type_synonym approval_entries = "ApprovalRequest timed jmap"

definition ar_put :: "nat option \<Rightarrow> int \<Rightarrow> ApprovalRequest \<Rightarrow> int \<Rightarrow> approval_entries \<Rightarrow> approval_entries" where
  "ar_put max_entries now req ttlSeconds s =
     (let swept = sweep_all now s;
          room = (case max_entries of None \<Rightarrow> swept
            | Some n \<Rightarrow> if map_of swept (aq_token req) = None \<and> length swept \<ge> n then drop 1 swept else swept)
      in map_set (aq_token req) \<lparr>payload_of = req, expiry = now + ttlSeconds * 1000\<rparr> room)"

definition ar_get :: "int \<Rightarrow> string \<Rightarrow> approval_entries \<Rightarrow> ApprovalRequest option \<times> approval_entries" where
  "ar_get now tok s = (let swept = sweep_all now s in (map_option payload_of (map_of swept tok), swept))"

text \<open>Of requests made at one time the later entry comes first.\<close>

definition filter_requests :: "RegistryFilter option \<Rightarrow> ApprovalRequest list \<Rightarrow> ApprovalRequest list" where
  "filter_requests f rows = (case f of
       None \<Rightarrow> rev (sort_key aq_requestedAt rows)
     | Some f \<Rightarrow>
         (let byStatus = (case rf_status f of None \<Rightarrow> rows | Some x \<Rightarrow> filter (\<lambda>r. aq_status r = x) rows);
              bySession = (case rf_sessionId f of None \<Rightarrow> byStatus
                | Some x \<Rightarrow> if x = [] then byStatus else filter (\<lambda>r. aq_sessionId r = x) byStatus);
              sorted = rev (sort_key aq_requestedAt bySession)
          in case rf_limit f of None \<Rightarrow> sorted | Some n \<Rightarrow> take n sorted))"

definition ar_list :: "int \<Rightarrow> RegistryFilter option \<Rightarrow> approval_entries \<Rightarrow> ApprovalRequest list \<times> approval_entries" where
  "ar_list now f s = (let swept = sweep_all now s in (filter_requests f (map (\<lambda>e. payload_of (snd e)) swept), swept))"

definition ar_markResolved ::
  "string \<Rightarrow> ApprovalStatus \<Rightarrow> Person option \<Rightarrow> string \<Rightarrow> approval_entries \<Rightarrow> ApprovalRequest option \<times> approval_entries" where
  "ar_markResolved tok status who t s = (case map_of s tok of
       None \<Rightarrow> (None, s)
     | Some e \<Rightarrow> (let r = mark_resolved status who t (payload_of e) in (Some r, map_set tok (e\<lparr>payload_of := r\<rparr>) s)))"

definition createInMemoryApprovalRegistry ::
  "nat option \<Rightarrow> ('w \<Rightarrow> approval_entries) \<Rightarrow> (approval_entries \<Rightarrow> 'w \<Rightarrow> 'w) \<Rightarrow> ('w \<Rightarrow> int) \<Rightarrow> ('w \<Rightarrow> string) \<Rightarrow>
     'w ApprovalRegistry" where
  "createInMemoryApprovalRegistry max_entries getS putS clock clockIso =
     \<lparr>rg_put = (\<lambda>r ttl. stateE getS putS (\<lambda>w s. ((), ar_put max_entries (clock w) r ttl s))),
      rg_get = (\<lambda>t. stateE getS putS (\<lambda>w. ar_get (clock w) t)),
      rg_list = (\<lambda>f. stateE getS putS (\<lambda>w. ar_list (clock w) f)),
      rg_markResolved = (\<lambda>t st who now. stateE getS putS
        (\<lambda>w. ar_markResolved t st who (case now of None \<Rightarrow> clockIso w | Some x \<Rightarrow> x)))\<rparr>"

subsection \<open>The engine\<close>

record ApprovalChannelContext =
  cc_token :: string
  cc_sessionId :: string
  cc_intentHash :: string
  cc_intentKind :: string
  cc_prompt :: string
  cc_taint :: Taint
  cc_approveUrl :: "string option"
  cc_declineUrl :: "string option"

record 'w ApprovalChannel =
  chn_id :: string
  chn_request :: "ApprovalChannelContext \<Rightarrow> ('w, string option) eff"
  chn_notifyResolved :: "(ApprovalChannelContext \<Rightarrow> ApprovalStatus \<Rightarrow> Person option \<Rightarrow> ('w, unit) eff) option"

record ('w, 's, 'c, 'h) ApprovalEngineOptions =
  en_confirm :: "string \<Rightarrow> bool \<Rightarrow> 's \<Rightarrow> 'c \<Rightarrow> ConfirmationBinding option \<Rightarrow> ('w, 'h AgentTurnResult) proc"
  en_registry :: "'w ApprovalRegistry"
  en_channels :: "'w ApprovalChannel list"
  en_route :: "(ApprovalChannelContext \<Rightarrow> string list) option"
  en_resolveStateContext :: "string \<Rightarrow> ('w, 's \<times> 'c) eff"
  en_buildLinks :: "(string \<Rightarrow> string option \<times> string option) option"
  en_ttlSeconds :: "int option"
  en_now :: "('w, string) eff"
  en_quorum :: "QuorumPolicy option"
  en_attestationVerifier :: "AttestationVerifier option"
  en_enforceSeparationOfDuty :: bool
  en_agentIdentity :: "string option"

record RequestInput =
  ri_token :: string
  ri_sessionId :: string
  ri_intentHash :: string
  ri_intentKind :: string
  ri_prompt :: string
  ri_taint :: Taint
  ri_escalation :: "EscalationSpec option"
  ri_requestedBy :: "Person option"

record ResolveInput =
  si_token :: string
  si_accepted :: bool
  si_by :: "Person option"
  si_attestation :: "Attestation option"
  si_channel :: "string option"

definition engine_ttl :: "('w, 's, 'c, 'h) ApprovalEngineOptions \<Rightarrow> int" where
  "engine_ttl o1 = (case en_ttlSeconds o1 of None \<Rightarrow> 24 * 60 * 60 | Some t \<Rightarrow> t)"

text \<open>Of channels with one id the map keeps the last.\<close>

definition channel_by_id :: "('w, 's, 'c, 'h) ApprovalEngineOptions \<Rightarrow> string \<Rightarrow> 'w ApprovalChannel option" where
  "channel_by_id o1 i = map_of (rev (map (\<lambda>c. (chn_id c, c)) (en_channels o1))) i"

text \<open>An \<open>ApprovalError\<close>; thrown values of the model have a name and a message, so its code is not kept.\<close>

definition approval_error :: "string \<Rightarrow> string \<Rightarrow> thrown" where
  "approval_error code message = ErrorObj ''ApprovalError'' message"

definition channel_context :: "('w, 's, 'c, 'h) ApprovalEngineOptions \<Rightarrow> RequestInput \<Rightarrow> ApprovalChannelContext" where
  "channel_context o1 i =
     (let urls = (case en_buildLinks o1 of None \<Rightarrow> (None, None) | Some f \<Rightarrow> f (ri_token i))
      in \<lparr>cc_token = ri_token i, cc_sessionId = ri_sessionId i, cc_intentHash = ri_intentHash i, cc_intentKind = ri_intentKind i,
          cc_prompt = ri_prompt i, cc_taint = ri_taint i, cc_approveUrl = fst urls, cc_declineUrl = snd urls\<rparr>)"

definition pending_request ::
  "RequestInput \<Rightarrow> string \<Rightarrow> string option \<Rightarrow> string \<Rightarrow> EscalationSpec option \<Rightarrow> QuorumPolicy option \<Rightarrow> ApprovalRequest" where
  "pending_request i ch chRef t esc q = \<lparr>aq_token = ri_token i, aq_sessionId = ri_sessionId i, aq_intentHash = ri_intentHash i,
     aq_intentKind = ri_intentKind i, aq_prompt = ri_prompt i, aq_taint = ri_taint i, aq_channel = ch, aq_channelRef = chRef,
     aq_requestedBy = ri_requestedBy i, aq_status = st_pending, aq_requestedAt = t, aq_resolvedAt = None,
     aq_resolvedBy = None, aq_approvals = None, aq_escalation = esc, aq_quorum = q\<rparr>"

text \<open>
  The channels in turn: the first that takes the request, with its reference; when the one tried last
  throws, the request is registered as pending and the call fails.
\<close>

fun try_channels ::
  "('w, 's, 'c, 'h) ApprovalEngineOptions \<Rightarrow> RequestInput \<Rightarrow> string list \<Rightarrow> string list \<Rightarrow> ('w, string \<times> string option) proc" where
  "try_channels o1 i targets [] = retP (''none'', None)"
| "try_channels o1 i targets (cid # ids) = (case channel_by_id o1 cid of
       None \<Rightarrow> try_channels o1 i targets ids
     | Some ch \<Rightarrow> bindP (tryP (bindP (effP (chn_request ch (channel_context o1 i))) (\<lambda>ref. retP (Inr ref)))
           (\<lambda>err. retP (Inl err)))
         (\<lambda>r. case r of
             Inr ref \<Rightarrow> retP (chn_id ch, ref)
           | Inl err \<Rightarrow> if cid = last targets
               then bindP (effP (en_now o1)) (\<lambda>t.
                 bindP (effP (rg_put (en_registry o1) (pending_request i cid None t None None) (engine_ttl o1))) (\<lambda>_.
                 throwP (approval_error ''CHANNEL_FAILED'' (err_message err))))
               else try_channels o1 i targets ids))"

definition request_approval ::
  "('w, 's, 'c, 'h) ApprovalEngineOptions \<Rightarrow> RequestInput \<Rightarrow> ('w, ApprovalRequest) proc" where
  "request_approval o1 i =
     (let targets = (case en_route o1 of Some f \<Rightarrow> f (channel_context o1 i) | None \<Rightarrow> map chn_id (en_channels o1))
      in bindP (try_channels o1 i targets targets) (\<lambda>(used_channel, ref).
         bindP (effP (en_now o1)) (\<lambda>t.
         let req = pending_request i used_channel ref t (ri_escalation i) (en_quorum o1)
         in bindP (effP (rg_put (en_registry o1) req (engine_ttl o1))) (\<lambda>_. retP req))))"

definition attestation_ok :: "AttestationVerifier option \<Rightarrow> ResolveInput \<Rightarrow> ApprovalRequest \<Rightarrow> bool" where
  "attestation_ok av i r = (case av of
       None \<Rightarrow> True
     | Some verify \<Rightarrow> (case si_attestation i of
           None \<Rightarrow> False
         | Some a \<Rightarrow> verify (at_approverId a) (si_token i) (si_accepted i) (aq_intentHash r) (at_signature a)))"

definition approver_id :: "AttestationVerifier option \<Rightarrow> ResolveInput \<Rightarrow> string option" where
  "approver_id av i = (case (av, si_attestation i) of
       (Some _, Some a) \<Rightarrow> Some (at_approverId a)
     | _ \<Rightarrow> map_option pn_id (si_by i))"

text \<open>Why the separation of duty forbids the approver, if it does.\<close>

definition duty_violation ::
  "('w, 's, 'c, 'h) ApprovalEngineOptions \<Rightarrow> ResolveInput \<Rightarrow> ApprovalRequest \<Rightarrow> string option" where
  "duty_violation o1 i r =
     (if \<not> (en_enforceSeparationOfDuty o1 \<and> si_accepted i) then None
      else case (approver_id (en_attestationVerifier o1) i, map_option pn_id (aq_requestedBy r)) of
          (None, _) \<Rightarrow> Some ('': separation-of-duty requires an identified approver distinct from the proposer'')
        | (Some a, None) \<Rightarrow> Some ('': separation-of-duty requires a recorded proposer (requestedBy) to compare against the approver'')
        | (Some a, Some p) \<Rightarrow>
            if a = p then Some ('': the proposer ('' @ p @ '') cannot approve their own request'')
            else (case en_agentIdentity o1 of
                None \<Rightarrow> None
              | Some g \<Rightarrow> if a = g then Some ('': the agent identity ('' @ g @ '') cannot approve its own proposal'') else None))"

text \<open>A display name counts only if it is not empty.\<close>

definition shown_name :: "Person option \<Rightarrow> string option" where
  "shown_name p = (case p of None \<Rightarrow> None
     | Some x \<Rightarrow> (case pn_displayName x of None \<Rightarrow> None | Some n \<Rightarrow> if n = [] then None else Some n))"

definition voter_of :: "ResolveInput \<Rightarrow> Person option" where
  "voter_of i = (case si_attestation i of
       Some a \<Rightarrow> Some \<lparr>pn_id = at_approverId a, pn_displayName = shown_name (si_by i)\<rparr>
     | None \<Rightarrow> si_by i)"

definition effective_by :: "AttestationVerifier option \<Rightarrow> ResolveInput \<Rightarrow> Person option" where
  "effective_by av i = (case (av, si_attestation i) of
       (Some _, Some a) \<Rightarrow> Some \<lparr>pn_id = at_approverId a, pn_displayName = shown_name (si_by i)\<rparr>
     | (_, att) \<Rightarrow> (case si_by i of
           Some p \<Rightarrow> Some p
         | None \<Rightarrow> map_option (\<lambda>a. \<lparr>pn_id = at_approverId a, pn_displayName = None\<rparr>) att))"

definition confirm_binding ::
  "('w, 's, 'c, 'h) ApprovalEngineOptions \<Rightarrow> ResolveInput \<Rightarrow> ApprovalRequest \<Rightarrow> ConfirmationBinding option" where
  "confirm_binding o1 i r =
     (if \<not> si_accepted i then None
      else Some \<lparr>cb_capability = None,
        cb_approver = map_option (\<lambda>p. \<lparr>confirmed = pn_id p, requested = None\<rparr>) (effective_by (en_attestationVerifier o1) i),
        cb_channel = Some \<lparr>confirmed = (case si_channel i of Some c \<Rightarrow> c | None \<Rightarrow> aq_channel r),
          requested = Some (aq_channel r)\<rparr>\<rparr>)"

text \<open>The votes with a new one; a voter is counted once when approvers must be distinct, and \<open>now\<close> is not read then.\<close>

definition votes_of :: "ApprovalRequest \<Rightarrow> Vote list" where
  "votes_of r = (case aq_approvals r of None \<Rightarrow> [] | Some l \<Rightarrow> l)"

definition has_voted :: "QuorumPolicy \<Rightarrow> ApprovalRequest \<Rightarrow> Person \<Rightarrow> bool" where
  "has_voted q r p \<longleftrightarrow> qp_distinctApprovers q \<noteq> Some False \<and> list_ex (\<lambda>a. vt_id a = pn_id p) (votes_of r)"

definition add_vote ::
  "('w, 's, 'c, 'h) ApprovalEngineOptions \<Rightarrow> QuorumPolicy \<Rightarrow> ApprovalRequest \<Rightarrow> Person \<Rightarrow> ('w, Vote list) proc" where
  "add_vote o1 q r p =
     (if has_voted q r p then retP (votes_of r)
      else bindP (effP (en_now o1)) (\<lambda>t.
        retP (votes_of r @ [\<lparr>vt_id = pn_id p, vt_at = t, vt_displayName = shown_name (Some p)\<rparr>])))"

text \<open>The vote of an accepting resolution: \<open>Some\<close> updated request while the quorum is not reached.\<close>

definition quorum_step ::
  "('w, 's, 'c, 'h) ApprovalEngineOptions \<Rightarrow> ResolveInput \<Rightarrow> ApprovalRequest \<Rightarrow> ('w, ApprovalRequest option) proc" where
  "quorum_step o1 i existing = (case en_quorum o1 of
       None \<Rightarrow> retP None
     | Some q \<Rightarrow> if \<not> si_accepted i then retP None
         else (case voter_of i of
             None \<Rightarrow> throwP (approval_error ''QUORUM_VOTER_REQUIRED'' (''approval '' @ si_token i @ '': quorum requires an identified approver''))
           | Some p \<Rightarrow> if pn_id p = [] then throwP (approval_error ''QUORUM_VOTER_REQUIRED''
                 (''approval '' @ si_token i @ '': quorum requires an identified approver''))
               else bindP (add_vote o1 q existing p) (\<lambda>votes.
                 let updated = existing\<lparr>aq_approvals := Some votes\<rparr>
                 in bindP (effP (rg_put (en_registry o1) updated (engine_ttl o1))) (\<lambda>_.
                    retP (if quorumMet (Some votes) q (map_option pn_id (aq_requestedBy existing)) then None else Some updated)))))"

definition notify_context :: "ApprovalRequest \<Rightarrow> ApprovalChannelContext" where
  "notify_context r = \<lparr>cc_token = aq_token r, cc_sessionId = aq_sessionId r, cc_intentHash = aq_intentHash r,
     cc_intentKind = aq_intentKind r, cc_prompt = aq_prompt r, cc_taint = aq_taint r, cc_approveUrl = None, cc_declineUrl = None\<rparr>"

text \<open>From the confirmation on: the request is marked with the outcome and its channel told.\<close>

definition conclude ::
  "('w, 's, 'c, 'h) ApprovalEngineOptions \<Rightarrow> ResolveInput \<Rightarrow> ApprovalRequest \<Rightarrow>
     ('w, ApprovalRequest option \<times> 'h AgentTurnResult option) proc" where
  "conclude o1 i existing =
     (let who = effective_by (en_attestationVerifier o1) i in
      bindP (effP (en_resolveStateContext o1 (aq_sessionId existing))) (\<lambda>(st, ctx).
      bindP (tryP (en_confirm o1 (si_token i) (si_accepted i) st ctx (confirm_binding o1 i existing))
          (\<lambda>err. bindP (effP (rg_markResolved (en_registry o1) (si_token i) st_expired (si_by i) None)) (\<lambda>_.
             throwP (approval_error ''CONFIRM_REJECTED'' (err_message err))))) (\<lambda>turn.
      let status = (if si_accepted i then st_approved else st_declined) in
      bindP (effP (rg_markResolved (en_registry o1) (si_token i) status who None)) (\<lambda>request.
      bindP (case channel_by_id o1 (aq_channel existing) of
            None \<Rightarrow> retP ()
          | Some ch \<Rightarrow> (case chn_notifyResolved ch of None \<Rightarrow> retP ()
              | Some f \<Rightarrow> effP (f (notify_context existing) status who))) (\<lambda>_.
      retP (request, Some turn))))))"

definition status_name :: "ApprovalStatus \<Rightarrow> string" where
  "status_name s = (case s of st_pending \<Rightarrow> ''pending'' | st_approved \<Rightarrow> ''approved'' | st_declined \<Rightarrow> ''declined''
     | st_expired \<Rightarrow> ''expired'')"

definition resolve_approval ::
  "('w, 's, 'c, 'h) ApprovalEngineOptions \<Rightarrow> ResolveInput \<Rightarrow>
     ('w, ApprovalRequest option \<times> 'h AgentTurnResult option) proc" where
  "resolve_approval o1 i =
     bindP (effP (rg_get (en_registry o1) (si_token i))) (\<lambda>found. case found of
       None \<Rightarrow> throwP (approval_error ''UNKNOWN_TOKEN'' (''unknown approval token '' @ si_token i))
     | Some existing \<Rightarrow>
         if aq_status existing \<noteq> st_pending then throwP (approval_error ''ALREADY_RESOLVED''
             (''approval '' @ si_token i @ '' already '' @ status_name (aq_status existing)))
         else if \<not> attestation_ok (en_attestationVerifier o1) i existing then throwP (approval_error ''ATTESTATION_INVALID''
             (''approval '' @ si_token i @ '': missing or invalid attestation''))
         else (case duty_violation o1 i existing of
             Some why \<Rightarrow> throwP (approval_error ''SELF_APPROVAL_FORBIDDEN'' (''approval '' @ si_token i @ why))
           | None \<Rightarrow> bindP (quorum_step o1 i existing) (\<lambda>waiting. case waiting of
                 Some updated \<Rightarrow> retP (Some updated, None)
               | None \<Rightarrow> conclude o1 i existing)))"


subsection \<open>What a registry promises\<close>

text \<open>
  The stored requests, with the token each is stored under. A registry may drop requests at any time
  (they expire, or make room) and an operation may fail before or after its write, but it adds nothing of its own.
\<close>

locale approval_registry =
  fixes reg :: "'w ApprovalRegistry" and stored :: "'w \<Rightarrow> (string \<times> ApprovalRequest) set"
  assumes put_stored: "stored (snd (rg_put reg r ttl w)) \<subseteq> insert (aq_token r, r) (stored w)"
    and get_stored: "stored (snd (rg_get reg t w)) \<subseteq> stored w"
    and get_found: "fst (rg_get reg t w) = Inr (Some r) \<Longrightarrow> (t, r) \<in> stored w"
    and list_stored: "stored (snd (rg_list reg f w)) \<subseteq> stored w"
    and mark_stored: "stored (snd (rg_markResolved reg t status who now w))
      \<subseteq> stored w \<union> {(t, mark_resolved status who at r) |at r. (t, r) \<in> stored w}"
begin

text \<open>A property of the stored requests that resolving does not touch survives every operation.\<close>

lemma put_all: "P (aq_token r) r \<Longrightarrow> \<forall>(t, r) \<in> stored w. P t r \<Longrightarrow> \<forall>(t, r) \<in> stored (snd (rg_put reg r ttl w)). P t r"
  using put_stored [of r ttl w] by auto

lemma get_all: "\<forall>(t, r) \<in> stored w. P t r \<Longrightarrow> \<forall>(t, r) \<in> stored (snd (rg_get reg tok w)). P t r"
  using get_stored by blast

lemma mark_all:
  assumes "\<And>t status who at r. P t r \<Longrightarrow> P t (mark_resolved status who at r)" "\<forall>(t, r) \<in> stored w. P t r"
  shows "\<forall>(t, r) \<in> stored (snd (rg_markResolved reg tok status who now w)). P t r"
  using mark_stored [of tok status who now w] assms by fastforce

end

definition in_memory_requests :: "('w \<Rightarrow> approval_entries) \<Rightarrow> 'w \<Rightarrow> (string \<times> ApprovalRequest) set" where
  "in_memory_requests getS w = (\<lambda>(k, e). (k, payload_of e)) ` set (getS w)"

lemma set_map_set_subset: "set (map_set k v es) \<subseteq> insert (k, v) (set es)"
  by (induction k v es rule: map_set.induct) auto

lemma ar_put_set: "set (ar_put n now r ttl s) \<subseteq> insert (aq_token r, \<lparr>payload_of = r, expiry = now + ttl * 1000\<rparr>) (set s)"
proof -
  let ?swept = "sweep_all now s"
  let ?room = "case n of None \<Rightarrow> ?swept | Some m \<Rightarrow> if map_of ?swept (aq_token r) = None \<and> length ?swept \<ge> m then drop 1 ?swept else ?swept"
  have "set ?room \<subseteq> set ?swept" using set_drop_subset [of 1 ?swept] by (auto split: option.split)
  also have "\<dots> \<subseteq> set s" by (auto simp: sweep_all_def)
  finally show ?thesis
    unfolding ar_put_def Let_def using set_map_set_subset [of "aq_token r" "\<lparr>payload_of = r, expiry = now + ttl * 1000\<rparr>" ?room] by blast
qed

lemma ar_mark_set: "(t', e) \<in> set (snd (ar_markResolved tok status who at s)) \<Longrightarrow>
    (t', e) \<in> set s \<or> t' = tok \<and> (\<exists>e0. (tok, e0) \<in> set s \<and> payload_of e = mark_resolved status who at (payload_of e0))"
proof (cases "map_of s tok")
  case (Some e0)
  assume "(t', e) \<in> set (snd (ar_markResolved tok status who at s))"
  then have "(t', e) \<in> insert (tok, e0\<lparr>payload_of := mark_resolved status who at (payload_of e0)\<rparr>) (set s)"
    using set_map_set_subset [of tok "e0\<lparr>payload_of := mark_resolved status who at (payload_of e0)\<rparr>" s] Some
    by (auto simp: ar_markResolved_def Let_def)
  with map_of_SomeD [OF Some] show ?thesis by auto
qed (simp add: ar_markResolved_def)

lemma in_memory_registry:
  assumes put: "\<And>s w. getS (putS s w) = s"
  shows "approval_registry (createInMemoryApprovalRegistry n getS putS clock clockIso) (in_memory_requests getS)"
    (is "approval_registry ?reg ?stored")
proof
  note d = createInMemoryApprovalRegistry_def stateE_def in_memory_requests_def case_prod_unfold put
  have sweep: "set (sweep_all now s) \<subseteq> set s" for now and s :: approval_entries by (auto simp: sweep_all_def)
  fix w t
  show "?stored (snd (rg_put ?reg r ttl w)) \<subseteq> insert (aq_token r, r) (?stored w)" for r ttl
    using image_mono [OF ar_put_set [of n "clock w" r ttl "getS w"], of "\<lambda>(k, e). (k, payload_of e)"] by (simp add: d)
  show "?stored (snd (rg_get ?reg t w)) \<subseteq> ?stored w"
    using image_mono [OF sweep [of "clock w" "getS w"], of "\<lambda>(k, e). (k, payload_of e)"] by (simp add: d ar_get_def Let_def)
  show "(t, r) \<in> ?stored w" if "fst (rg_get ?reg t w) = Inr (Some r)" for r
    using that sweep [of "clock w" "getS w"] by (auto simp: d ar_get_def Let_def dest!: map_of_SomeD intro: rev_image_eqI)
  show "?stored (snd (rg_list ?reg f w)) \<subseteq> ?stored w" for f
    using image_mono [OF sweep [of "clock w" "getS w"], of "\<lambda>(k, e). (k, payload_of e)"] by (simp add: d ar_list_def Let_def)
  show "?stored (snd (rg_markResolved ?reg t status who now w))
      \<subseteq> ?stored w \<union> {(t, mark_resolved status who at r) |at r. (t, r) \<in> ?stored w}" for status who now
  proof
    fix x
    assume "x \<in> ?stored (snd (rg_markResolved ?reg t status who now w))"
    then obtain t' e at where x: "x = (t', payload_of e)" "(t', e) \<in> set (snd (ar_markResolved t status who at (getS w)))"
      by (auto simp: d)
    from ar_mark_set [OF x(2)] show "x \<in> ?stored w \<union> {(t, mark_resolved status who at r) |at r. (t, r) \<in> ?stored w}"
      using x(1) by (force simp: in_memory_requests_def)
  qed
qed

subsection \<open>A world of approvals\<close>

text \<open>
  What is observed: the stored requests, and the tokens that the agent was told were accepted. The parts the
  engine is given touch neither, except that a confirmation may record its own token when it accepts.
\<close>

definition undisturbed :: "('w \<Rightarrow> (string \<times> ApprovalRequest) set) \<Rightarrow> ('w \<Rightarrow> string set) \<Rightarrow> 'w \<Rightarrow> 'w \<Rightarrow> bool" where
  "undisturbed stored approved w w' \<longleftrightarrow> stored w' \<subseteq> stored w \<and> approved w' \<subseteq> approved w"

definition engine_observed ::
  "('w, 's, 'c, 'h) ApprovalEngineOptions \<Rightarrow> ('w \<Rightarrow> (string \<times> ApprovalRequest) set) \<Rightarrow> ('w \<Rightarrow> string set) \<Rightarrow> bool" where
  "engine_observed o1 stored approved \<longleftrightarrow>
     (\<forall>r ttl w. approved (snd (rg_put (en_registry o1) r ttl w)) \<subseteq> approved w)
   \<and> (\<forall>t w. approved (snd (rg_get (en_registry o1) t w)) \<subseteq> approved w)
   \<and> (\<forall>t status who at w. approved (snd (rg_markResolved (en_registry o1) t status who at w)) \<subseteq> approved w)
   \<and> (\<forall>w. undisturbed stored approved w (snd (en_now o1 w)))
   \<and> (\<forall>sid w. undisturbed stored approved w (snd (en_resolveStateContext o1 sid w)))
   \<and> (\<forall>c \<in> set (en_channels o1). (\<forall>x w. undisturbed stored approved w (snd (chn_request c x w)))
        \<and> (\<forall>f x st who w. chn_notifyResolved c = Some f \<longrightarrow> undisturbed stored approved w (snd (f x st who w))))
   \<and> (\<forall>tok accepted st ctx b. steps_within (\<lambda>w w'. stored w' \<subseteq> stored w
          \<and> approved w' \<subseteq> approved w \<union> (if accepted then {tok} else {})) (en_confirm o1 tok accepted st ctx b))"

text \<open>Any number of requests and resolutions of one engine, or of several with the same options, in any interleaving.\<close>

definition engine_calls ::
  "('w, 's, 'c, 'h) ApprovalEngineOptions \<Rightarrow> RequestInput set \<Rightarrow>
     ('w, ApprovalRequest option \<times> 'h AgentTurnResult option) proc set" where
  "engine_calls o1 reqs = (\<lambda>i. bindP (request_approval o1 i) (\<lambda>r. retP (Some r, None))) ` reqs \<union> range (resolve_approval o1)"

text \<open>A vote by someone who attested the acceptance of this token for this intent.\<close>

definition attested :: "AttestationVerifier \<Rightarrow> string \<Rightarrow> string \<Rightarrow> string \<Rightarrow> bool" where
  "attested verify tok hash a \<longleftrightarrow> (\<exists>sig. verify a tok True hash sig)"

text \<open>A stored request is one of those made, with votes of attested approvers only.\<close>

definition vouched :: "AttestationVerifier \<Rightarrow> RequestInput set \<Rightarrow> string \<Rightarrow> ApprovalRequest \<Rightarrow> bool" where
  "vouched verify reqs tok r \<longleftrightarrow> aq_token r = tok \<and> (\<exists>i \<in> reqs. ri_token i = tok \<and> ri_intentHash i = aq_intentHash r
     \<and> ri_requestedBy i = aq_requestedBy r) \<and> (\<forall>v \<in> set (votes_of r). attested verify tok (aq_intentHash r) (vt_id v))"

text \<open>Enough distinct attested approvers, none of them the proposer, for one of the requests made.\<close>

definition quorate :: "AttestationVerifier \<Rightarrow> QuorumPolicy \<Rightarrow> RequestInput set \<Rightarrow> string \<Rightarrow> bool" where
  "quorate verify q reqs tok \<longleftrightarrow> (\<exists>i \<in> reqs. ri_token i = tok \<and> (\<exists>as. distinct as \<and> qp_minApprovals q \<le> int (length as)
     \<and> (\<forall>a \<in> set as. attested verify tok (ri_intentHash i) a \<and> map_option pn_id (ri_requestedBy i) \<noteq> Some a)))"

lemma vouched_resolved: "vouched verify reqs t r \<Longrightarrow> vouched verify reqs t (mark_resolved status who at r)"
  by (simp add: vouched_def mark_resolved_def votes_of_def)

lemma vouched_pending: "i \<in> reqs \<Longrightarrow> vouched verify reqs (ri_token i) (pending_request i ch ref t esc q)"
  by (auto simp: vouched_def pending_request_def votes_of_def)

lemma vouched_vote:
  assumes "vouched verify reqs t r" "\<forall>v \<in> set vs. attested verify t (aq_intentHash r) (vt_id v)"
  shows "vouched verify reqs t (r\<lparr>aq_approvals := Some vs\<rparr>)"
  using assms by (simp add: vouched_def votes_of_def)

lemma quorumMet_quorate:
  assumes "vouched verify reqs t (r\<lparr>aq_approvals := Some vs\<rparr>)" "qp_distinctApprovers q \<noteq> Some False"
    and "quorumMet (Some vs) q (map_option pn_id (aq_requestedBy r))"
  shows "quorate verify q reqs t"
proof -
  let ?E = "case map_option pn_id (aq_requestedBy r) of None \<Rightarrow> vs | Some p \<Rightarrow> filter (\<lambda>a. vt_id a \<noteq> p) vs"
  let ?as = "remdups (map vt_id ?E)"
  from assms(1) obtain i where i: "i \<in> reqs" "ri_token i = t" "ri_intentHash i = aq_intentHash r" "ri_requestedBy i = aq_requestedBy r"
    and v: "\<forall>v \<in> set vs. attested verify t (aq_intentHash r) (vt_id v)" by (auto simp: vouched_def votes_of_def)
  have "qp_minApprovals q \<le> int (length ?as)"
    using assms(2,3) by (simp add: quorumMet_def Let_def length_remdups_card_conv)
  moreover have "\<forall>a \<in> set ?as. attested verify t (aq_intentHash r) a \<and> map_option pn_id (aq_requestedBy r) \<noteq> Some a"
    using v by (cases "aq_requestedBy r") auto
  moreover have "distinct ?as" by simp
  ultimately show ?thesis unfolding quorate_def using i by metis
qed

definition approvals_sound ::
  "AttestationVerifier \<Rightarrow> QuorumPolicy \<Rightarrow> RequestInput set \<Rightarrow> ('w \<Rightarrow> (string \<times> ApprovalRequest) set) \<Rightarrow> ('w \<Rightarrow> string set) \<Rightarrow> 'w \<Rightarrow> bool" where
  "approvals_sound verify q reqs stored approved w \<longleftrightarrow> (\<forall>(t, r) \<in> stored w. vouched verify reqs t r)
     \<and> (\<forall>t \<in> approved w. quorate verify q reqs t)"

lemma sound_undisturbed: "approvals_sound verify q reqs stored approved w \<Longrightarrow> undisturbed stored approved w w' \<Longrightarrow>
    approvals_sound verify q reqs stored approved w'"
  by (auto simp: approvals_sound_def undisturbed_def)

context approval_registry
begin

lemma sound_put:
  assumes "approvals_sound verify q reqs stored approved w" "vouched verify reqs (aq_token r) r"
    and "approved (snd (rg_put reg r ttl w)) \<subseteq> approved w"
  shows "approvals_sound verify q reqs stored approved (snd (rg_put reg r ttl w))"
  using put_all [of "vouched verify reqs" r w ttl] assms by (auto simp: approvals_sound_def)

lemma sound_get:
  assumes "approvals_sound verify q reqs stored approved w" "approved (snd (rg_get reg t w)) \<subseteq> approved w"
  shows "approvals_sound verify q reqs stored approved (snd (rg_get reg t w))
    \<and> (\<forall>r. fst (rg_get reg t w) = Inr (Some r) \<longrightarrow> vouched verify reqs t r)"
  using get_all [of w "vouched verify reqs" t] get_found [of t w] assms by (auto simp: approvals_sound_def)

lemma sound_mark:
  assumes "approvals_sound verify q reqs stored approved w" "approved (snd (rg_markResolved reg t status who at w)) \<subseteq> approved w"
  shows "approvals_sound verify q reqs stored approved (snd (rg_markResolved reg t status who at w))"
  using mark_all [of "vouched verify reqs" w t status who at, OF vouched_resolved] assms by (auto simp: approvals_sound_def)

end

lemma channel_in: "channel_by_id o1 i = Some ch \<Longrightarrow> ch \<in> set (en_channels o1)"
  by (auto simp: channel_by_id_def dest: map_of_SomeD)

lemma observed_keeping:
  assumes "engine_observed o1 stored approved"
  shows "keeping (approvals_sound verify q reqs stored approved) (effP (en_now o1))"
    "keeping (approvals_sound verify q reqs stored approved) (effP (en_resolveStateContext o1 sid))"
    "ch \<in> set (en_channels o1) \<Longrightarrow> keeping (approvals_sound verify q reqs stored approved) (effP (chn_request ch x))"
    "ch \<in> set (en_channels o1) \<Longrightarrow> chn_notifyResolved ch = Some f \<Longrightarrow>
      keeping (approvals_sound verify q reqs stored approved) (effP (f x status who))"
  using assms unfolding engine_observed_def by (auto intro!: keeping_eff elim: sound_undisturbed)

lemma confirm_keeping:
  assumes "engine_observed o1 stored approved" "accepted \<Longrightarrow> quorate verify q reqs tok"
  shows "keeping (approvals_sound verify q reqs stored approved) (en_confirm o1 tok accepted st ctx b)"
proof (rule keeping_within)
  show "steps_within (\<lambda>w w'. stored w' \<subseteq> stored w \<and> approved w' \<subseteq> approved w \<union> (if accepted then {tok} else {}))
      (en_confirm o1 tok accepted st ctx b)"
    using assms(1) unfolding engine_observed_def by blast
qed (use assms(2) in \<open>auto simp: approvals_sound_def split: if_splits\<close>)

text \<open>An engine over a registry that keeps its promise, seen through an observed world.\<close>

definition governed ::
  "('w, 's, 'c, 'h) ApprovalEngineOptions \<Rightarrow> ('w \<Rightarrow> (string \<times> ApprovalRequest) set) \<Rightarrow> ('w \<Rightarrow> string set) \<Rightarrow> bool" where
  "governed o1 stored approved \<longleftrightarrow> approval_registry (en_registry o1) stored \<and> engine_observed o1 stored approved"

lemma put_keeping:
  assumes "governed o1 stored approved" "vouched verify reqs (aq_token r) r"
  shows "keeping (approvals_sound verify q reqs stored approved) (effP (rg_put (en_registry o1) r ttl))"
  using assms approval_registry.sound_put [of "en_registry o1" stored] unfolding governed_def engine_observed_def
  by (auto intro!: keeping_eff)

lemma mark_keeping:
  assumes "governed o1 stored approved"
  shows "keeping (approvals_sound verify q reqs stored approved) (effP (rg_markResolved (en_registry o1) t status who at))"
  using assms approval_registry.sound_mark [of "en_registry o1" stored] unfolding governed_def engine_observed_def
  by (auto intro!: keeping_eff)

lemma get_keeping:
  assumes "governed o1 stored approved"
  shows "keeps (approvals_sound verify q reqs stored approved) (effP (rg_get (en_registry o1) t))
    (\<lambda>x. \<forall>r. x = Inr (Some r) \<longrightarrow> vouched verify reqs t r)"
proof (rule keeps_eff)
  have a: "approval_registry (en_registry o1) stored" "approved (snd (rg_get (en_registry o1) t w)) \<subseteq> approved w" for w
    using assms by (simp_all add: governed_def engine_observed_def)
  show "approvals_sound verify q reqs stored approved (snd (rg_get (en_registry o1) t w))
      \<and> (\<forall>r. fst (rg_get (en_registry o1) t w) = Inr (Some r) \<longrightarrow> vouched verify reqs t r)"
    if "approvals_sound verify q reqs stored approved w" for w
    by (rule approval_registry.sound_get [OF a(1) that a(2)])
qed

lemma request_keeping:
  assumes g: "governed o1 stored approved" and i: "i \<in> reqs"
  shows "keeping (approvals_sound verify q reqs stored approved) (request_approval o1 i)"
proof -
  have o: "engine_observed o1 stored approved" using g by (simp add: governed_def)
  have put: "keeping (approvals_sound verify q reqs stored approved)
      (effP (rg_put (en_registry o1) (pending_request i ch ref t esc q') ttl))" for ch ref t esc q' ttl
    using put_keeping [OF g, of verify reqs "pending_request i ch ref t esc q'"] vouched_pending [OF i]
    by (simp add: pending_request_def)
  note kept = keeps_intros observed_keeping [OF o] put
  have channels: "keeping (approvals_sound verify q reqs stored approved) (try_channels o1 i targets ids)" for targets ids
  proof (induction ids)
    case Nil
    show ?case by (simp add: kept)
  next
    case (Cons cid ids)
    show ?case
    proof (cases "channel_by_id o1 cid")
      case None
      then show ?thesis using Cons by simp
    next
      case (Some ch)
      show ?thesis unfolding try_channels.simps Some option.case
        by (intro kept channel_in [OF Some]) (auto intro!: kept Cons split: sum.split)
    qed
  qed
  show ?thesis unfolding request_approval_def Let_def case_prod_unfold by (intro kept channels)
qed

lemma quorum_keeping:
  assumes g: "governed o1 stored approved" and q: "en_quorum o1 = Some q" "qp_distinctApprovers q \<noteq> Some False"
    and i: "si_accepted i" "vouched verify reqs (si_token i) r"
    and who: "\<And>p. voter_of i = Some p \<Longrightarrow> attested verify (si_token i) (aq_intentHash r) (pn_id p)"
  shows "keeps (approvals_sound verify q reqs stored approved) (quorum_step o1 i r)
    (\<lambda>x. x = Inr None \<longrightarrow> quorate verify q reqs (si_token i))"
proof (cases "voter_of i")
  case None
  then show ?thesis by (simp add: quorum_step_def q(1) i(1) throwP_def)
next
  case (Some p)
  let ?I = "approvals_sound verify q reqs stored approved"
  have o: "engine_observed o1 stored approved" using g by (simp add: governed_def)
  have old: "\<forall>v \<in> set (votes_of r). attested verify (si_token i) (aq_intentHash r) (vt_id v)" using i(2) by (simp add: vouched_def)
  have votes: "keeps ?I (add_vote o1 q r p)
      (\<lambda>x. \<forall>vs. x = Inr vs \<longrightarrow> vouched verify reqs (si_token i) (r\<lparr>aq_approvals := Some vs\<rparr>))"
  proof (cases "has_voted q r p")
    case True
    then show ?thesis using vouched_vote [OF i(2) old] by (simp add: add_vote_def retP_def)
  next
    case False
    have "vouched verify reqs (si_token i)
        (r\<lparr>aq_approvals := Some (votes_of r @ [\<lparr>vt_id = pn_id p, vt_at = t, vt_displayName = n\<rparr>])\<rparr>)" for t n
      using old who [OF Some] by (intro vouched_vote [OF i(2)]) auto
    then show ?thesis using False keeps_mono [OF observed_keeping(1) [OF o]]
      by (auto simp: add_vote_def retP_def intro!: keeps_bind split: sum.split)
  qed
  have put: "keeping ?I (effP (rg_put (en_registry o1) (r\<lparr>aq_approvals := Some vs\<rparr>) ttl))"
    if "vouched verify reqs (si_token i) (r\<lparr>aq_approvals := Some vs\<rparr>)" for vs ttl
  proof -
    have "aq_token (r\<lparr>aq_approvals := Some vs\<rparr>) = si_token i" using i(2) by (simp add: vouched_def)
    with put_keeping [OF g, of verify reqs "r\<lparr>aq_approvals := Some vs\<rparr>"] that show ?thesis by simp
  qed
  show ?thesis
  proof (cases "pn_id p = []")
    case True
    then show ?thesis by (simp add: quorum_step_def q(1) i(1) Some throwP_def)
  next
    case False
    let ?vote = "\<lambda>vs. bindP (effP (rg_put (en_registry o1) (r\<lparr>aq_approvals := Some vs\<rparr>) (engine_ttl o1))) (\<lambda>_.
        retP (if quorumMet (Some vs) q (map_option pn_id (aq_requestedBy r)) then None else Some (r\<lparr>aq_approvals := Some vs\<rparr>)))"
    have step: "quorum_step o1 i r = bindP (add_vote o1 q r p) ?vote"
      using q(1) i(1) Some False by (simp add: quorum_step_def Let_def)
    have vote: "keeps ?I (?vote vs) (\<lambda>x. x = Inr None \<longrightarrow> quorate verify q reqs (si_token i))"
      if v: "vouched verify reqs (si_token i) (r\<lparr>aq_approvals := Some vs\<rparr>)" for vs
      using keeps_mono [OF put [OF v]] quorumMet_quorate [OF v q(2)]
      by (auto simp: retP_def intro!: keeps_bind split: sum.split)
    show ?thesis unfolding step
    proof (rule keeps_bind, rule keeps_mono [OF votes])
      fix x
      assume "\<forall>vs. x = Inr vs \<longrightarrow> vouched verify reqs (si_token i) (r\<lparr>aq_approvals := Some vs\<rparr>)"
      with vote show "case x of Inl e \<Rightarrow> Inl e = Inr None \<longrightarrow> quorate verify q reqs (si_token i)
          | Inr vs \<Rightarrow> keeps ?I (?vote vs) (\<lambda>x. x = Inr None \<longrightarrow> quorate verify q reqs (si_token i))"
        by (cases x) simp_all
    qed
  qed
qed

lemma conclude_keeping:
  assumes g: "governed o1 stored approved" and ok: "si_accepted i \<Longrightarrow> quorate verify q reqs (si_token i)"
  shows "keeping (approvals_sound verify q reqs stored approved) (conclude o1 i r)"
proof -
  have o: "engine_observed o1 stored approved" using g by (simp add: governed_def)
  note kept = keeps_intros observed_keeping [OF o] mark_keeping [OF g] confirm_keeping [OF o ok]
  have notify: "keeping (approvals_sound verify q reqs stored approved) (case channel_by_id o1 c of
      None \<Rightarrow> retP ()
    | Some ch \<Rightarrow> (case chn_notifyResolved ch of None \<Rightarrow> retP () | Some f \<Rightarrow> effP (f x status who)))" for c x status who
    by (auto intro: kept channel_in split: option.split)
  show ?thesis unfolding conclude_def Let_def case_prod_unfold by (intro kept notify)
qed

lemma resolve_keeping:
  assumes g: "governed o1 stored approved" and q: "en_quorum o1 = Some q" "qp_distinctApprovers q \<noteq> Some False"
    and av: "en_attestationVerifier o1 = Some verify"
  shows "keeping (approvals_sound verify q reqs stored approved) (resolve_approval o1 i)"
  unfolding resolve_approval_def
proof (rule keeping_bind_result [OF get_keeping [OF g]])
  let ?I = "approvals_sound verify q reqs stored approved"
  fix found
  assume f: "\<forall>r. Inr found = Inr (Some r) \<longrightarrow> vouched verify reqs (si_token i) r"
  show "keeping ?I (case found of
       None \<Rightarrow> throwP (approval_error ''UNKNOWN_TOKEN'' (''unknown approval token '' @ si_token i))
     | Some existing \<Rightarrow>
         if aq_status existing \<noteq> st_pending then throwP (approval_error ''ALREADY_RESOLVED''
             (''approval '' @ si_token i @ '' already '' @ status_name (aq_status existing)))
         else if \<not> attestation_ok (en_attestationVerifier o1) i existing then throwP (approval_error ''ATTESTATION_INVALID''
             (''approval '' @ si_token i @ '': missing or invalid attestation''))
         else (case duty_violation o1 i existing of
             Some why \<Rightarrow> throwP (approval_error ''SELF_APPROVAL_FORBIDDEN'' (''approval '' @ si_token i @ why))
           | None \<Rightarrow> bindP (quorum_step o1 i existing) (\<lambda>waiting. case waiting of
                 Some updated \<Rightarrow> retP (Some updated, None)
               | None \<Rightarrow> conclude o1 i existing)))"
  proof (cases found)
    case (Some r)
    have vote: "keeping ?I (bindP (quorum_step o1 i r) (\<lambda>waiting. case waiting of
          Some updated \<Rightarrow> retP (Some updated, None) | None \<Rightarrow> conclude o1 i r))"
      if att: "attestation_ok (en_attestationVerifier o1) i r"
    proof (cases "si_accepted i")
      case True
      have "attested verify (si_token i) (aq_intentHash r) (pn_id p)" if "voter_of i = Some p" for p
        using att that True by (auto simp: attestation_ok_def av voter_of_def attested_def split: option.splits)
      moreover have "vouched verify reqs (si_token i) r" using f Some by simp
      ultimately show ?thesis
        by (intro keeping_bind_result [OF quorum_keeping [OF g q True]])
          (auto intro: keeps_intros conclude_keeping [OF g] split: option.split)
    next
      case False
      then show ?thesis by (auto simp: quorum_step_def q(1) retP_def [of None] intro: conclude_keeping [OF g])
    qed
    then show ?thesis using Some by (auto intro: keeps_intros split: option.split)
  qed (simp add: keeps_intros)
qed

text \<open>C9: the agent is told that a request was accepted only after a quorum. With an attestation verifier and a quorum of
  distinct approvers configured, over all interleavings of requests, votes and declines of any number of engines on one
  registry that keeps its promise, a token whose acceptance reached the agent is that of a request made, for whose intent
  at least \<open>minApprovals\<close> different approvers, none of them the proposer, presented a signature that verifies for this
  token, this intent and acceptance.\<close>

theorem approval_needs_quorum:
  assumes "reachable (engine_calls o1 reqs) env_step w0 (w, ts)" "governed o1 stored approved"
    and "\<And>w w'. env_step w w' \<Longrightarrow> undisturbed stored approved w w'"
    and "en_attestationVerifier o1 = Some verify" "en_quorum o1 = Some q" "qp_distinctApprovers q \<noteq> Some False"
    and "stored w0 = {}" "approved w0 = {}" "tok \<in> approved w"
  shows "\<exists>i \<in> reqs. ri_token i = tok \<and> (\<exists>as. distinct as \<and> qp_minApprovals q \<le> int (length as)
    \<and> (\<forall>a \<in> set as. (\<exists>sig. verify a tok True (ri_intentHash i) sig) \<and> map_option pn_id (ri_requestedBy i) \<noteq> Some a))"
proof -
  let ?I = "approvals_sound verify q reqs stored approved"
  have calls: "keeping ?I p" if "p \<in> engine_calls o1 reqs" for p
    using that unfolding engine_calls_def
    by (auto intro: keeps_intros request_keeping [OF assms(2)] resolve_keeping [OF assms(2,5,6,4)])
  have "?I (fst (w, ts)) \<and> (\<forall>i p. snd (w, ts) i = Some p \<longrightarrow> keeping ?I p)"
  proof (rule keeping_reachable [OF assms(1)])
    show "?I w0" using assms(7,8) by (simp add: approvals_sound_def)
    show "?I w2" if "?I w1" "env_step w1 w2" for w1 w2 by (rule sound_undisturbed [OF that(1) assms(3) [OF that(2)]])
  qed (rule calls)
  then show ?thesis using assms(9) by (auto simp: approvals_sound_def quorate_def attested_def)
qed

subsection \<open>The token lock\<close>

text \<open>
  \<open>withTokenLock\<close>: the promises of one token form a chain, so that of the resolutions of a token the first in
  the chain runs and the others have not begun. A system is extended by the chain of each token.
\<close>

type_synonym ('w, 'a) locked = "'w \<times> (nat \<rightharpoonup> ('w, 'a) proc) \<times> (string \<Rightarrow> nat list)"

inductive lock_step ::
  "(string option \<times> ('w, 'a) proc) set \<Rightarrow> ('w \<Rightarrow> 'w \<Rightarrow> bool) \<Rightarrow> ('w, 'a) locked \<Rightarrow> ('w, 'a) locked \<Rightarrow> bool"
  for calls env_step where
  lock_call: "(Some t, p) \<in> calls \<Longrightarrow> ts i = None \<Longrightarrow>
     lock_step calls env_step (w, ts, chain) (w, ts(i \<mapsto> p), chain(t := chain t @ [i]))"
| free_call: "(None, p) \<in> calls \<Longrightarrow> ts i = None \<Longrightarrow> lock_step calls env_step (w, ts, chain) (w, ts(i \<mapsto> p), chain)"
| lock_run: "chain t = i # is \<Longrightarrow> ts i = Some (Step g) \<Longrightarrow> g w = (k, w') \<Longrightarrow>
     lock_step calls env_step (w, ts, chain) (w', ts(i \<mapsto> k), chain)"
| free_run: "(\<And>t. i \<notin> set (chain t)) \<Longrightarrow> ts i = Some (Step g) \<Longrightarrow> g w = (k, w') \<Longrightarrow>
     lock_step calls env_step (w, ts, chain) (w', ts(i \<mapsto> k), chain)"
| lock_settle: "chain t = i # is \<Longrightarrow> ts i = Some (Done r) \<Longrightarrow> lock_step calls env_step (w, ts, chain) (w, ts, chain(t := is))"
| lock_environment: "env_step w w' \<Longrightarrow> lock_step calls env_step (w, ts, chain) (w', ts, chain)"

text \<open>Every locked run is a run of the system without the lock, so what holds of all its interleavings holds here.\<close>

lemma lock_step_system:
  assumes "lock_step calls env_step (w, ts, chain) (w', ts', chain')"
  shows "(w', ts') = (w, ts) \<or> system_step (snd ` calls) env_step (w, ts) (w', ts')"
  using assms
proof cases
  case (lock_call t p i)
  then have "p \<in> snd ` calls" by force
  with lock_call show ?thesis using system_step.call_start [of ts i p] by auto
next
  case (free_call p i)
  then have "p \<in> snd ` calls" by force
  with free_call show ?thesis using system_step.call_start [of ts i p] by auto
qed (auto intro: system_step.intros)

lemma locked_reachable:
  assumes "(lock_step calls env_step)\<^sup>*\<^sup>* (w0, Map.empty, \<lambda>_. []) s"
  shows "reachable (snd ` calls) env_step w0 (fst s, fst (snd s))"
  using assms
proof (induction rule: rtranclp_induct)
  case base
  show ?case by (simp add: reachable_def)
next
  case (step s s')
  obtain w ts chain w' ts' chain' where "s = (w, ts, chain)" "s' = (w', ts', chain')" by (metis surj_pair)
  with step lock_step_system [of calls env_step w ts chain w' ts' chain'] show ?case
    unfolding reachable_def by (auto intro: rtranclp.rtrancl_into_rtrancl)
qed

text \<open>The chains hold different calls, and those that wait have taken no step.\<close>

definition serial :: "(string option \<times> ('w, 'a) proc) set \<Rightarrow> ('w, 'a) locked \<Rightarrow> bool" where
  "serial calls s \<longleftrightarrow> (case s of (w, ts, chain) \<Rightarrow>
     (\<forall>t. distinct (chain t)) \<and> (\<forall>t t' j. j \<in> set (chain t) \<longrightarrow> j \<in> set (chain t') \<longrightarrow> t = t')
   \<and> (\<forall>t j. j \<in> set (chain t) \<longrightarrow> ts j \<noteq> None)
   \<and> (\<forall>t j. j \<in> set (tl (chain t)) \<longrightarrow> (\<exists>p. (Some t, p) \<in> calls \<and> ts j = Some p)))"

lemma tl_in: "j \<in> set (tl xs) \<Longrightarrow> j \<in> set xs"
  by (cases xs) auto

lemma serialI:
  assumes "\<And>t. distinct (chain t)" "\<And>t t' j. j \<in> set (chain t) \<Longrightarrow> j \<in> set (chain t') \<Longrightarrow> t = t'"
    and "\<And>t j. j \<in> set (chain t) \<Longrightarrow> ts j \<noteq> None"
    and "\<And>t j. j \<in> set (tl (chain t)) \<Longrightarrow> \<exists>p. (Some t, p) \<in> calls \<and> ts j = Some p"
  shows "serial calls (w, ts, chain)"
  unfolding serial_def prod.case using assms by blast

lemma serialD:
  assumes "serial calls (w, ts, chain)"
  shows "distinct (chain t)" "j \<in> set (chain t) \<Longrightarrow> j \<in> set (chain t') \<Longrightarrow> t = t'" "j \<in> set (chain t) \<Longrightarrow> ts j \<noteq> None"
    "j \<in> set (tl (chain t)) \<Longrightarrow> \<exists>p. (Some t, p) \<in> calls \<and> ts j = Some p"
  using assms unfolding serial_def prod.case by blast+

lemma serial_run:
  assumes "serial calls (w, ts, chain)" "\<And>t. i \<notin> set (tl (chain t))"
  shows "serial calls (w', ts(i \<mapsto> k), chain)"
proof (rule serialI)
  show "\<exists>p. (Some t, p) \<in> calls \<and> (ts(i \<mapsto> k)) j = Some p" if "j \<in> set (tl (chain t))" for t j
  proof -
    have "j \<noteq> i" using that assms(2) by blast
    then show ?thesis using serialD(4) [OF assms(1) that] by simp
  qed
  show "(ts(i \<mapsto> k)) j \<noteq> None" if "j \<in> set (chain t)" for t j using serialD(3) [OF assms(1) that] by simp
qed (use serialD [OF assms(1)] in blast)+

lemma serial_call:
  assumes "serial calls (w, ts, chain)" "(Some t, p) \<in> calls" "ts i = None"
  shows "serial calls (w, ts(i \<mapsto> p), chain(t := chain t @ [i]))"
proof -
  note S = serialD [OF assms(1)]
  have new: "i \<notin> set (chain t')" for t' using S(3) [of i t'] assms(3) by blast
  show ?thesis
  proof (rule serialI)
    show "distinct ((chain(t := chain t @ [i])) t')" for t' using S(1) new by simp
    show "t1 = t2" if "j \<in> set ((chain(t := chain t @ [i])) t1)" "j \<in> set ((chain(t := chain t @ [i])) t2)" for t1 t2 j
    proof (cases "j = i")
      case True
      with that new show ?thesis by (auto split: if_splits)
    next
      case False
      with that have "j \<in> set (chain t1)" "j \<in> set (chain t2)" by (auto split: if_splits)
      then show ?thesis by (rule S(2))
    qed
    show "(ts(i \<mapsto> p)) j \<noteq> None" if "j \<in> set ((chain(t := chain t @ [i])) t')" for t' j
      using that S(3) [of j t'] by (auto split: if_splits)
    show "\<exists>p'. (Some t', p') \<in> calls \<and> (ts(i \<mapsto> p)) j = Some p'" if j: "j \<in> set (tl ((chain(t := chain t @ [i])) t'))" for t' j
    proof (cases "j = i")
      case True
      have "t' = t" using tl_in [OF j] new True by (auto split: if_splits)
      with True assms(2) show ?thesis by auto
    next
      case False
      have "j \<in> set (tl (chain t'))" using j False by (cases "chain t") (auto split: if_splits)
      from S(4) [OF this] False show ?thesis by simp
    qed
  qed
qed

lemma waiting_untouched:
  assumes "(lock_step calls env_step)\<^sup>*\<^sup>* (w0, Map.empty, \<lambda>_. []) s"
  shows "serial calls s"
  using assms
proof (induction rule: rtranclp_induct)
  case base
  show ?case by (simp add: serial_def)
next
  case (step s s')
  from step.hyps(2) show ?case
  proof cases
    case (lock_call t p ts i w chain)
    with step.IH show ?thesis by (simp add: serial_call)
  next
    case (free_call p ts i w chain)
    then have "i \<notin> set (tl (chain t'))" for t' using step.IH serialD(3) [of calls w ts chain i t'] tl_in by fastforce
    with step.IH free_call show ?thesis by (simp add: serial_run)
  next
    case (lock_run chain t i "is" ts g w k w')
    have S: "serial calls (w, ts, chain)" using step.IH lock_run by simp
    have "i \<notin> set (tl (chain t'))" for t'
    proof
      assume "i \<in> set (tl (chain t'))"
      moreover from tl_in [OF this] have "t' = t" using serialD(2) [OF S, of i t' t] lock_run(3) by simp
      ultimately show False using serialD(1) [OF S, of t] lock_run(3) by simp
    qed
    with S show ?thesis unfolding lock_run(2) by (rule serial_run)
  next
    case (free_run i chain ts g w k w')
    have "i \<notin> set (tl (chain t'))" for t' using free_run(3) [of t'] tl_in [of i "chain t'"] by blast
    moreover have "serial calls (w, ts, chain)" using step.IH free_run(1) by simp
    ultimately show ?thesis unfolding free_run(2) by (intro serial_run)
  next
    case (lock_settle chain t i "is" ts r w)
    have S: "serial calls (w, ts, chain)" using step.IH lock_settle by simp
    have sub: "set ((chain(t := is)) t') \<subseteq> set (chain t')" "set (tl ((chain(t := is)) t')) \<subseteq> set (tl (chain t'))" for t'
      using lock_settle(3) tl_in [of _ "is"] by auto
    show ?thesis unfolding lock_settle(2)
    proof (rule serialI)
      show "distinct ((chain(t := is)) t')" for t' using serialD(1) [OF S, of t'] lock_settle(3) by (cases "t' = t") auto
      show "t1 = t2" if "j \<in> set ((chain(t := is)) t1)" "j \<in> set ((chain(t := is)) t2)" for t1 t2 j
        using that sub(1) [of t1] sub(1) [of t2] by (intro serialD(2) [OF S, of j]) blast+
      show "ts j \<noteq> None" if "j \<in> set ((chain(t := is)) t')" for t' j
        using that sub(1) [of t'] by (intro serialD(3) [OF S, of j t']) blast
      show "\<exists>p. (Some t', p) \<in> calls \<and> ts j = Some p" if "j \<in> set (tl ((chain(t := is)) t'))" for t' j
        using that sub(2) [of t'] by (intro serialD(4) [OF S, of j t']) blast
    qed
  next
    case (lock_environment w w' ts chain)
    with step.IH show ?thesis by (simp add: serial_def)
  qed
qed

subsection \<open>What is attested\<close>

lemma split_last:
  assumes "xs @ c # h = ys @ c # h'" "c \<notin> set h" "c \<notin> set h'"
  shows "xs = ys \<and> h = h'"
proof -
  have last: "takeWhile (\<lambda>x. x \<noteq> c) (rev (zs @ c # k)) = rev k" if "c \<notin> set k" for zs k
    using that by (auto simp: takeWhile_append)
  from arg_cong [OF assms(1), of "\<lambda>l. takeWhile (\<lambda>x. x \<noteq> c) (rev l)"] last [OF assms(2)] last [OF assms(3)]
  have "h = h'" by (metis rev_rev_ident)
  with assms(1) show ?thesis by simp
qed

text \<open>A signed message stands for one token, outcome and intent: hashes are hexadecimal and have no line break.\<close>

lemma attestationMessage_inject:
  assumes "attestationMessage tok acc hash = attestationMessage tok' acc' hash'" "CHR 0x0A \<notin> set hash" "CHR 0x0A \<notin> set hash'"
  shows "tok = tok' \<and> acc = acc' \<and> hash = hash'"
proof -
  let ?word = "\<lambda>b. if b then ''approve'' else ''decline''"
  have "(tok @ CHR 0x0A # ?word acc) @ CHR 0x0A # hash = (tok' @ CHR 0x0A # ?word acc') @ CHR 0x0A # hash'"
    using assms(1) by (simp add: attestationMessage_def)
  from split_last [OF this assms(2,3)] have *: "tok @ CHR 0x0A # ?word acc = tok' @ CHR 0x0A # ?word acc'" "hash = hash'"
    by simp_all
  have "CHR 0x0A \<notin> set (?word b)" for b by (cases b) simp_all
  from split_last [OF *(1) this this] have "tok = tok'" "?word acc = ?word acc'" by simp_all
  with *(2) show ?thesis by (auto split: if_splits)
qed

subsection \<open>A desk\<close>

text \<open>One process with the in-memory registry and an agent that records the tokens it accepts.\<close>

record desk =
  d_requests :: approval_entries
  d_approved :: "string set"

definition desk_registry :: "desk ApprovalRegistry" where
  "desk_registry = createInMemoryApprovalRegistry None d_requests (\<lambda>s w. w\<lparr>d_requests := s\<rparr>) (\<lambda>_. 0) (\<lambda>_. ''now'')"

interpretation desk: approval_registry desk_registry "in_memory_requests d_requests"
  unfolding desk_registry_def by (rule in_memory_registry) simp

definition desk_engine :: "AttestationVerifier option \<Rightarrow> (desk, unit, unit, unit) ApprovalEngineOptions" where
  "desk_engine av = \<lparr>en_confirm = (\<lambda>tok accepted st ctx b. effP (\<lambda>w.
       (Inr \<lparr>at_events = [], at_history = (), at_outcome = OutCompleted ''done''\<rparr>,
        if accepted then w\<lparr>d_approved := insert tok (d_approved w)\<rparr> else w))),
     en_registry = desk_registry, en_channels = [], en_route = None, en_resolveStateContext = (\<lambda>_. retE ((), ())),
     en_buildLinks = None, en_ttlSeconds = None, en_now = retE ''now'',
     en_quorum = Some \<lparr>qp_minApprovals = 2, qp_distinctApprovers = None\<rparr>, en_attestationVerifier = av,
     en_enforceSeparationOfDuty = True, en_agentIdentity = None\<rparr>"

definition desk_start :: desk where
  "desk_start = \<lparr>d_requests = [], d_approved = {}\<rparr>"

definition desk_request :: RequestInput where
  "desk_request = \<lparr>ri_token = ''tok'', ri_sessionId = ''s'', ri_intentHash = ''h'', ri_intentKind = ''pay'', ri_prompt = [],
     ri_taint = TRUSTED, ri_escalation = None, ri_requestedBy = Some \<lparr>pn_id = ''maker'', pn_displayName = None\<rparr>\<rparr>"

definition desk_vote :: "string \<Rightarrow> Person option \<Rightarrow> ResolveInput" where
  "desk_vote a who = \<lparr>si_token = ''tok'', si_accepted = True, si_by = who,
     si_attestation = Some \<lparr>at_approverId = a, at_signature = a\<rparr>, si_channel = None\<rparr>"

lemma desk_governed: "governed (desk_engine av) (in_memory_requests d_requests) d_approved"
proof -
  have "engine_observed (desk_engine av) (in_memory_requests d_requests) d_approved"
    by (simp add: engine_observed_def desk_engine_def desk_registry_def createInMemoryApprovalRegistry_def stateE_def undisturbed_def
        case_prod_unfold effP_def in_memory_requests_def retE_def)
  then show ?thesis using desk.approval_registry_axioms by (simp add: governed_def desk_engine_def)
qed

text \<open>A request, and two votes that the engine counts as those of two people.\<close>

definition two_votes :: "AttestationVerifier option \<Rightarrow> Person option \<Rightarrow> desk" where
  "two_votes av who = snd (run (resolve_approval (desk_engine av) (desk_vote ''ann'' who))
     (snd (run (resolve_approval (desk_engine av) (desk_vote ''bob'' who))
     (snd (run (request_approval (desk_engine av) desk_request) desk_start)))))"

lemma quorumMet_eval: "quorumMet (Some vs) q p \<longleftrightarrow>
    int (let ids = map vt_id (case p of None \<Rightarrow> vs | Some x \<Rightarrow> filter (\<lambda>a. vt_id a \<noteq> x) vs)
         in if qp_distinctApprovers q = Some False then length ids else length (remdups ids)) \<ge> qp_minApprovals q"
  by (simp add: quorumMet_def Let_def length_remdups_card_conv split: option.split)

lemmas desk_defs = two_votes_def request_approval_def resolve_approval_def desk_engine_def desk_vote_def desk_request_def desk_start_def
  desk_registry_def createInMemoryApprovalRegistry_def stateE_def ar_put_def ar_get_def ar_markResolved_def sweep_all_def
  pending_request_def attestation_ok_def duty_violation_def approver_id_def quorum_step_def voter_of_def
  add_vote_def has_voted_def votes_of_def quorumMet_eval conclude_def effective_by_def channel_by_id_def engine_ttl_def
  mark_resolved_def bindE_def retE_def throwE_def tryE_def Let_def shown_name_def

lemma two_votes_approve: "d_approved (two_votes (Some (\<lambda>a tok acc h sig. sig = a)) None) = {''tok''}"
  by (simp add: desk_defs)

text \<open>
  Without a verifier the attestations are claims that nobody checks. The separation of duty then compares the person who
  calls with the proposer, but the quorum counts the claimed approvers: one person fills a quorum of two.
\<close>

lemma unverified_claims_fill_quorum:
  "d_approved (two_votes None (Some \<lparr>pn_id = ''eve'', pn_displayName = None\<rparr>)) = {''tok''}"
  by (simp add: desk_defs)

lemma next_reachable:
  assumes "reachable calls env_step w0 (w, ts)" "p \<in> calls" "ts i = None"
  shows "reachable calls env_step w0 (snd (run p w), ts(i \<mapsto> Done (fst (run p w))))"
proof -
  have "system_step calls env_step (w, ts) (w, ts(i \<mapsto> p))" using assms(3,2) by (rule call_start)
  with assms(1) have "reachable calls env_step w0 (w, ts(i \<mapsto> p))"
    unfolding reachable_def by (rule rtranclp.rtrancl_into_rtrancl)
  from run_reachable [OF this, of i p] show ?thesis by simp
qed

theorem approval_needs_quorum_witness:
  "''tok'' \<in> d_approved (two_votes (Some (\<lambda>a tok acc h sig. sig = a)) None)
   \<and> (\<exists>as. distinct as \<and> 2 \<le> length as \<and> ''maker'' \<notin> set as)"
proof -
  let ?av = "\<lambda>a tok acc h sig. sig = a"
  let ?o = "desk_engine (Some ?av)"
  let ?calls = "engine_calls ?o {desk_request}"
  have votes: "resolve_approval ?o (desk_vote a None) \<in> ?calls" for a by (simp add: engine_calls_def)
  have req: "bindP (request_approval ?o desk_request) (\<lambda>r. retP (Some r, None)) \<in> ?calls" by (simp add: engine_calls_def)
  have same: "snd (run (bindP p (\<lambda>r. retP (f r))) w) = snd (run p w)" for p :: "(desk, ApprovalRequest) proc"
      and f :: "ApprovalRequest \<Rightarrow> ApprovalRequest option \<times> unit AgentTurnResult option" and w
    by (simp add: bindE_def retE_def split: prod.split sum.split)
  have "\<exists>ts. reachable ?calls (\<lambda>_ _. False) desk_start (two_votes (Some ?av) None, ts)"
    using next_reachable [OF next_reachable [OF start_reachable [OF req, of "\<lambda>_ _. False" desk_start 0] votes, of 1 "''bob''"] votes, of 2 "''ann''"]
    unfolding same two_votes_def by auto
  then obtain ts where "reachable ?calls (\<lambda>_ _. False) desk_start (two_votes (Some ?av) None, ts)" by blast
  from approval_needs_quorum [OF this desk_governed, of ?av _ "''tok''"]
  have "\<exists>as. distinct as \<and> 2 \<le> int (length as) \<and> (\<forall>a \<in> set as. Some ''maker'' \<noteq> Some a)"
    by (auto simp: two_votes_approve desk_start_def in_memory_requests_def desk_engine_def desk_request_def)
  then show ?thesis using two_votes_approve by fastforce
qed

end
