(* ===== verification/Spec2Isabelle.thy ===== *)
theory Spec2Isabelle
  imports Node DataGuards JsonParse JsMap Stores Defer Contract Decisions ConfigSeal Agent Watching ShellAudit AgentProps AgentNode Dispatch Retry Supersession Keeping Approval
begin

text \<open>
  \<^bold>\<open>A verification development for adjudicate\<close>

  The program is a governance kernel for agents: an agent proposes an intent as an envelope, and \<open>adjudicate\<close>
  answers with one of six decisions from the envelope, a state and a policy. The asynchronous shell
  \<open>adjudicateAndAudit\<close> adds what must surround a decision before anything runs: the replay ledger, receipts and
  budgets, the one-pass rewrite, telemetry and the tamper-evident audit record. The adapter turns the tool uses of
  a model into envelopes and decisions into effects (execution, confirmation, deferral); the approval engine puts
  people between a confirmation request and its confirmation. Paths below are relative to packages/ of the repository.

  \<^bold>\<open>Foundations.\<close>
  \<^item> \<open>Prelude\<close>, \<open>Process\<close>: thrown values and results, effects \<open>'w \<Rightarrow> 'a result \<times> 'w\<close> with try, catch and finally;
    asynchronous code as a resumption whose steps are its calls, systems of interleaved processes and their reachable states.
  \<^item> \<open>Claiming\<close>, \<open>Watching\<close>, \<open>Keeping\<close>: three ways to follow processes through interleavings, with the key each has
    claimed, with the accepted records it knows of before it runs something, and with an invariant of the world.
  \<^item> \<open>JsValue\<close>, \<open>JsNum\<close>, \<open>JsMap\<close>, \<open>JsonParse\<close>: JavaScript values with objects as entries in order, numbers with
    \<open>NaN\<close> and the infinities, the insertion-ordered \<open>Map\<close> with expiring entries, \<open>JSON.stringify\<close> and \<open>JSON.parse\<close>
    with their round trip.

  \<^bold>\<open>Core.\<close>
  \<^item> \<open>Canonical\<close> (canonical/src/index.ts), \<open>Taint\<close>, \<open>BasisCodes\<close>, \<open>Envelope\<close>, \<open>Decision\<close> (core/src/taint.ts, basis-codes.ts,
    refusal.ts, envelope.ts, timing-safe.ts, decision.ts): injectivity of the canonical text, what the intent hash binds,
    the lattice of trust, field taints at any depth, session contamination.
  \<^item> \<open>KillSwitch\<close>, \<open>Policy\<close>, \<open>Kernel\<close> (core/src/kernel/enforce-config.ts, runtime-context.ts, policy.ts, combinators.ts,
    adjudicate.ts): the kernel is one function per phase, proved equal to a reference pipeline of checks, its trace to a
    reference trace; what is admitted, exactly; that it fails closed.
  \<^item> \<open>AuditRecords\<close> (core/src/audit.ts): building, signing, verifying, replaying. \<open>Supersession\<close> (audit/src/supersession-chain.ts):
    the report on chains of records, its walk ends, no record is lost, a linear history is one chain.
  \<^item> \<open>Ledger\<close>, \<open>Telemetry\<close>, \<open>Shell\<close>, \<open>ShellProps\<close>, \<open>Concurrency\<close>, \<open>ShellAudit\<close> (core/src/ledger.ts, audit/src/ledger-memory.ts,
    core/src/kernel/metrics.ts, learning.ts, adjudicate-and-audit.ts): the whole shell, what a returning call has done,
    at-most-once execution over all interleavings. \<open>Node\<close>, \<open>Retry\<close>: one node made of the parts shipped, on which sample
    calls run, what a failed call leaves, and its retry.
  \<^item> \<open>RateLimit\<close>, \<open>Guards\<close>, \<open>GuardProps\<close>, \<open>DataGuards\<close> (core/src/kernel/rate-limit.ts, core/src/side-effects.ts,
    primitives/src): the counters and the guard factories, what they guarantee and what they lose.

  \<^bold>\<open>Adapter.\<close>
  \<^item> \<open>Stores\<close>, \<open>Defer\<close> (adapter-core/src/persistence.ts, runtime/src/defer-park.ts, defer-resume.ts): the in-memory stores, a
    refinement of the burn store, parking and resuming at most once.
  \<^item> \<open>Contract\<close>, \<open>ConfigSeal\<close> (core/src/pack-output-contract.ts, capability.ts, kernel/describe.ts, conformance/src/config-seal.ts,
    canonical-json.ts, pack-trust.ts): output shapes, capabilities, the seal over the configuration of a pack.
  \<^item> \<open>Decisions\<close>, \<open>Agent\<close> (adapter-core/src/bridge.ts, decisions.ts, loop.ts, types.ts, trace.ts, errors.ts): from tool
    uses to envelopes, from decisions to effects, the turn loop with send, resume and confirm. \<open>AgentProps\<close>, \<open>AgentNode\<close>, \<open>Dispatch\<close>:
    nothing runs twice or unaudited, what guards execution, contamination within a turn, the seal of a turn.
  \<^item> \<open>Approval\<close> (approval-engine/src): requests, votes and confirmations, the token lock; acceptance only after a quorum.

  \<^bold>\<open>How the model reads.\<close> A struct is a record, a tagged union a datatype, an optional field an
  option. A throw is \<open>Inl\<close>, a return \<open>Inr\<close>; a thrown error has a name and a message. Numbers of the source that are used as integers are
  \<open>int\<close> or \<open>nat\<close>; numbers inside payloads keep their kind (\<open>jnum\<close>). Strings are lists of 8-bit
  characters, so Unicode normalisation is the identity on them, and typographic dashes in
  messages are written as hyphens. SHA-256 is a parameter of every definition that hashes: the
  theorems on integrity conclude agreement or exhibit a digest collision, and assume nothing of it.
  Guards, clocks, sinks, signers, key operations, regular expressions, providers and other callbacks are parameters too; guards are
  functions that may throw, callbacks are effects that may throw and change the world. Loggers are left out.

  \<^bold>\<open>Termination and bounds.\<close> No definition uses fuel. The turn loop recurses on the iterations that remain of
  \<open>maxIterations\<close>, as the loop of the code counts; the walk over predecessors, the walk over payloads and the parser have
  measures; every other recursion is structural. Stores sweep in the batches of the code (\<open>SWEEP_BATCH\<close>).

  \<^bold>\<open>Interfaces.\<close> \<open>kill_switch\<close> is interpreted on the control of a context and on the module
  state; \<open>ledger\<close> on the in-memory ledger and on the ledgers of a node and of an agent's site; \<open>token_store\<close> on the in-memory
  defer store; \<open>approval_registry\<close> on the in-memory registry.

  \<^bold>\<open>Not modelled.\<close> Applications, the web site, the console, the admin interface and the command line (presentation and
  wiring); adapters to model vendors, and stores, ledgers and sinks on databases and message brokers (calls of libraries that are not
  in the repository); console sinks and default singletons (output only); analysis, drift, red-team, replay and migration tools;
  the claim compiler of core/src/claims; the packs, which are policies over the modelled guards. The manifest lists each with its reason.
\<close>

end
